(* ===== verification/Eron_Prelude.thy ===== *)
theory Eron_Prelude
  imports Main "HOL-Library.Word"
begin

text \<open>
  The prelude of the development: the machine types of the kernel (unsigned 8, 16 and 32 bit
  integers, a byte-addressed memory), little-endian loads and stores with their frame lemmas,
  C strings, and the list facts the components share.
\<close>

unbundle bit_operations_syntax

named_theorems mem_simps \<open>rewriting of loads over stores\<close>
named_theorems eron_defs \<open>definitions that component proofs unfold together\<close>

type_synonym u8 = "8 word"
type_synonym u16 = "16 word"
type_synonym u32 = "32 word"
type_synonym memory = "u32 \<Rightarrow> u8"

section \<open>Byte-addressed memory\<close>

text \<open>A 32-bit load reads four consecutive bytes, least significant first, as the i386 does.\<close>

definition load32 :: "memory \<Rightarrow> u32 \<Rightarrow> u32" where
  "load32 m a = ucast (m a) OR push_bit 8 (ucast (m (a + 1)))
     OR push_bit 16 (ucast (m (a + 2))) OR push_bit 24 (ucast (m (a + 3)))"

definition load16 :: "memory \<Rightarrow> u32 \<Rightarrow> u16" where
  "load16 m a = ucast (m a) OR push_bit 8 (ucast (m (a + 1)))"

definition store32 :: "memory \<Rightarrow> u32 \<Rightarrow> u32 \<Rightarrow> memory" where
  "store32 m a v = m(a := ucast v, a + 1 := ucast (drop_bit 8 v),
     a + 2 := ucast (drop_bit 16 v), a + 3 := ucast (drop_bit 24 v))"

text \<open>
  Two memories agree on the byte range from \<open>lo\<close> (inclusive) to \<open>hi\<close> (exclusive), the range
  taken in natural numbers so that it never wraps.
\<close>

definition same_on :: "memory \<Rightarrow> memory \<Rightarrow> nat \<Rightarrow> nat \<Rightarrow> bool" where
  "same_on m m' lo hi \<longleftrightarrow> (\<forall>x. lo \<le> unat x \<and> unat x < hi \<longrightarrow> m' x = m x)"

lemma same_onI [intro]: "(\<And>x. lo \<le> unat x \<Longrightarrow> unat x < hi \<Longrightarrow> m' x = m x) \<Longrightarrow> same_on m m' lo hi"
  by (simp add: same_on_def)

lemma same_onD: "same_on m m' lo hi \<Longrightarrow> lo \<le> unat x \<Longrightarrow> unat x < hi \<Longrightarrow> m' x = m x"
  by (simp add: same_on_def)

lemma same_on_refl [simp]: "same_on m m lo hi"
  by (simp add: same_on_def)

lemma same_on_trans: "same_on m m' lo hi \<Longrightarrow> same_on m' m'' lo hi \<Longrightarrow> same_on m m'' lo hi"
  by (simp add: same_on_def)

lemma same_on_mono: "same_on m m' lo hi \<Longrightarrow> lo \<le> lo' \<Longrightarrow> hi' \<le> hi \<Longrightarrow> same_on m m' lo' hi'"
  by (simp add: same_on_def)

lemma unat_plus_no_wrap: "unat a + unat b < 2 ^ LENGTH('a) \<Longrightarrow> unat (a + b) = unat a + unat b"
  for a b :: "'a::len word"
  by (simp add: unat_word_ariths)

lemma unat_plus_small:
  fixes a :: u32
  shows "unat a + 3 < 2 ^ 32 \<Longrightarrow> unat (a + 1) = unat a + 1"
    and "unat a + 3 < 2 ^ 32 \<Longrightarrow> unat (a + 2) = unat a + 2"
    and "unat a + 3 < 2 ^ 32 \<Longrightarrow> unat (a + 3) = unat a + 3"
  by (simp_all add: unat_word_ariths)

lemma u32_bound: "unat (w :: u32) < 2 ^ 32"
  using unsigned_less [of w] by simp

lemma unat_of_nat_u32: "n < 2 ^ 32 \<Longrightarrow> unat (word_of_nat n :: u32) = n"
  by (simp add: unat_of_nat)

text \<open>
  The result of an operation on C \<open>int\<close>s: a mathematical integer reduced to 32 bits. (C leaves overflow undefined; the model wraps
  as the i386 does, and no property depends on it.)
\<close>

definition c_int :: "int \<Rightarrow> int" where
  "c_int i = signed_take_bit 31 i"

lemma c_int_small [simp]: "- (2 ^ 31) \<le> i \<Longrightarrow> i < 2 ^ 31 \<Longrightarrow> c_int i = i"
  unfolding c_int_def by (rule signed_take_bit_int_eq_self) simp_all

lemma c_int_range: "- (2 ^ 31) \<le> c_int i" "c_int i < 2 ^ 31"
  unfolding c_int_def using signed_take_bit_int_greater_eq_minus_exp [of 31 i] signed_take_bit_int_less_exp [of 31 i] by simp_all

text \<open>The four bytes that a store splits a word into give the word back.\<close>

lemma bytes32_join [mem_simps]:
  "ucast (ucast v :: u8) OR push_bit 8 (ucast (ucast (drop_bit 8 v) :: u8))
     OR push_bit 16 (ucast (ucast (drop_bit 16 v) :: u8))
     OR push_bit 24 (ucast (ucast (drop_bit 24 v) :: u8)) = (v :: u32)" (is "?l = v")
proof (rule bit_word_eqI)
  fix n assume "n < LENGTH(32)"
  then consider "n < 8" | "8 \<le> n" "n < 16" | "16 \<le> n" "n < 24" | "24 \<le> n" "n < 32"
    by fastforce
  then show "bit ?l n = bit v n"
    by cases (auto simp: bit_simps)
qed

lemma load32_store32_same [mem_simps]: "load32 (store32 m a v) a = v"
  by (simp add: load32_def store32_def bytes32_join)

lemma store32_outside: "unat a + 4 \<le> 2 ^ 32 \<Longrightarrow> unat x < unat a \<or> unat a + 4 \<le> unat x \<Longrightarrow>
    store32 m a v x = m x"
  using unat_plus_small [of a] by (auto simp: store32_def)

lemma load32_same_on: "same_on m m' (unat a) (unat a + 4) \<Longrightarrow> unat a + 4 \<le> 2 ^ 32 \<Longrightarrow>
    load32 m' a = load32 m a"
  using unat_plus_small [of a] by (simp add: load32_def same_on_def)

section \<open>Alignment masks\<close>

lemma and_not_mask_eq: "x AND NOT (mask k) = x - take_bit k x" for x :: "'a::len word"
proof -
  have "x AND NOT (mask k) = push_bit k (drop_bit k x)"
    by (rule bit_word_eqI) (auto simp: bit_simps)
  then show ?thesis using bits_ident [of k x] by (simp add: algebra_simps)
qed

text \<open>Clearing the low \<open>k\<close> bits rounds down to a multiple of \<open>2 ^ k\<close>.\<close>

lemma unat_align_down: "unat (x AND NOT (mask k)) = unat x - unat x mod 2 ^ k" for x :: u32
proof -
  have u: "unat (take_bit k x) = unat x mod 2 ^ k"
    by (metis take_bit_eq_mod unsigned_take_bit_eq)
  then have "take_bit k x \<le> x" by (simp add: word_le_nat_alt)
  then show ?thesis using u by (simp add: and_not_mask_eq unat_sub)
qed

section \<open>Searching a list\<close>

lemma find_append: "List.find P (xs @ ys) = (case List.find P xs of None \<Rightarrow> List.find P ys | Some x \<Rightarrow> Some x)"
  by (induction xs) auto

lemma find_upt_Some: "List.find P [0..<n] = Some i \<longleftrightarrow> i < n \<and> P i \<and> (\<forall>j<i. \<not> P j)"
  by (auto simp: find_Some_iff)

lemma find_upt_None: "List.find P [0..<n] = None \<longleftrightarrow> (\<forall>i<n. \<not> P i)"
  by (simp add: find_None_iff)

end
