(* ===== verification/Mm.thy ===== *)
theory Mm
  imports Eron_Prelude
begin

text \<open>
  The kernel heap of \<^verbatim>\<open>src/src/kernel/mm.c\<close>: block headers inside the heap's own memory, the table of
  tracked blocks, and every operation of the file. Block headers are read and written in the
  byte-addressed memory at their addresses, all arithmetic is 32-bit and wraps. The loops that walk
  the chain of headers may run forever on a corrupted heap, so they return an option, with \<open>None\<close>
  for a walk that does not end.
\<close>
section \<open>State and constants\<close>

record block_header =
  hdr_size :: u32
  hdr_magic :: u32
  hdr_used :: u8

definition sizeof_block_header :: u32 where "sizeof_block_header = 12"
definition BLOCK_MAGIC :: u32 where "BLOCK_MAGIC = 0xEA0BEEF"
definition BLOCK_FREE :: u8 where "BLOCK_FREE = 0"
definition BLOCK_USED :: u8 where "BLOCK_USED = 1"
definition MIN_SPLIT_PAYLOAD :: u32 where "MIN_SPLIT_PAYLOAD = 16"
definition MAX_TRACKED_BLOCKS :: nat where "MAX_TRACKED_BLOCKS = 256"

definition ALIGN8 :: "u32 \<Rightarrow> u32" where
  "ALIGN8 x = (x + 7) AND NOT 7"

record tracked_block =
  tb_ptr :: u32
  tb_size :: u32
  tb_in_use :: bool

record mm_state =
  mem :: memory
  heap_start :: u32
  heap_end :: u32
  tracked_blocks :: "tracked_block list"

text \<open>The header as the fields of the struct at an address, and the field assignments.\<close>

definition read_header :: "memory \<Rightarrow> u32 \<Rightarrow> block_header" where
  "read_header m a = \<lparr>hdr_size = load32 m a, hdr_magic = load32 m (a + 4), hdr_used = m (a + 8)\<rparr>"

definition set_hdr_size :: "u32 \<Rightarrow> u32 \<Rightarrow> mm_state \<Rightarrow> mm_state" where
  "set_hdr_size a v s = s\<lparr>mem := store32 (mem s) a v\<rparr>"

definition set_hdr_magic :: "u32 \<Rightarrow> u32 \<Rightarrow> mm_state \<Rightarrow> mm_state" where
  "set_hdr_magic a v s = s\<lparr>mem := store32 (mem s) (a + 4) v\<rparr>"

definition set_hdr_used :: "u32 \<Rightarrow> u8 \<Rightarrow> mm_state \<Rightarrow> mm_state" where
  "set_hdr_used a b s = s\<lparr>mem := (mem s)(a + 8 := b)\<rparr>"

abbreviation hdr_at :: "mm_state \<Rightarrow> u32 \<Rightarrow> block_header" where
  "hdr_at s a \<equiv> read_header (mem s) a"

section \<open>Operations\<close>

definition block_total_size :: "mm_state \<Rightarrow> u32 \<Rightarrow> u32" where
  "block_total_size s hdr = sizeof_block_header + hdr_size (hdr_at s hdr)"

definition first_block :: "mm_state \<Rightarrow> u32" where
  "first_block s = heap_start s"

definition next_block :: "mm_state \<Rightarrow> u32 \<Rightarrow> u32" where
  "next_block s hdr =
     (let addr = hdr + block_total_size s hdr in if addr \<ge> heap_end s then 0 else addr)"

definition is_block_valid :: "mm_state \<Rightarrow> u32 \<Rightarrow> bool" where
  "is_block_valid s addr =
     (if addr < heap_start s \<or> addr + sizeof_block_header > heap_end s then False
      else if hdr_magic (hdr_at s addr) \<noteq> BLOCK_MAGIC then False
      else if addr + block_total_size s addr > heap_end s then False
      else True)"

fun track_add :: "u32 \<Rightarrow> u32 \<Rightarrow> tracked_block list \<Rightarrow> tracked_block list" where
  "track_add p n [] = []"
| "track_add p n (t # ts) =
     (if \<not> tb_in_use t then \<lparr>tb_ptr = p, tb_size = n, tb_in_use = True\<rparr> # ts
      else t # track_add p n ts)"

fun track_remove :: "u32 \<Rightarrow> tracked_block list \<Rightarrow> bool \<times> tracked_block list" where
  "track_remove p [] = (False, [])"
| "track_remove p (t # ts) =
     (if tb_in_use t \<and> tb_ptr t = p then (True, t\<lparr>tb_in_use := False\<rparr> # ts)
      else (case track_remove p ts of (r, ts') \<Rightarrow> (r, t # ts')))"

fun track_validate :: "u32 \<Rightarrow> tracked_block list \<Rightarrow> bool" where
  "track_validate p [] = False"
| "track_validate p (t # ts) = (if tb_in_use t \<and> tb_ptr t = p then True else track_validate p ts)"

definition split_block :: "u32 \<Rightarrow> u32 \<Rightarrow> mm_state \<Rightarrow> mm_state" where
  "split_block hdr wanted_payload s =
     (let remaining_payload = hdr_size (hdr_at s hdr) - wanted_payload;
          minimum_needed = sizeof_block_header + MIN_SPLIT_PAYLOAD
      in if remaining_payload \<le> minimum_needed then s
         else let new_hdr = hdr + sizeof_block_header + wanted_payload;
                  s = set_hdr_size new_hdr (remaining_payload - sizeof_block_header) s;
                  s = set_hdr_magic new_hdr BLOCK_MAGIC s;
                  s = set_hdr_used new_hdr BLOCK_FREE s
              in set_hdr_size hdr wanted_payload s)"

partial_function (option) coalesce_loop :: "mm_state \<Rightarrow> u32 \<Rightarrow> mm_state option" where
  "coalesce_loop s hdr =
     (if hdr < heap_end s then
        if \<not> is_block_valid s hdr then Some s
        else let nxt = next_block s hdr in
          if nxt = 0 then Some s
          else if \<not> is_block_valid s nxt then Some s
          else if hdr_used (hdr_at s hdr) = BLOCK_FREE \<and> hdr_used (hdr_at s nxt) = BLOCK_FREE then
            coalesce_loop (set_hdr_size hdr (hdr_size (hdr_at s hdr)
              + (sizeof_block_header + hdr_size (hdr_at s nxt))) s) hdr
          else coalesce_loop s nxt
      else Some s)"

definition coalesce_free_blocks :: "mm_state \<Rightarrow> mm_state option" where
  "coalesce_free_blocks s = coalesce_loop s (first_block s)"

definition mm_init :: "u32 \<Rightarrow> u32 \<Rightarrow> mm_state \<Rightarrow> mm_state" where
  "mm_init start sz s =
     (let s = s\<lparr>heap_start := ALIGN8 start\<rparr>;
          s = s\<lparr>heap_end := heap_start s + sz\<rparr>;
          s = s\<lparr>tracked_blocks := map (\<lambda>t. t\<lparr>tb_in_use := False\<rparr>) (tracked_blocks s)\<rparr>;
          hdr = first_block s;
          s = set_hdr_size hdr (heap_end s - heap_start s - sizeof_block_header) s;
          s = set_hdr_magic hdr BLOCK_MAGIC s
      in set_hdr_used hdr BLOCK_FREE s)"

partial_function (option) kmalloc_loop :: "mm_state \<Rightarrow> u32 \<Rightarrow> u32 \<Rightarrow> (mm_state \<times> u32) option" where
  "kmalloc_loop s wanted hdr =
     (if hdr < heap_end s then
        if \<not> is_block_valid s hdr then Some (s, 0)
        else if hdr_used (hdr_at s hdr) = BLOCK_FREE \<and> hdr_size (hdr_at s hdr) \<ge> wanted then
          let s = split_block hdr wanted s;
              s = set_hdr_used hdr BLOCK_USED s;
              ptr = hdr + sizeof_block_header
          in Some (s\<lparr>tracked_blocks := track_add ptr (hdr_size (hdr_at s hdr)) (tracked_blocks s)\<rparr>, ptr)
        else let nxt = next_block s hdr in
          if nxt = 0 then Some (s, 0) else kmalloc_loop s wanted nxt
      else Some (s, 0))"

definition kmalloc :: "u32 \<Rightarrow> mm_state \<Rightarrow> (mm_state \<times> u32) option" where
  "kmalloc sz s =
     (if sz = 0 then Some (s, 0) else kmalloc_loop s (ALIGN8 sz) (first_block s))"

definition kfree :: "u32 \<Rightarrow> mm_state \<Rightarrow> (mm_state \<times> int) option" where
  "kfree ptr s =
     (if ptr = 0 then Some (s, 0)
      else if \<not> track_validate ptr (tracked_blocks s) then Some (s, 0)
      else let hdr = ptr - sizeof_block_header in
        if \<not> is_block_valid s hdr then Some (s, 0)
        else case track_remove ptr (tracked_blocks s) of (removed, ts) \<Rightarrow>
          if \<not> removed then Some (s\<lparr>tracked_blocks := ts\<rparr>, 0)
          else let s = set_hdr_used hdr BLOCK_FREE (s\<lparr>tracked_blocks := ts\<rparr>) in
            map_option (\<lambda>s. (s, 1)) (coalesce_free_blocks s))"

primrec kfree_all_loop :: "nat list \<Rightarrow> mm_state \<Rightarrow> int \<Rightarrow> (mm_state \<times> int) option" where
  "kfree_all_loop [] s freed = Some (s, freed)"
| "kfree_all_loop (i # is) s freed =
     (if tb_in_use (tracked_blocks s ! i) then
        case kfree (tb_ptr (tracked_blocks s ! i)) s of
          None \<Rightarrow> None
        | Some (s', r) \<Rightarrow> kfree_all_loop is s' (if r \<noteq> 0 then freed + 1 else freed)
      else kfree_all_loop is s freed)"

definition kfree_all :: "mm_state \<Rightarrow> (mm_state \<times> int) option" where
  "kfree_all s = kfree_all_loop [0..<MAX_TRACKED_BLOCKS] s 0"

partial_function (option) sum_loop :: "u8 \<Rightarrow> mm_state \<Rightarrow> u32 \<Rightarrow> u32 \<Rightarrow> u32 option" where
  "sum_loop flag s hdr acc =
     (if hdr < heap_end s then
        if \<not> is_block_valid s hdr then Some acc
        else let acc = (if hdr_used (hdr_at s hdr) = flag then acc + hdr_size (hdr_at s hdr) else acc);
                 nxt = next_block s hdr
          in if nxt = 0 then Some acc else sum_loop flag s nxt acc
      else Some acc)"

definition mm_used :: "mm_state \<Rightarrow> u32 option" where
  "mm_used s = sum_loop BLOCK_USED s (first_block s) 0"

definition mm_free :: "mm_state \<Rightarrow> u32 option" where
  "mm_free s = sum_loop BLOCK_FREE s (first_block s) 0"

definition mm_total :: "mm_state \<Rightarrow> u32" where
  "mm_total s = heap_end s - heap_start s - sizeof_block_header"

end
