(* ===== verification/Mm_Chain.thy ===== *)
theory Mm_Chain
  imports Mm
begin

text \<open>
  The abstraction of the heap: a list of blocks, each a payload size and a used flag, laid out one
  after the other from \<open>heap_start\<close> to \<open>heap_end\<close>. The theory shows what each loop of the allocator
  does to that list: coalescing, first-fit search, splitting, the tracking table.
\<close>

section \<open>The block list abstraction\<close>

type_synonym blocks = "(nat \<times> bool) list"

primrec extent :: "blocks \<Rightarrow> nat" where
  "extent [] = 0"
| "extent (b # bs) = 12 + fst b + extent bs"

fun chain :: "memory \<Rightarrow> nat \<Rightarrow> blocks \<Rightarrow> bool" where
  "chain m a [] = True"
| "chain m a ((n, u) # bs) =
     (read_header m (word_of_nat a) =
        \<lparr>hdr_size = word_of_nat n, hdr_magic = BLOCK_MAGIC, hdr_used = (if u then BLOCK_USED else BLOCK_FREE)\<rparr>
      \<and> chain m (a + 12 + n) bs)"

fun header_cells :: "nat \<Rightarrow> blocks \<Rightarrow> nat set" where
  "header_cells a [] = {}"
| "header_cells a ((n, u) # bs) = {a..<a + 12} \<union> header_cells (a + 12 + n) bs"

lemma extent_append [simp]: "extent (xs @ ys) = extent xs + extent ys"
  by (induction xs) auto

lemma chain_append [simp]: "chain m a (xs @ ys) \<longleftrightarrow> chain m a xs \<and> chain m (a + extent xs) ys"
  by (induction m a xs rule: chain.induct) (auto simp: add.assoc)

lemma header_cells_append [simp]:
  "header_cells a (xs @ ys) = header_cells a xs \<union> header_cells (a + extent xs) ys"
  by (induction a xs rule: header_cells.induct) (auto simp: add.assoc)

lemma header_cells_bounds: "x \<in> header_cells a bs \<Longrightarrow> a \<le> x \<and> x < a + extent bs"
  by (induction a bs rule: header_cells.induct) auto

lemma read_header_cong:
  assumes "unat a + 12 \<le> 2 ^ 32" "\<And>x. unat a \<le> unat x \<Longrightarrow> unat x < unat a + 12 \<Longrightarrow> m' x = m x"
  shows "read_header m' a = read_header m a"
proof -
  have u: "unat (a + 4) = unat a + 4" "unat (a + 8) = unat a + 8"
    using assms(1) by (simp_all add: unat_word_ariths)
  have "load32 m' a = load32 m a" "load32 m' (a + 4) = load32 m (a + 4)" "m' (a + 8) = m (a + 8)"
    using assms u by (auto intro!: load32_same_on)
  then show ?thesis by (simp add: read_header_def)
qed

lemma chain_cong:
  assumes "\<And>x. unat x \<in> header_cells a bs \<Longrightarrow> m' x = m x" "a + extent bs \<le> 2 ^ 32"
  shows "chain m' a bs = chain m a bs"
  using assms
proof (induction m a bs rule: chain.induct)
  case (2 m a n u bs)
  have "unat (word_of_nat a :: u32) = a"
    using "2.prems"(2) by (simp add: unat_of_nat)
  then have "read_header m' (word_of_nat a) = read_header m (word_of_nat a)"
    using "2.prems" by (intro read_header_cong) auto
  moreover have "chain m' (a + 12 + n) bs = chain m (a + 12 + n) bs"
    using "2.prems" by (intro "2.IH") auto
  ultimately show ?case by simp
qed simp

lemma chain_frame:
  assumes "chain m a xs" "chain m c ys"
    and "\<And>x. unat x < lo \<or> hi \<le> unat x \<Longrightarrow> m' x = m x"
    and "a + extent xs \<le> lo" "hi \<le> c" "a + extent xs \<le> 2 ^ 32" "c + extent ys \<le> 2 ^ 32"
  shows "chain m' a xs" "chain m' c ys"
proof -
  have "chain m' a xs = chain m a xs"
    using assms(3,4,6) by (intro chain_cong) (auto dest!: header_cells_bounds)
  then show "chain m' a xs" using assms(1) by simp
  have "chain m' c ys = chain m c ys"
    using assms(3,5,7) by (intro chain_cong) (auto dest!: header_cells_bounds)
  then show "chain m' c ys" using assms(2) by simp
qed

lemma hdr_at_set [simp]:
  "hdr_at (set_hdr_size a v s) a = (hdr_at s a)\<lparr>hdr_size := v\<rparr>"
  "hdr_at (set_hdr_magic a v s) a = (hdr_at s a)\<lparr>hdr_magic := v\<rparr>"
  "hdr_at (set_hdr_used a b s) a = (hdr_at s a)\<lparr>hdr_used := b\<rparr>"
  by (auto simp: read_header_def set_hdr_size_def set_hdr_magic_def set_hdr_used_def mem_simps
      load32_def store32_def add.assoc)

lemma set_hdr_fields [simp]:
  "heap_start (set_hdr_size a v s) = heap_start s" "heap_end (set_hdr_size a v s) = heap_end s"
  "tracked_blocks (set_hdr_size a v s) = tracked_blocks s"
  "heap_start (set_hdr_magic a v s) = heap_start s" "heap_end (set_hdr_magic a v s) = heap_end s"
  "tracked_blocks (set_hdr_magic a v s) = tracked_blocks s"
  "heap_start (set_hdr_used a b s) = heap_start s" "heap_end (set_hdr_used a b s) = heap_end s"
  "tracked_blocks (set_hdr_used a b s) = tracked_blocks s"
  by (simp_all add: set_hdr_size_def set_hdr_magic_def set_hdr_used_def)

lemma set_hdr_outside:
  assumes "unat a + 12 \<le> 2 ^ 32" "unat x < unat a \<or> unat a + 12 \<le> unat x"
  shows "mem (set_hdr_size a v s) x = mem s x" "mem (set_hdr_magic a v s) x = mem s x"
    "mem (set_hdr_used a b s) x = mem s x"
proof -
  have u: "unat (a + 4) = unat a + 4" "unat (a + 8) = unat a + 8"
    using assms(1) by (simp_all add: unat_word_ariths)
  show "mem (set_hdr_size a v s) x = mem s x" "mem (set_hdr_magic a v s) x = mem s x"
    "mem (set_hdr_used a b s) x = mem s x"
    using assms u by (auto simp: set_hdr_size_def set_hdr_magic_def set_hdr_used_def store32_outside)
qed

section \<open>Well-formed heaps\<close>

definition heap_wf :: "mm_state \<Rightarrow> blocks \<Rightarrow> bool" where
  "heap_wf s bs \<longleftrightarrow> chain (mem s) (unat (heap_start s)) bs
     \<and> unat (heap_start s) + extent bs = unat (heap_end s)"

abbreviation block_addr :: "mm_state \<Rightarrow> blocks \<Rightarrow> u32" where
  "block_addr s xs \<equiv> heap_start s + word_of_nat (extent xs)"

lemma unat_block_addr:
  assumes "heap_wf s (xs @ ys)"
  shows "unat (block_addr s xs) = unat (heap_start s) + extent xs"
proof -
  have "unat (heap_start s) + extent xs < 2 ^ 32"
    using assms u32_bound [of "heap_end s"] by (simp add: heap_wf_def)
  then show ?thesis by (simp add: unat_word_ariths unat_of_nat)
qed

lemma heap_wf_block:
  assumes wf: "heap_wf s (xs @ (n, u) # ys)"
  defines "hdr \<equiv> block_addr s xs"
  shows "hdr < heap_end s"
    and "is_block_valid s hdr"
    and "hdr_at s hdr = \<lparr>hdr_size = word_of_nat n, hdr_magic = BLOCK_MAGIC,
           hdr_used = (if u then BLOCK_USED else BLOCK_FREE)\<rparr>"
    and "unat (word_of_nat n :: u32) = n"
    and "next_block s hdr = (if ys = [] then 0 else block_addr s (xs @ [(n, u)]))"
    and "unat hdr + 12 + n \<le> unat (heap_end s)"
proof -
  let ?a = "unat (heap_start s) + extent xs"
  have bound: "?a + 12 + n + extent ys = unat (heap_end s)"
    using wf by (simp add: heap_wf_def)
  have lt: "unat (heap_end s) < 2 ^ 32" by (rule u32_bound)
  have a: "unat hdr = ?a" unfolding hdr_def by (rule unat_block_addr [OF wf])
  have hw: "hdr = word_of_nat ?a" by (simp add: hdr_def)
  show n: "unat (word_of_nat n :: u32) = n"
    using bound lt by (simp add: unat_of_nat)
  show h: "hdr_at s hdr = \<lparr>hdr_size = word_of_nat n, hdr_magic = BLOCK_MAGIC,
      hdr_used = (if u then BLOCK_USED else BLOCK_FREE)\<rparr>"
    using wf hw by (simp add: heap_wf_def)
  show "hdr < heap_end s" using a bound by (simp add: word_less_nat_alt)
  show "unat hdr + 12 + n \<le> unat (heap_end s)" using a bound by simp
  have a12: "unat (hdr + 12) = ?a + 12" "unat (hdr + (12 + word_of_nat n)) = ?a + 12 + n"
    using a bound lt n by (simp_all add: unat_word_ariths)
  have ge: "heap_start s \<le> hdr"
    using a by (simp add: word_le_nat_alt)
  show "is_block_valid s hdr"
    using a12 bound ge h
    by (auto simp: is_block_valid_def sizeof_block_header_def block_total_size_def
        word_less_nat_alt word_le_nat_alt)
  have "heap_end s \<le> hdr + (12 + word_of_nat n) \<longleftrightarrow> ys = []"
    using a12(2) bound by (cases ys) (auto simp: word_le_nat_alt)
  then show "next_block s hdr = (if ys = [] then 0 else block_addr s (xs @ [(n, u)]))"
    using h by (simp add: next_block_def block_total_size_def sizeof_block_header_def hdr_def
        algebra_simps)
qed

lemma block_addr_pos:
  assumes "heap_wf s (xs @ ys)" "xs \<noteq> []"
  shows "block_addr s xs \<noteq> 0"
proof -
  have "0 < extent xs" using assms(2) by (cases xs) auto
  then show ?thesis using unat_block_addr [OF assms(1)] by (metis add_is_0 less_not_refl unat_0)
qed

text \<open>
  Replacing a run of blocks \<open>vs\<close> by another run \<open>zs\<close> of the same extent, with no byte outside the
  run changed, keeps the heap well formed: the step every operation on the heap is an instance of.
\<close>

lemma heap_wf_replace:
  assumes wf: "heap_wf s (xs @ vs @ ys)"
    and same: "heap_start s' = heap_start s" "heap_end s' = heap_end s"
    and frame: "\<And>x. unat x < unat (heap_start s) + extent xs
        \<or> unat (heap_start s) + extent xs + extent vs \<le> unat x \<Longrightarrow> mem s' x = mem s x"
    and zs: "chain (mem s') (unat (heap_start s) + extent xs) zs" "extent zs = extent vs"
  shows "heap_wf s' (xs @ zs @ ys)"
proof -
  let ?a = "unat (heap_start s)"
  have c: "chain (mem s) ?a xs" "chain (mem s) (?a + extent xs + extent vs) ys"
    and e: "?a + extent xs + extent vs + extent ys = unat (heap_end s)"
    using wf by (auto simp: heap_wf_def)
  have "unat (heap_end s) < 2 ^ 32" by (rule u32_bound)
  with e have "chain (mem s') ?a xs" "chain (mem s') (?a + extent xs + extent vs) ys"
    using chain_frame [OF c frame] by auto
  then show ?thesis using zs e same by (auto simp: heap_wf_def)
qed

lemma chain_one:
  "chain m a [(n, u)] \<longleftrightarrow> read_header m (word_of_nat a) =
     \<lparr>hdr_size = word_of_nat n, hdr_magic = BLOCK_MAGIC, hdr_used = (if u then BLOCK_USED else BLOCK_FREE)\<rparr>"
  by simp

lemma heap_wf_set_used:
  assumes wf: "heap_wf s (xs @ (n, u) # ys)"
  shows "heap_wf (set_hdr_used (block_addr s xs) (if v then BLOCK_USED else BLOCK_FREE) s)
           (xs @ (n, v) # ys)"
proof -
  let ?s = "set_hdr_used (block_addr s xs) (if v then BLOCK_USED else BLOCK_FREE) s"
  note blk = heap_wf_block [OF wf] and a = unat_block_addr [OF wf]
  have "unat (block_addr s xs) + 12 \<le> 2 ^ 32"
    using blk(6) u32_bound [of "heap_end s"] by linarith
  then have frame: "mem ?s x = mem s x" if "unat x < unat (heap_start s) + extent xs
      \<or> unat (heap_start s) + extent xs + extent [(n, u)] \<le> unat x" for x
    using that a by (auto intro!: set_hdr_outside)
  have "chain (mem ?s) (unat (heap_start s) + extent xs) [(n, v)]"
    using blk(3) by (simp add: chain_one)
  then show ?thesis
    using heap_wf_replace [of s xs "[(n, u)]" ys ?s "[(n, v)]"] wf frame by simp
qed

lemma heap_wf_merge:
  assumes wf: "heap_wf s (xs @ (n, False) # (k, False) # ys)"
  shows "heap_wf (set_hdr_size (block_addr s xs) (word_of_nat (n + 12 + k)) s)
           (xs @ (n + 12 + k, False) # ys)"
proof -
  let ?s = "set_hdr_size (block_addr s xs) (word_of_nat (n + 12 + k)) s"
  note blk = heap_wf_block [OF wf] and a = unat_block_addr [OF wf]
  have "unat (block_addr s xs) + 12 \<le> 2 ^ 32"
    using blk(6) u32_bound [of "heap_end s"] by linarith
  then have frame: "mem ?s x = mem s x" if "unat x < unat (heap_start s) + extent xs
      \<or> unat (heap_start s) + extent xs + extent [(n, False), (k, False)] \<le> unat x" for x
    using that a by (auto intro!: set_hdr_outside)
  have "chain (mem ?s) (unat (heap_start s) + extent xs) [(n + 12 + k, False)]"
    using blk(3) by (simp add: chain_one)
  then show ?thesis
    using heap_wf_replace [of s xs "[(n, False), (k, False)]" ys ?s "[(n + 12 + k, False)]"] wf frame
    by simp
qed

section \<open>Coalescing\<close>

text \<open>What \<open>coalesce_free_blocks\<close> does to the list of blocks: adjacent free blocks are merged.\<close>

fun coalesce :: "blocks \<Rightarrow> blocks" where
  "coalesce [] = []"
| "coalesce [b] = [b]"
| "coalesce ((n, u) # (k, v) # bs) =
     (if \<not> u \<and> \<not> v then coalesce ((n + 12 + k, False) # bs) else (n, u) # coalesce ((k, v) # bs))"

lemma coalesce_loop_merge:
  assumes wf: "heap_wf s (xs @ (n, False) # (k, False) # ys)"
  defines "t \<equiv> set_hdr_size (block_addr s xs) (word_of_nat (n + 12 + k)) s"
  shows "coalesce_loop s (block_addr s xs) = coalesce_loop t (block_addr s xs)"
    and "unat x \<notin> header_cells (unat (heap_start s) + extent xs) ((n, False) # (k, False) # ys)
      \<Longrightarrow> mem t x = mem s x"
proof -
  note b1 = heap_wf_block [of s xs n False "(k, False) # ys", OF wf]
  have wf2: "heap_wf s ((xs @ [(n, False)]) @ (k, False) # ys)" using wf by simp
  note b2 = heap_wf_block [OF wf2]
  have pos: "block_addr s (xs @ [(n, False)]) \<noteq> 0"
    using wf2 by (rule block_addr_pos) simp
  have nxt: "next_block s (block_addr s xs) = block_addr s (xs @ [(n, False)])"
    using b1(5) by simp
  show "coalesce_loop s (block_addr s xs) = coalesce_loop t (block_addr s xs)"
    by (subst coalesce_loop.simps)
      (simp only: b1(1-3) b2(1-3) nxt pos Let_def, simp add: t_def sizeof_block_header_def algebra_simps)
  have "unat (block_addr s xs) + 12 \<le> 2 ^ 32"
    using b1(6) u32_bound [of "heap_end s"] by linarith
  then show "mem t x = mem s x"
    if "unat x \<notin> header_cells (unat (heap_start s) + extent xs) ((n, False) # (k, False) # ys)"
    using that unat_block_addr [OF wf] unfolding t_def by (intro set_hdr_outside) auto
qed

lemma coalesce_loop_skip:
  assumes wf: "heap_wf s (xs @ (n, u) # (k, v) # ys)" and "u \<or> v"
  shows "coalesce_loop s (block_addr s xs) = coalesce_loop s (block_addr s (xs @ [(n, u)]))"
proof -
  note b1 = heap_wf_block [of s xs n u "(k, v) # ys", OF wf]
  have wf2: "heap_wf s ((xs @ [(n, u)]) @ (k, v) # ys)" using wf by simp
  note b2 = heap_wf_block [OF wf2]
  have pos: "block_addr s (xs @ [(n, u)]) \<noteq> 0"
    using wf2 by (rule block_addr_pos) simp
  have nxt: "next_block s (block_addr s xs) = block_addr s (xs @ [(n, u)])"
    using b1(5) by simp
  show ?thesis
    by (subst coalesce_loop.simps)
      (use assms(2) in \<open>simp only: b1(1-3) b2(1-3) nxt pos Let_def,
        auto simp: BLOCK_USED_def BLOCK_FREE_def\<close>)
qed

lemma coalesce_loop_last:
  assumes wf: "heap_wf s (xs @ [(n, u)])"
  shows "coalesce_loop s (block_addr s xs) = Some s"
  using heap_wf_block [OF wf] by (subst coalesce_loop.simps) simp

lemma coalesce_loop_refines:
  assumes "heap_wf s (xs @ ys)" "ys \<noteq> []"
  shows "\<exists>s'. coalesce_loop s (block_addr s xs) = Some s' \<and> heap_wf s' (xs @ coalesce ys)
    \<and> heap_start s' = heap_start s \<and> heap_end s' = heap_end s \<and> tracked_blocks s' = tracked_blocks s
    \<and> (\<forall>x. unat x \<notin> header_cells (unat (heap_start s) + extent xs) ys \<longrightarrow> mem s' x = mem s x)"
  using assms
proof (induction ys arbitrary: s xs rule: coalesce.induct)
  case 1
  then show ?case by simp
next
  case (2 b)
  then show ?case using coalesce_loop_last [of s xs "fst b" "snd b"] by simp
next
  case (3 n u k v bs)
  note wf = "3.prems"(1)
  show ?case
  proof (cases "\<not> u \<and> \<not> v")
    case True
    let ?t = "set_hdr_size (block_addr s xs) (word_of_nat (n + 12 + k)) s"
    have wf': "heap_wf s (xs @ (n, False) # (k, False) # bs)" using wf True by simp
    obtain s' where s': "coalesce_loop ?t (block_addr ?t xs) = Some s'"
      "heap_wf s' (xs @ coalesce ((n + 12 + k, False) # bs))"
      "heap_start s' = heap_start s" "heap_end s' = heap_end s" "tracked_blocks s' = tracked_blocks s"
      "\<And>x. unat x \<notin> header_cells (unat (heap_start s) + extent xs) ((n + 12 + k, False) # bs)
         \<Longrightarrow> mem s' x = mem ?t x"
      using "3.IH"(1) [OF True heap_wf_merge [OF wf']] by auto
    have "mem s' x = mem s x" if "unat x \<notin> header_cells (unat (heap_start s) + extent xs)
        ((n, False) # (k, False) # bs)" for x
      using s'(6) [of x] coalesce_loop_merge(2) [OF wf' that] that by (auto simp: algebra_simps)
    then show ?thesis using s' coalesce_loop_merge(1) [OF wf'] True by auto
  next
    case False
    have wf2: "heap_wf s ((xs @ [(n, u)]) @ (k, v) # bs)" using wf by simp
    show ?thesis
      using "3.IH"(2) [OF False wf2] coalesce_loop_skip [OF wf] False by (auto simp: algebra_simps)
  qed
qed

lemma extent_coalesce [simp]: "extent (coalesce bs) = extent bs"
  by (induction bs rule: coalesce.induct) auto

lemma coalesce_eq_Nil [simp]: "coalesce bs = [] \<longleftrightarrow> bs = []"
  by (induction bs rule: coalesce.induct) auto

fun no_adjacent_free :: "blocks \<Rightarrow> bool" where
  "no_adjacent_free ((n, u) # (k, v) # bs) = ((u \<or> v) \<and> no_adjacent_free ((k, v) # bs))"
| "no_adjacent_free _ = True"

lemma hd_coalesce_used: "bs \<noteq> [] \<Longrightarrow> snd (hd (coalesce bs)) = snd (hd bs)"
  by (induction bs rule: coalesce.induct) auto

lemma no_adjacent_free_Cons:
  "no_adjacent_free (b # bs) \<longleftrightarrow> (bs = [] \<or> snd b \<or> snd (hd bs)) \<and> no_adjacent_free bs"
  by (cases b; cases bs) auto

lemma no_adjacent_free_coalesce: "no_adjacent_free (coalesce bs)"
proof (induction bs rule: coalesce.induct)
  case (3 n u k v bs)
  then show ?case
    using hd_coalesce_used [of "(k, v) # bs"] by (auto simp: no_adjacent_free_Cons)
qed auto

lemma coalesce_id: "no_adjacent_free bs \<Longrightarrow> coalesce bs = bs"
  by (induction bs rule: coalesce.induct) auto

section \<open>Payload layout\<close>

text \<open>The payload address, size and state of each block of a heap that starts at \<open>a\<close>.\<close>

fun layout :: "nat \<Rightarrow> blocks \<Rightarrow> (nat \<times> nat \<times> bool) list" where
  "layout a [] = []"
| "layout a ((n, u) # bs) = (a + 12, n, u) # layout (a + 12 + n) bs"

definition live :: "nat \<Rightarrow> blocks \<Rightarrow> (nat \<times> nat) set" where
  "live a bs = {(p, n). (p, n, True) \<in> set (layout a bs)}"

lemma layout_append [simp]: "layout a (xs @ ys) = layout a xs @ layout (a + extent xs) ys"
  by (induction a xs rule: layout.induct) (auto simp: add.assoc)

lemma live_Nil [simp]: "live a [] = {}"
  by (simp add: live_def)

lemma live_Cons [simp]: "live a ((n, u) # bs) = (if u then {(a + 12, n)} else {}) \<union> live (a + 12 + n) bs"
  by (auto simp: live_def)

lemma live_append [simp]: "live a (xs @ ys) = live a xs \<union> live (a + extent xs) ys"
  by (auto simp: live_def)

lemma layout_bounds: "(p, n, u) \<in> set (layout a bs) \<Longrightarrow> a + 12 \<le> p \<and> p + n \<le> a + extent bs"
  by (induction a bs rule: layout.induct) auto

lemma live_bounds: "(p, n) \<in> live a bs \<Longrightarrow> a + 12 \<le> p \<and> p + n \<le> a + extent bs"
  by (auto simp: live_def dest: layout_bounds)

lemma live_payload_not_header:
  "(p, n) \<in> live a bs \<Longrightarrow> p \<le> x \<Longrightarrow> x < p + n \<Longrightarrow> x \<notin> header_cells a bs"
proof (induction a bs rule: header_cells.induct)
  case (2 a n' u bs)
  show ?case
  proof (cases "(p, n) \<in> live (a + 12 + n') bs")
    case True
    then show ?thesis using "2.IH" "2.prems"(2,3) live_bounds [OF True] by auto
  next
    case False
    then show ?thesis using "2.prems" by (auto split: if_splits dest!: header_cells_bounds)
  qed
qed simp

lemma live_coalesce [simp]: "live a (coalesce bs) = live a bs"
  by (induction bs arbitrary: a rule: coalesce.induct) (auto simp: algebra_simps)

text \<open>Distinct live blocks do not share a byte.\<close>

lemma live_disjoint:
  "(p, n) \<in> live a bs \<Longrightarrow> (q, k) \<in> live a bs \<Longrightarrow> (p, n) \<noteq> (q, k) \<Longrightarrow> p + n \<le> q \<or> q + k \<le> p"
proof (induction bs arbitrary: a)
  case (Cons b bs)
  obtain m u where b: "b = (m, u)" by fastforce
  show ?case
  proof (cases "(p, n) \<in> live (a + 12 + m) bs \<and> (q, k) \<in> live (a + 12 + m) bs")
    case True
    then show ?thesis using Cons.IH Cons.prems(3) by blast
  next
    case False
    then show ?thesis using Cons.prems b by (auto split: if_splits dest: live_bounds)
  qed
qed simp

section \<open>Allocation\<close>

text \<open>
  First fit on the list of blocks: the first free block of at least \<open>w\<close> bytes is taken, and split
  when more than 28 bytes (a header and the minimal payload) would be left over.
\<close>

fun first_fit :: "nat \<Rightarrow> blocks \<Rightarrow> (blocks \<times> nat \<times> blocks) option" where
  "first_fit w [] = None"
| "first_fit w ((n, u) # bs) =
     (if \<not> u \<and> w \<le> n then Some ([], n, bs)
      else map_option (\<lambda>(xs, k, ys). ((n, u) # xs, k, ys)) (first_fit w bs))"

definition carve :: "nat \<Rightarrow> nat \<Rightarrow> blocks" where
  "carve w n = (if n - w \<le> 28 then [(n, True)] else [(w, True), (n - w - 12, False)])"

lemma first_fit_Some: "first_fit w bs = Some (xs, n, ys) \<Longrightarrow>
    bs = xs @ (n, False) # ys \<and> w \<le> n \<and> (\<forall>(k, u) \<in> set xs. u \<or> k < w)"
  by (induction w bs arbitrary: xs rule: first_fit.induct) (auto split: if_splits)

lemma first_fit_None: "first_fit w bs = None \<longleftrightarrow> (\<forall>(k, u) \<in> set bs. u \<or> k < w)"
  by (induction w bs rule: first_fit.induct) (auto simp: not_le)

lemma extent_carve: "w \<le> n \<Longrightarrow> extent (carve w n) = 12 + n"
  by (simp add: carve_def)

lemma kmalloc_loop_unfit:
  assumes wf: "heap_wf s (xs @ (n, u) # ys)" and "u \<or> n < unat w"
  shows "kmalloc_loop s w (block_addr s xs) =
    (if ys = [] then Some (s, 0) else kmalloc_loop s w (block_addr s (xs @ [(n, u)])))"
proof -
  note b = heap_wf_block [OF wf]
  have no: "\<not> (hdr_used (hdr_at s (block_addr s xs)) = BLOCK_FREE
      \<and> w \<le> hdr_size (hdr_at s (block_addr s xs)))"
    using assms(2) b(3,4) by (auto simp: BLOCK_FREE_def BLOCK_USED_def word_le_nat_alt)
  have pos: "ys \<noteq> [] \<Longrightarrow> block_addr s (xs @ [(n, u)]) \<noteq> 0"
    by (rule block_addr_pos [of _ _ ys]) (use wf in auto)
  show ?thesis
  proof (cases "ys = []")
    case True
    then show ?thesis using b(1,2,5) no by (subst kmalloc_loop.simps) auto
  next
    case False
    then have "next_block s (block_addr s xs) = block_addr s (xs @ [(n, u)])"
      using b(5) by simp
    then show ?thesis using b(1,2) no pos False by (subst kmalloc_loop.simps) (simp only: Let_def, auto)
  qed
qed

lemma hdr_at_set_other:
  assumes "unat a + 12 \<le> 2 ^ 32" "unat c + 12 \<le> 2 ^ 32" "unat a + 12 \<le> unat c \<or> unat c + 12 \<le> unat a"
  shows "hdr_at (set_hdr_size a v s) c = hdr_at s c" "hdr_at (set_hdr_magic a v s) c = hdr_at s c"
    "hdr_at (set_hdr_used a b s) c = hdr_at s c"
  using assms by (auto intro!: read_header_cong set_hdr_outside)

definition write_header :: "u32 \<Rightarrow> u32 \<Rightarrow> u8 \<Rightarrow> mm_state \<Rightarrow> mm_state" where
  "write_header a n u s = set_hdr_used a u (set_hdr_magic a BLOCK_MAGIC (set_hdr_size a n s))"

lemma hdr_at_write_header [simp]:
  "hdr_at (write_header a n u s) a = \<lparr>hdr_size = n, hdr_magic = BLOCK_MAGIC, hdr_used = u\<rparr>"
  by (cases "hdr_at s a") (simp add: write_header_def)

lemma write_header_fields [simp]:
  "heap_start (write_header a n u s) = heap_start s" "heap_end (write_header a n u s) = heap_end s"
  "tracked_blocks (write_header a n u s) = tracked_blocks s"
  by (simp_all add: write_header_def)

text \<open>The two headers that a split leaves behind, and the bytes it does not touch.\<close>

lemma split_headers:
  fixes h w k :: u32 and s :: mm_state
  assumes lim: "unat h + 12 + unat w + 12 \<le> 2 ^ 32"
  defines "t \<equiv> set_hdr_size h w (write_header (h + 12 + w) k BLOCK_FREE s)"
  shows "hdr_at t h = (hdr_at s h)\<lparr>hdr_size := w\<rparr>"
    and "hdr_at t (h + 12 + w) = \<lparr>hdr_size = k, hdr_magic = BLOCK_MAGIC, hdr_used = BLOCK_FREE\<rparr>"
    and "unat x < unat h \<or> unat h + 12 + unat w + 12 \<le> unat x \<Longrightarrow> mem t x = mem s x"
proof -
  have new: "unat (h + 12 + w) = unat h + 12 + unat w"
    using lim by (simp add: unat_word_ariths)
  have apart: "unat h + 12 \<le> unat (h + 12 + w)" "unat h + 12 \<le> 2 ^ 32"
    "unat (h + 12 + w) + 12 \<le> 2 ^ 32"
    using lim new by auto
  have "hdr_at (write_header (h + 12 + w) k BLOCK_FREE s) h = hdr_at s h"
    using apart by (simp add: write_header_def hdr_at_set_other)
  then show "hdr_at t h = (hdr_at s h)\<lparr>hdr_size := w\<rparr>"
    by (simp add: t_def)
  show "hdr_at t (h + 12 + w) = \<lparr>hdr_size = k, hdr_magic = BLOCK_MAGIC, hdr_used = BLOCK_FREE\<rparr>"
    using apart unfolding t_def by (subst hdr_at_set_other) auto
  show "mem t x = mem s x" if "unat x < unat h \<or> unat h + 12 + unat w + 12 \<le> unat x"
    using that apart new by (auto simp: t_def write_header_def set_hdr_outside)
qed

definition split_list :: "nat \<Rightarrow> nat \<Rightarrow> blocks" where
  "split_list w n = (if n - w \<le> 28 then [(n, False)] else [(w, False), (n - w - 12, False)])"

lemma split_block_keeps [simp]:
  "heap_start (split_block h w s) = heap_start s" "heap_end (split_block h w s) = heap_end s"
  "tracked_blocks (split_block h w s) = tracked_blocks s"
  by (simp_all add: split_block_def Let_def)

lemma split_block_eq:
  assumes "hdr_size (hdr_at s h) = word_of_nat n" "unat (word_of_nat n :: u32) = n" "unat w \<le> n"
  shows "split_block h w s = (if n - unat w \<le> 28 then s
    else set_hdr_size h w (write_header (h + 12 + w) (word_of_nat (n - unat w - 12)) BLOCK_FREE s))"
proof -
  have "unat (word_of_nat n - w) = n - unat w"
    using assms(2,3) by (simp add: unat_sub word_le_nat_alt)
  then have no: "word_of_nat n - w \<le> sizeof_block_header + MIN_SPLIT_PAYLOAD \<longleftrightarrow> n - unat w \<le> 28"
    by (simp add: word_le_nat_alt sizeof_block_header_def MIN_SPLIT_PAYLOAD_def)
  have "\<not> n - unat w \<le> 28 \<Longrightarrow> word_of_nat n - w - 12 = (word_of_nat (n - unat w - 12) :: u32)"
    using assms(3) by simp
  with no assms(1) show ?thesis
    by (simp add: split_block_def Let_def write_header_def sizeof_block_header_def diff_diff_eq)
qed

lemma heap_wf_split:
  assumes wf: "heap_wf s (xs @ (n, False) # ys)" and fit: "unat w \<le> n"
  shows "heap_wf (split_block (block_addr s xs) w s) (xs @ split_list (unat w) n @ ys)"
    and "unat x < unat (block_addr s xs) \<or> unat (block_addr s xs) + 12 + n \<le> unat x \<Longrightarrow>
      mem (split_block (block_addr s xs) w s) x = mem s x"
proof -
  let ?h = "block_addr s xs" and ?t = "split_block (block_addr s xs) w s"
  note b = heap_wf_block [OF wf] and a = unat_block_addr [OF wf]
  have lim: "unat ?h + 12 + n < 2 ^ 32" using b(6) u32_bound [of "heap_end s"] by linarith
  have t: "?t = (if n - unat w \<le> 28 then s
    else set_hdr_size ?h w (write_header (?h + 12 + w) (word_of_nat (n - unat w - 12)) BLOCK_FREE s))"
    using b(3,4) fit by (intro split_block_eq) auto
  have "heap_wf ?t (xs @ split_list (unat w) n @ ys) \<and> (\<forall>x. unat x < unat ?h \<or> unat ?h + 12 + n \<le> unat x
      \<longrightarrow> mem ?t x = mem s x)"
  proof (cases "n - unat w \<le> 28")
    case True
    then show ?thesis using wf t by (simp add: split_list_def)
  next
    case False
    have "unat ?h + 12 + unat w + 12 \<le> 2 ^ 32" using lim False by linarith
    note two = split_headers [OF this, where k = "word_of_nat (n - unat w - 12)" and s = s]
    have frame: "mem ?t x = mem s x" if "unat x < unat ?h \<or> unat ?h + 12 + n \<le> unat x" for x
      using that False two(3) [of x] t by auto
    have "chain (mem ?t) (unat (heap_start s) + extent xs) (split_list (unat w) n)"
      using False two(1,2) b(3) t by (simp add: split_list_def add.assoc)
    moreover have "extent (split_list (unat w) n) = extent [(n, False)]"
      using fit by (simp add: split_list_def)
    ultimately have "heap_wf ?t (xs @ split_list (unat w) n @ ys)"
      using heap_wf_replace [of s xs "[(n, False)]" ys ?t "split_list (unat w) n"] wf frame a
      by (simp add: add.assoc)
    then show ?thesis using frame by blast
  qed
  then show "heap_wf ?t (xs @ split_list (unat w) n @ ys)"
    and "unat x < unat ?h \<or> unat ?h + 12 + n \<le> unat x \<Longrightarrow> mem ?t x = mem s x" by auto
qed

lemma kmalloc_loop_search:
  assumes "heap_wf s (xs @ ys)" "ys \<noteq> []"
  shows "kmalloc_loop s w (block_addr s xs) = (case first_fit (unat w) ys of
    None \<Rightarrow> Some (s, 0) | Some (us, n, vs) \<Rightarrow> kmalloc_loop s w (block_addr s (xs @ us)))"
  using assms
proof (induction ys arbitrary: xs)
  case (Cons b ys)
  obtain n u where b: "b = (n, u)" by fastforce
  show ?case
  proof (cases "\<not> u \<and> unat w \<le> n")
    case True
    then show ?thesis using b by simp
  next
    case False
    then have loop: "kmalloc_loop s w (block_addr s xs) =
        (if ys = [] then Some (s, 0) else kmalloc_loop s w (block_addr s (xs @ [(n, u)])))"
      using kmalloc_loop_unfit [of s xs n u ys w] Cons.prems(1) b by (simp add: not_le)
    show ?thesis
    proof (cases "ys = []")
      case True
      then show ?thesis using False b loop by auto
    next
      case False
      then have "kmalloc_loop s w (block_addr s (xs @ [(n, u)])) = (case first_fit (unat w) ys of
          None \<Rightarrow> Some (s, 0) | Some (us, k, vs) \<Rightarrow> kmalloc_loop s w (block_addr s ((xs @ [(n, u)]) @ us)))"
        using Cons.prems(1) b by (intro Cons.IH) auto
      then show ?thesis
        using loop False b \<open>\<not> (\<not> u \<and> unat w \<le> n)\<close> by (auto split: option.splits simp: add.assoc)
    qed
  qed
qed simp

lemma kmalloc_loop_fit:
  assumes wf: "heap_wf s (xs @ (n, False) # ys)" and fit: "unat w \<le> n"
  shows "\<exists>t. kmalloc_loop s w (block_addr s xs) = Some (t\<lparr>tracked_blocks :=
        track_add (block_addr s xs + 12) (word_of_nat (fst (hd (carve (unat w) n)))) (tracked_blocks s)\<rparr>,
        block_addr s xs + 12)
    \<and> heap_wf t (xs @ carve (unat w) n @ ys) \<and> heap_start t = heap_start s \<and> heap_end t = heap_end s
    \<and> (\<forall>x. unat x < unat (block_addr s xs) \<or> unat (block_addr s xs) + 12 + n \<le> unat x
         \<longrightarrow> mem t x = mem s x)"
proof -
  let ?h = "block_addr s xs"
  define t0 where "t0 = split_block ?h w s"
  define t where "t = set_hdr_used ?h BLOCK_USED t0"
  note b = heap_wf_block [OF wf]
  obtain k rest where k: "split_list (unat w) n = (k, False) # rest" "carve (unat w) n = (k, True) # rest"
    by (cases "n - unat w \<le> 28") (auto simp: split_list_def carve_def)
  have wf0: "heap_wf t0 (xs @ (k, False) # rest @ ys)"
    using heap_wf_split(1) [OF wf fit] k by (simp add: t0_def)
  have h0: "block_addr t0 xs = ?h" by (simp add: t0_def)
  have wft: "heap_wf t (xs @ (k, True) # rest @ ys)"
    using heap_wf_set_used [OF wf0, of True] h0 by (simp add: t_def)
  have lim: "unat ?h + 12 \<le> 2 ^ 32" using b(6) u32_bound [of "heap_end s"] by linarith
  have frame: "mem t x = mem s x" if "unat x < unat ?h \<or> unat ?h + 12 + n \<le> unat x" for x
    using that heap_wf_split(2) [OF wf fit, of x] lim by (auto simp: t_def t0_def set_hdr_outside)
  have size: "hdr_size (hdr_at t ?h) = word_of_nat k"
    using heap_wf_block(3) [OF wft] by (simp add: t_def t0_def)
  have "kmalloc_loop s w ?h = Some (t\<lparr>tracked_blocks :=
        track_add (?h + 12) (word_of_nat k) (tracked_blocks s)\<rparr>, ?h + 12)"
    using b(1,2,3,4) fit size
    by (subst kmalloc_loop.simps) (simp add: Let_def t_def t0_def sizeof_block_header_def word_le_nat_alt)
  then show ?thesis
    using wft frame k by (intro exI [of _ t]) (auto simp: t_def t0_def)
qed

section \<open>The tracking table\<close>

primrec used_entries :: "tracked_block list \<Rightarrow> (u32 \<times> u32) list" where
  "used_entries [] = []"
| "used_entries (t # ts) =
     (if tb_in_use t then (tb_ptr t, tb_size t) # used_entries ts else used_entries ts)"

lemma track_validate_iff: "track_validate p ts \<longleftrightarrow> p \<in> fst ` set (used_entries ts)"
  by (induction p ts rule: track_validate.induct) auto

lemma length_track_add [simp]: "length (track_add p n ts) = length ts"
  by (induction p n ts rule: track_add.induct) auto

lemma length_track_remove [simp]: "length (snd (track_remove p ts)) = length ts"
  by (induction p ts rule: track_remove.induct) (auto split: prod.splits)

lemma set_track_add: "set (used_entries (track_add p n ts)) =
    (if \<exists>t\<in>set ts. \<not> tb_in_use t then insert (p, n) (set (used_entries ts)) else set (used_entries ts))"
  by (induction p n ts rule: track_add.induct) auto

lemma distinct_track_add:
  "distinct (map fst (used_entries ts)) \<Longrightarrow> p \<notin> fst ` set (used_entries ts) \<Longrightarrow>
   distinct (map fst (used_entries (track_add p n ts)))"
proof (induction p n ts rule: track_add.induct)
  case (2 p n t ts)
  then show ?case
    using set_track_add [of p n ts] by (force split: if_splits)
qed simp

lemma fst_track_remove: "fst (track_remove p ts) = track_validate p ts"
  by (induction p ts rule: track_remove.induct) (auto split: prod.splits)

lemma used_entries_track_remove:
  "distinct (map fst (used_entries ts)) \<Longrightarrow>
   used_entries (snd (track_remove p ts)) = filter (\<lambda>e. fst e \<noteq> p) (used_entries ts)"
proof (induction p ts rule: track_remove.induct)
  case (2 p t ts)
  have "filter (\<lambda>e. fst e \<noteq> tb_ptr t) (used_entries ts) = used_entries ts" if "tb_in_use t"
    using "2.prems" that by (auto simp: filter_id_conv image_iff)
  then show ?case
    using 2 by (auto split: prod.splits if_splits)
qed simp

end
