(* ===== verification/Mm_Heap.thy ===== *)
theory Mm_Heap
  imports Mm_Chain
begin

text \<open>
  The heap invariant and the correctness of the allocator: every operation of \<^verbatim>\<open>mm.c\<close> refines an
  operation on the list of blocks, ends, and keeps the invariant. The locale \<open>allocator\<close> is the
  contract the callers of \<open>kmalloc\<close> and \<open>kfree\<close> rely on.
\<close>

section \<open>The heap invariant\<close>

text \<open>
  A state represents the list of blocks \<open>bs\<close>: its memory holds exactly that chain of headers, and
  every entry of the tracking table that is in use names a live block, no block twice.
\<close>

abbreviation heap_base :: "mm_state \<Rightarrow> nat" where
  "heap_base s \<equiv> unat (heap_start s)"

definition tracked_ok :: "tracked_block list \<Rightarrow> (nat \<times> nat) set \<Rightarrow> bool" where
  "tracked_ok ts L \<longleftrightarrow> distinct (map fst (used_entries ts))
     \<and> (\<forall>(p, n) \<in> set (used_entries ts). (unat p, unat n) \<in> L)"

definition heap_inv :: "mm_state \<Rightarrow> blocks \<Rightarrow> bool" where
  "heap_inv s bs \<longleftrightarrow> heap_wf s bs \<and> bs \<noteq> [] \<and> length (tracked_blocks s) = MAX_TRACKED_BLOCKS
     \<and> tracked_ok (tracked_blocks s) (live (heap_base s) bs)"

lemma tracked_ok_mono: "tracked_ok ts L \<Longrightarrow> L \<subseteq> L' \<Longrightarrow> tracked_ok ts L'"
  by (auto simp: tracked_ok_def)

lemma tracked_ok_add:
  assumes "tracked_ok ts L" "(unat p, unat n) \<in> L" "p \<notin> fst ` set (used_entries ts)"
  shows "tracked_ok (track_add p n ts) L"
  using assms distinct_track_add by (auto simp: tracked_ok_def set_track_add)

lemma tracked_ok_remove:
  assumes "tracked_ok ts L"
  shows "tracked_ok (snd (track_remove p ts)) {(q, n) \<in> L. q \<noteq> unat p}"
  using assms by (auto simp: tracked_ok_def used_entries_track_remove distinct_map_filter
      word_unat_eq_iff)

lemma live_decomp:
  "(p, n) \<in> live a bs \<Longrightarrow> \<exists>xs ys. bs = xs @ (n, True) # ys \<and> p = a + extent xs + 12"
proof (induction bs arbitrary: a)
  case (Cons b bs)
  obtain k u where b: "b = (k, u)" by fastforce
  show ?case
  proof (cases "(p, n) \<in> live (a + 12 + k) bs")
    case True
    then obtain xs ys where "bs = xs @ (n, True) # ys" "p = a + 12 + k + extent xs + 12"
      using Cons.IH by blast
    then show ?thesis using b by (intro exI [of _ "b # xs"] exI [of _ ys]) simp
  next
    case False
    then show ?thesis using Cons.prems b by (intro exI [of _ "[]"] exI [of _ bs]) (auto split: if_splits)
  qed
qed simp

lemma live_free_slot: "(p, n) \<in> live a (xs @ (k, False) # ys) \<Longrightarrow> p \<noteq> a + extent xs + 12"
  by (auto dest!: live_bounds)

lemma live_set_free:
  "live a (xs @ (n, False) # ys) = {(q, k) \<in> live a (xs @ (n, True) # ys). q \<noteq> a + extent xs + 12}"
  by (auto dest: live_bounds)

lemma ALIGN8_mask: "ALIGN8 x = (x + 7) AND NOT (mask 3)"
  by (simp add: ALIGN8_def mask_eq_exp_minus_1)

lemma ALIGN8_no_wrap:
  assumes "unat x + 7 < 2 ^ 32"
  shows "unat (ALIGN8 x) = 8 * ((unat x + 7) div 8)"
proof -
  have "unat (x + 7) = unat x + 7"
    using assms by (simp add: unat_word_ariths)
  then show ?thesis
    by (simp add: ALIGN8_mask unat_align_down minus_mod_eq_mult_div)
qed

lemma mm_init_inv_aux:
  assumes "length (tracked_blocks s) = MAX_TRACKED_BLOCKS"
    and "unat (ALIGN8 start) + unat sz < 2 ^ 32" "12 \<le> unat sz"
  shows "heap_inv (mm_init start sz s) [(unat sz - 12, False)]"
    and "used_entries (tracked_blocks (mm_init start sz s)) = []"
proof -
  define t where "t = s\<lparr>heap_start := ALIGN8 start, heap_end := ALIGN8 start + sz,
    tracked_blocks := map (\<lambda>t. t\<lparr>tb_in_use := False\<rparr>) (tracked_blocks s)\<rparr>"
  have init: "mm_init start sz s = write_header (ALIGN8 start) (sz - 12) BLOCK_FREE t"
    by (simp add: mm_init_def Let_def write_header_def t_def first_block_def sizeof_block_header_def
        set_hdr_size_def set_hdr_magic_def set_hdr_used_def)
  have none: "used_entries (map (\<lambda>t. t\<lparr>tb_in_use := False\<rparr>) ts) = []" for ts
    by (induction ts) auto
  then show "used_entries (tracked_blocks (mm_init start sz s)) = []"
    by (simp add: init t_def)
  have "unat (ALIGN8 start + sz) = unat (ALIGN8 start) + unat sz"
    using assms(2) by (simp add: unat_word_ariths)
  moreover have "sz - 12 = word_of_nat (unat sz - 12)"
    using assms(3) by simp
  ultimately show "heap_inv (mm_init start sz s) [(unat sz - 12, False)]"
    using assms none by (simp add: heap_inv_def heap_wf_def init t_def tracked_ok_def)
qed

lemma heap_invD:
  assumes "heap_inv s bs"
  shows "heap_wf s bs" "bs \<noteq> []" "length (tracked_blocks s) = MAX_TRACKED_BLOCKS"
    "tracked_ok (tracked_blocks s) (live (heap_base s) bs)"
  using assms by (auto simp: heap_inv_def)

lemma heap_wf_tracked [simp]: "heap_wf (s\<lparr>tracked_blocks := ts\<rparr>) bs = heap_wf s bs"
  by (simp add: heap_wf_def)

lemma hd_carve: "fst (hd (carve w n)) = (if n - w \<le> 28 then n else w)"
  by (simp add: carve_def)

lemma live_carve:
  assumes "w \<le> n"
  shows "live a (xs @ carve w n @ ys) = insert (a + extent xs + 12, fst (hd (carve w n)))
    (live a (xs @ (n, False) # ys))"
  using assms by (auto simp: carve_def algebra_simps)

lemma kmalloc_refines_aux:
  assumes inv: "heap_inv s bs" and fit: "first_fit (unat (ALIGN8 sz)) bs = Some (xs, n, ys)" and "sz \<noteq> 0"
  shows "\<exists>s' p. kmalloc sz s = Some (s', p) \<and> unat p = heap_base s + extent xs + 12
    \<and> heap_inv s' (xs @ carve (unat (ALIGN8 sz)) n @ ys)
    \<and> heap_start s' = heap_start s \<and> heap_end s' = heap_end s
    \<and> tracked_blocks s' = track_add p (word_of_nat (fst (hd (carve (unat (ALIGN8 sz)) n)))) (tracked_blocks s)
    \<and> (\<forall>x. unat x < heap_base s + extent xs \<or> heap_base s + extent xs + 12 + n \<le> unat x
         \<longrightarrow> mem s' x = mem s x)"
proof -
  let ?w = "ALIGN8 sz"
  let ?k = "fst (hd (carve (unat ?w) n))"
  have bs: "bs = xs @ (n, False) # ys" and w: "unat ?w \<le> n" using first_fit_Some [OF fit] by auto
  note d = heap_invD [OF inv]
  have wf: "heap_wf s (xs @ (n, False) # ys)" using d(1) bs by simp
  have a: "unat (block_addr s xs) = heap_base s + extent xs" by (rule unat_block_addr [OF wf])
  have "kmalloc sz s = kmalloc_loop s ?w (block_addr s [])"
    using assms(3) by (simp add: kmalloc_def first_block_def)
  then have loop: "kmalloc sz s = kmalloc_loop s ?w (block_addr s xs)"
    using kmalloc_loop_search [of s "[]" bs ?w] d(1,2) fit by simp
  define p where "p = block_addr s xs + 12"
  obtain t where t: "kmalloc_loop s ?w (block_addr s xs) = Some (t\<lparr>tracked_blocks :=
        track_add p (word_of_nat ?k) (tracked_blocks s)\<rparr>, p)"
      "heap_wf t (xs @ carve (unat ?w) n @ ys)" "heap_start t = heap_start s" "heap_end t = heap_end s"
      "\<forall>x. unat x < unat (block_addr s xs) \<or> unat (block_addr s xs) + 12 + n \<le> unat x \<longrightarrow> mem t x = mem s x"
    using kmalloc_loop_fit [OF wf w] unfolding p_def by blast
  have up: "unat p = heap_base s + extent xs + 12"
    using a heap_wf_block(6) [OF wf] u32_bound [of "heap_end s"] by (simp add: p_def unat_word_ariths)
  have uk: "unat (word_of_nat ?k :: u32) = ?k"
    using heap_wf_block(4) [OF wf] w u32_bound [of ?w] by (simp add: hd_carve unat_of_nat)
  have fresh: "p \<notin> fst ` set (used_entries (tracked_blocks s))"
    using d(4) up bs by (auto simp: tracked_ok_def dest!: bspec live_bounds)
  have "tracked_ok (track_add p (word_of_nat ?k) (tracked_blocks s))
      (live (heap_base s) (xs @ carve (unat ?w) n @ ys))"
    by (rule tracked_ok_add [OF tracked_ok_mono [OF d(4)] _ fresh])
      (use live_carve [OF w, of "heap_base s" xs ys] bs up uk in auto)
  then have "heap_inv (t\<lparr>tracked_blocks := track_add p (word_of_nat ?k) (tracked_blocks s)\<rparr>)
      (xs @ carve (unat ?w) n @ ys)"
    using t(2,3) d(3) by (simp add: heap_inv_def) (simp add: carve_def)
  then show ?thesis using loop t up a by auto
qed

section \<open>Release\<close>

lemma tracked_pointer:
  assumes inv: "heap_inv s bs" and tr: "track_validate p (tracked_blocks s)"
  obtains xs n ys where "bs = xs @ (n, True) # ys" "unat p = heap_base s + extent xs + 12"
    "p = block_addr s xs + 12" "unat (block_addr s xs) + 12 \<le> 2 ^ 32"
proof -
  note d = heap_invD [OF inv]
  obtain k where k: "(p, k) \<in> set (used_entries (tracked_blocks s))"
    using tr by (auto simp: track_validate_iff)
  then have "(unat p, unat k) \<in> live (heap_base s) bs" using d(4) by (auto simp: tracked_ok_def)
  then obtain xs n ys where bs: "bs = xs @ (n, True) # ys" and up: "unat p = heap_base s + extent xs + 12"
    using live_decomp by metis
  have wf: "heap_wf s (xs @ (n, True) # ys)" using d(1) bs by simp
  have lim: "unat (block_addr s xs) + 12 < 2 ^ 32"
    using heap_wf_block(6) [OF wf] u32_bound [of "heap_end s"] by linarith
  then have "p = block_addr s xs + 12"
    using unat_block_addr [OF wf] up by (simp add: word_unat_eq_iff unat_word_ariths)
  with bs up lim show thesis by (intro that) auto
qed

text \<open>Releasing a tracked block: its header is marked free and the free blocks are merged.\<close>

lemma free_and_coalesce:
  assumes wf: "heap_wf s (xs @ (n, True) # ys)"
  shows "\<exists>s'. coalesce_free_blocks (set_hdr_used (block_addr s xs) BLOCK_FREE s) = Some s'
    \<and> heap_wf s' (coalesce (xs @ (n, False) # ys)) \<and> heap_start s' = heap_start s
    \<and> heap_end s' = heap_end s \<and> tracked_blocks s' = tracked_blocks s
    \<and> (\<forall>x. unat x \<notin> header_cells (heap_base s) (xs @ (n, True) # ys) \<longrightarrow> mem s' x = mem s x)"
proof -
  define t where "t = set_hdr_used (block_addr s xs) BLOCK_FREE s"
  have lim: "unat (block_addr s xs) + 12 \<le> 2 ^ 32"
    using heap_wf_block(6) [OF wf] u32_bound [of "heap_end s"] by linarith
  have "heap_wf t (xs @ (n, False) # ys)"
    using heap_wf_set_used [OF wf, of False] by (simp add: t_def)
  then obtain s' where s': "coalesce_loop t (block_addr t []) = Some s'"
      "heap_wf s' (coalesce (xs @ (n, False) # ys))" "heap_start s' = heap_start t"
      "heap_end s' = heap_end t" "tracked_blocks s' = tracked_blocks t"
      "\<forall>x. unat x \<notin> header_cells (heap_base t) (xs @ (n, False) # ys) \<longrightarrow> mem s' x = mem t x"
    using coalesce_loop_refines [of t "[]" "xs @ (n, False) # ys"] by auto
  have "mem t x = mem s x" if "unat x \<notin> header_cells (heap_base s) (xs @ (n, True) # ys)" for x
    using that unat_block_addr [OF wf] lim unfolding t_def by (intro set_hdr_outside) auto
  then show ?thesis
    using s' by (auto simp: coalesce_free_blocks_def first_block_def t_def)
qed

lemma kfree_refines_aux:
  assumes inv: "heap_inv s bs" and tr: "track_validate p (tracked_blocks s)"
  shows "\<exists>s' xs n ys. kfree p s = Some (s', 1) \<and> bs = xs @ (n, True) # ys
    \<and> unat p = heap_base s + extent xs + 12
    \<and> heap_inv s' (coalesce (xs @ (n, False) # ys))
    \<and> heap_start s' = heap_start s \<and> heap_end s' = heap_end s
    \<and> tracked_blocks s' = snd (track_remove p (tracked_blocks s))
    \<and> (\<forall>x. unat x \<notin> header_cells (heap_base s) bs \<longrightarrow> mem s' x = mem s x)"
proof -
  note d = heap_invD [OF inv]
  obtain xs n ys where bs: "bs = xs @ (n, True) # ys" and up: "unat p = heap_base s + extent xs + 12"
    and p: "p = block_addr s xs + 12"
    by (rule tracked_pointer [OF inv tr]) blast
  define ts where "ts = snd (track_remove p (tracked_blocks s))"
  have wf: "heap_wf s (xs @ (n, True) # ys)" using d(1) bs by simp
  then have wf': "heap_wf (s\<lparr>tracked_blocks := ts\<rparr>) (xs @ (n, True) # ys)" by simp
  obtain s' where s': "coalesce_free_blocks (set_hdr_used (block_addr s xs) BLOCK_FREE
        (s\<lparr>tracked_blocks := ts\<rparr>)) = Some s'" "heap_wf s' (coalesce (xs @ (n, False) # ys))"
      "heap_start s' = heap_start s" "heap_end s' = heap_end s" "tracked_blocks s' = ts"
      "\<forall>x. unat x \<notin> header_cells (heap_base s) bs \<longrightarrow> mem s' x = mem s x"
    using free_and_coalesce [OF wf'] bs by auto
  have "p \<noteq> 0" using up by auto
  moreover have "fst (track_remove p (tracked_blocks s))" using tr by (simp add: fst_track_remove)
  ultimately have free: "kfree p s = Some (s', 1)"
    using tr p heap_wf_block(2) [OF wf] s'(1)
    by (simp add: kfree_def case_prod_unfold Let_def sizeof_block_header_def ts_def)
  have "tracked_ok ts (live (heap_base s) (coalesce (xs @ (n, False) # ys)))"
    unfolding ts_def live_coalesce live_set_free using tracked_ok_remove [OF d(4), of p] bs up by simp
  then have "heap_inv s' (coalesce (xs @ (n, False) # ys))"
    using s' d(3) by (simp add: heap_inv_def ts_def)
  then show ?thesis using free bs up s' by (auto simp: ts_def)
qed

section \<open>Accounting\<close>

definition bytes_of :: "bool \<Rightarrow> blocks \<Rightarrow> nat" where
  "bytes_of u bs = sum_list (map fst (filter (\<lambda>b. snd b = u) bs))"

lemma bytes_of_simps [simp]:
  "bytes_of v [] = 0" "bytes_of v ((n, u) # bs) = (if u = v then n else 0) + bytes_of v bs"
  "bytes_of v (xs @ ys) = bytes_of v xs + bytes_of v ys"
  by (auto simp: bytes_of_def)

lemma bytes_of_extent: "bytes_of True bs + bytes_of False bs + 12 * length bs = extent bs"
  by (induction bs) auto

lemma sum_loop_refines:
  assumes "heap_wf s (xs @ ys)" "ys \<noteq> []" "flag = (if v then BLOCK_USED else BLOCK_FREE)"
  shows "sum_loop flag s (block_addr s xs) acc = Some (acc + word_of_nat (bytes_of v ys))"
  using assms(1,2)
proof (induction ys arbitrary: xs acc)
  case (Cons b ys)
  obtain n u where b: "b = (n, u)" by fastforce
  have wf: "heap_wf s (xs @ (n, u) # ys)" using Cons.prems b by simp
  note blk = heap_wf_block [OF wf]
  have flag: "(if u then BLOCK_USED else BLOCK_FREE) = flag \<longleftrightarrow> u = v"
    using assms(3) by (auto simp: BLOCK_USED_def BLOCK_FREE_def)
  have pos: "ys \<noteq> [] \<Longrightarrow> block_addr s (xs @ [(n, u)]) \<noteq> 0"
    by (rule block_addr_pos [of _ _ ys]) (use wf in auto)
  show ?case
  proof (cases "ys = []")
    case True
    then show ?thesis using blk(1,2,3,5) flag b by (subst sum_loop.simps) (auto simp: Let_def)
  next
    case False
    have "sum_loop flag s (block_addr s xs) acc = sum_loop flag s (block_addr s (xs @ [(n, u)]))
        (if u = v then acc + word_of_nat n else acc)"
      using blk(1,2,3) flag pos False blk(5) by (subst sum_loop.simps) (simp only: Let_def, simp)
    also have "\<dots> = Some ((if u = v then acc + word_of_nat n else acc) + word_of_nat (bytes_of v ys))"
      using wf False by (intro Cons.IH) auto
    finally show ?thesis using b by simp
  qed
qed simp

section \<open>Abstract operations\<close>

text \<open>Allocation and release on the list of blocks, for a heap that starts at address \<open>base\<close>.\<close>

definition alloc_spec :: "nat \<Rightarrow> nat \<Rightarrow> blocks \<Rightarrow> (nat \<times> blocks) option" where
  "alloc_spec base w bs = (case first_fit w bs of None \<Rightarrow> None
     | Some (xs, n, ys) \<Rightarrow> Some (base + extent xs + 12, xs @ carve w n @ ys))"

fun mark_free :: "nat \<Rightarrow> nat \<Rightarrow> blocks \<Rightarrow> blocks" where
  "mark_free a p [] = []"
| "mark_free a p ((n, u) # bs) = (if a + 12 = p then (n, False) # bs else (n, u) # mark_free (a + 12 + n) p bs)"

definition free_spec :: "nat \<Rightarrow> nat \<Rightarrow> blocks \<Rightarrow> blocks" where
  "free_spec base p bs = coalesce (mark_free base p bs)"

lemma mark_free_at: "mark_free a (a + extent xs + 12) (xs @ (n, u) # ys) = xs @ (n, False) # ys"
proof (induction xs arbitrary: a)
  case (Cons b xs)
  have "a + extent (b # xs) + 12 = a + 12 + fst b + extent xs + 12" by simp
  then show ?case using Cons.IH [of "a + 12 + fst b"] by (cases b) simp
qed simp

lemma live_mark_free: "live a (mark_free a p bs) = {(q, k) \<in> live a bs. q \<noteq> p}"
proof (induction a p bs rule: mark_free.induct)
  case (2 a p n u bs)
  then show ?case by (auto dest: live_bounds split: if_splits)
qed simp

lemma live_free_spec: "live a (free_spec a p bs) = {(q, k) \<in> live a bs. q \<noteq> p}"
  by (simp add: free_spec_def live_mark_free)

lemma alloc_spec_live:
  assumes "alloc_spec base w bs = Some (p, bs')"
  obtains k where "w \<le> k" "live base bs' = insert (p, k) (live base bs)" "\<And>j. (p, j) \<notin> live base bs"
    "extent bs' = extent bs" "base + 12 \<le> p" "p + k \<le> base + extent bs"
proof -
  obtain xs n ys where f: "first_fit w bs = Some (xs, n, ys)" "p = base + extent xs + 12"
    "bs' = xs @ carve w n @ ys"
    using assms by (auto simp: alloc_spec_def split: option.splits)
  then have bs: "bs = xs @ (n, False) # ys" "w \<le> n" using first_fit_Some by auto
  have "extent bs' = extent bs" using f(3) bs extent_carve [OF bs(2)] by simp
  moreover have "live base bs' = insert (p, fst (hd (carve w n))) (live base bs)"
    using live_carve [OF bs(2)] f bs(1) by simp
  moreover have "w \<le> fst (hd (carve w n))" "fst (hd (carve w n)) \<le> n" using bs(2) by (auto simp: hd_carve)
  moreover have "(p, j) \<notin> live base bs" for j using live_free_slot f(2) bs(1) by blast
  ultimately show thesis using that [of "fst (hd (carve w n))"] f(2) bs(1) by auto
qed

lemma kmalloc_spec:
  assumes "heap_inv s bs" "sz \<noteq> 0"
  shows "case alloc_spec (unat (heap_start s)) (unat (ALIGN8 sz)) bs of
      None \<Rightarrow> kmalloc sz s = Some (s, 0)
    | Some (p, bs') \<Rightarrow> \<exists>s'. kmalloc sz s = Some (s', word_of_nat p) \<and> heap_inv s' bs'
        \<and> heap_start s' = heap_start s \<and> heap_end s' = heap_end s
        \<and> (\<forall>(q, k) \<in> live (unat (heap_start s)) bs. \<forall>x. q \<le> unat x \<and> unat x < q + k \<longrightarrow> mem s' x = mem s x)"
proof (cases "first_fit (unat (ALIGN8 sz)) bs")
  case None
  then have "kmalloc sz s = Some (s, 0)"
    using kmalloc_loop_search [of s "[]" bs "ALIGN8 sz"] assms heap_invD [OF assms(1)]
    by (simp add: kmalloc_def first_block_def)
  with None show ?thesis by (simp add: alloc_spec_def)
next
  case (Some r)
  then obtain xs n ys where f: "first_fit (unat (ALIGN8 sz)) bs = Some (xs, n, ys)" by (cases r) auto
  note bs = first_fit_Some [OF f, THEN conjunct1]
  obtain s' p where k: "kmalloc sz s = Some (s', p)" "unat p = heap_base s + extent xs + 12"
      "heap_inv s' (xs @ carve (unat (ALIGN8 sz)) n @ ys)" "heap_start s' = heap_start s"
      "heap_end s' = heap_end s"
      "\<forall>x. unat x < heap_base s + extent xs \<or> heap_base s + extent xs + 12 + n \<le> unat x
         \<longrightarrow> mem s' x = mem s x"
    using kmalloc_refines_aux [OF assms(1) f assms(2)] by auto
  have frame: "mem s' x = mem s x" if "(q, j) \<in> live (heap_base s) bs" "q \<le> unat x" "unat x < q + j" for q j x
    using that k(6) bs by (auto dest!: live_bounds)
  have "p = word_of_nat (heap_base s + extent xs + 12)" by (simp flip: k(2))
  with f k frame show ?thesis by (auto simp: alloc_spec_def)
qed

lemma kfree_spec:
  assumes "heap_inv s bs"
  shows "if track_validate p (tracked_blocks s)
    then \<exists>s'. kfree p s = Some (s', 1) \<and> heap_inv s' (free_spec (heap_base s) (unat p) bs)
      \<and> heap_start s' = heap_start s \<and> heap_end s' = heap_end s
      \<and> tracked_blocks s' = snd (track_remove p (tracked_blocks s))
      \<and> (\<forall>x. unat x \<notin> header_cells (heap_base s) bs \<longrightarrow> mem s' x = mem s x)
    else kfree p s = Some (s, 0)"
proof (cases "track_validate p (tracked_blocks s)")
  case True
  obtain s' xs n ys where k: "kfree p s = Some (s', 1)" "bs = xs @ (n, True) # ys"
      "unat p = heap_base s + extent xs + 12" "heap_inv s' (coalesce (xs @ (n, False) # ys))"
      "heap_start s' = heap_start s" "heap_end s' = heap_end s"
      "tracked_blocks s' = snd (track_remove p (tracked_blocks s))"
      "\<forall>x. unat x \<notin> header_cells (heap_base s) bs \<longrightarrow> mem s' x = mem s x"
    using kfree_refines_aux [OF assms True] by auto
  have "free_spec (heap_base s) (unat p) bs = coalesce (xs @ (n, False) # ys)"
    by (simp add: free_spec_def k(2,3) mark_free_at)
  with k True show ?thesis by auto
next
  case False
  then show ?thesis by (simp add: kfree_def)
qed

section \<open>The allocator as an interface\<close>

text \<open>
  What the callers of the heap (system calls, page tables, the shell's heap test) rely on:
  allocations end, a null result changes nothing, a result names a fresh region of at least the
  requested size, live regions never overlap and allocating leaves their bytes alone. Requests of
  more than \<open>2 ^ 32 - 8\<close> bytes are outside the contract, since rounding them up wraps around.
\<close>

primrec run_allocs :: "(u32 \<Rightarrow> 's \<Rightarrow> ('s \<times> u32) option) \<Rightarrow> u32 list \<Rightarrow> 's \<Rightarrow> ('s \<times> u32 list) option" where
  "run_allocs alloc [] s = Some (s, [])"
| "run_allocs alloc (n # ns) s = (case alloc n s of None \<Rightarrow> None
     | Some (s', p) \<Rightarrow> map_option (\<lambda>(t, ps). (t, p # ps)) (run_allocs alloc ns s'))"

definition apart :: "nat \<times> nat \<Rightarrow> nat \<times> nat \<Rightarrow> bool" where
  "apart r q \<longleftrightarrow> fst r + snd r \<le> fst q \<or> fst q + snd q \<le> fst r"

locale allocator =
  fixes alloc :: "u32 \<Rightarrow> 's \<Rightarrow> ('s \<times> u32) option"
    and rep :: "'s \<Rightarrow> 'b \<Rightarrow> bool"
    and regions :: "'s \<Rightarrow> 'b \<Rightarrow> (nat \<times> nat) set"
    and byte :: "'s \<Rightarrow> u32 \<Rightarrow> u8"
  assumes alloc_returns: "rep s b \<Longrightarrow> \<exists>s' p. alloc n s = Some (s', p)"
    and alloc_null: "rep s b \<Longrightarrow> alloc n s = Some (s', 0) \<Longrightarrow> s' = s"
    and alloc_region: "rep s b \<Longrightarrow> alloc n s = Some (s', p) \<Longrightarrow> p \<noteq> 0 \<Longrightarrow> unat n + 7 < 2 ^ 32 \<Longrightarrow>
      \<exists>b' k. rep s' b' \<and> unat n \<le> k \<and> regions s' b' = insert (unat p, k) (regions s b)
        \<and> (\<forall>j. (unat p, j) \<notin> regions s b)"
    and alloc_frame: "rep s b \<Longrightarrow> alloc n s = Some (s', p) \<Longrightarrow> (q, k) \<in> regions s b \<Longrightarrow>
      q \<le> unat x \<Longrightarrow> unat x < q + k \<Longrightarrow> byte s' x = byte s x"
    and regions_apart: "rep s b \<Longrightarrow> r \<in> regions s b \<Longrightarrow> r' \<in> regions s b \<Longrightarrow> r \<noteq> r' \<Longrightarrow> apart r r'"
begin

lemma alloc_step:
  assumes "rep s b" "unat n + 7 < 2 ^ 32"
  obtains s' p b' where "alloc n s = Some (s', p)" "rep s' b'" "regions s b \<subseteq> regions s' b'"
    "p \<noteq> 0 \<Longrightarrow> \<exists>k\<ge>unat n. (unat p, k) \<in> regions s' b' \<and> (\<forall>j. (unat p, j) \<notin> regions s b)"
proof -
  obtain s' p where a: "alloc n s = Some (s', p)" using alloc_returns [OF assms(1)] by blast
  show thesis
  proof (cases "p = 0")
    case True
    then show thesis using a alloc_null [OF assms(1)] assms(1) that by blast
  next
    case False
    obtain b' k where "rep s' b'" "unat n \<le> k" "regions s' b' = insert (unat p, k) (regions s b)"
      "\<forall>j. (unat p, j) \<notin> regions s b"
      using alloc_region [OF assms(1) a False assms(2)] by blast
    then show thesis by (intro that [OF a, of b']) auto
  qed
qed

text \<open>
  A run of allocations ends; the regions it returns are all live afterwards, distinct from each
  other and from the regions that were live before.
\<close>

lemma run_allocs_regions:
  assumes "rep s b" "\<forall>n\<in>set ns. unat n + 7 < 2 ^ 32"
  shows "\<exists>s' ps b' rs. run_allocs alloc ns s = Some (s', ps) \<and> rep s' b' \<and> length ps = length ns
    \<and> regions s b \<subseteq> regions s' b' \<and> length rs = length ns
    \<and> (\<forall>i<length ns. ps ! i \<noteq> 0 \<longrightarrow> rs ! i \<in> regions s' b' \<and> rs ! i \<notin> regions s b
         \<and> fst (rs ! i) = unat (ps ! i) \<and> unat (ns ! i) \<le> snd (rs ! i))
    \<and> (\<forall>i<length ns. \<forall>j<i. ps ! i \<noteq> 0 \<longrightarrow> ps ! j \<noteq> 0 \<longrightarrow> rs ! i \<noteq> rs ! j)"
  using assms
proof (induction ns arbitrary: s b)
  case Nil
  then show ?case by auto
next
  case (Cons n ns)
  obtain s1 p b1 where a: "alloc n s = Some (s1, p)" "rep s1 b1" "regions s b \<subseteq> regions s1 b1"
    "p \<noteq> 0 \<Longrightarrow> \<exists>k\<ge>unat n. (unat p, k) \<in> regions s1 b1 \<and> (\<forall>j. (unat p, j) \<notin> regions s b)"
    using alloc_step [of s b n] Cons.prems by auto
  obtain k where k: "p \<noteq> 0 \<Longrightarrow> unat n \<le> k \<and> (unat p, k) \<in> regions s1 b1 \<and> (unat p, k) \<notin> regions s b"
    using a(4) by blast
  obtain s' ps b' rs where r: "run_allocs alloc ns s1 = Some (s', ps)" "rep s' b'" "length ps = length ns"
    "regions s1 b1 \<subseteq> regions s' b'" "length rs = length ns"
    "\<forall>i<length ns. ps ! i \<noteq> 0 \<longrightarrow> rs ! i \<in> regions s' b' \<and> rs ! i \<notin> regions s1 b1
         \<and> fst (rs ! i) = unat (ps ! i) \<and> unat (ns ! i) \<le> snd (rs ! i)"
    "\<forall>i<length ns. \<forall>j<i. ps ! i \<noteq> 0 \<longrightarrow> ps ! j \<noteq> 0 \<longrightarrow> rs ! i \<noteq> rs ! j"
    using Cons.IH [OF a(2)] Cons.prems(2) by auto
  show ?case
    by (rule exI [of _ s'], rule exI [of _ "p # ps"], rule exI [of _ b'], rule exI [of _ "(unat p, k) # rs"])
      (use a r k in \<open>auto simp: nth_Cons split: nat.splits\<close>)
qed

lemma run_allocs_apart:
  assumes "rep s b" "\<forall>n\<in>set ns. unat n + 7 < 2 ^ 32"
  shows "\<exists>s' ps. run_allocs alloc ns s = Some (s', ps) \<and> length ps = length ns
    \<and> (\<forall>i<length ns. \<forall>j<i. ps ! i \<noteq> 0 \<longrightarrow> ps ! j \<noteq> 0 \<longrightarrow>
         apart (unat (ps ! i), unat (ns ! i)) (unat (ps ! j), unat (ns ! j)))"
proof -
  obtain s' ps b' rs where r: "run_allocs alloc ns s = Some (s', ps)" "rep s' b'" "length ps = length ns"
    "\<forall>i<length ns. ps ! i \<noteq> 0 \<longrightarrow> rs ! i \<in> regions s' b' \<and> rs ! i \<notin> regions s b
         \<and> fst (rs ! i) = unat (ps ! i) \<and> unat (ns ! i) \<le> snd (rs ! i)"
    "\<forall>i<length ns. \<forall>j<i. ps ! i \<noteq> 0 \<longrightarrow> ps ! j \<noteq> 0 \<longrightarrow> rs ! i \<noteq> rs ! j"
    using run_allocs_regions [OF assms] by blast
  have "apart (unat (ps ! i), unat (ns ! i)) (unat (ps ! j), unat (ns ! j))"
    if "i < length ns" "j < i" "ps ! i \<noteq> 0" "ps ! j \<noteq> 0" for i j
  proof -
    have "apart (rs ! i) (rs ! j)"
      using r(4,5) that by (intro regions_apart [OF r(2)]) auto
    moreover have "fst (rs ! i) = unat (ps ! i)" "unat (ns ! i) \<le> snd (rs ! i)"
      "fst (rs ! j) = unat (ps ! j)" "unat (ns ! j) \<le> snd (rs ! j)"
      using r(4) that by auto
    ultimately show ?thesis by (auto simp: apart_def)
  qed
  then show ?thesis using r(1,3) by blast
qed

end

interpretation kheap: allocator kmalloc heap_inv "\<lambda>s. live (unat (heap_start s))" mem
proof unfold_locales
  fix s bs n
  assume inv: "heap_inv s bs"
  show "\<exists>s' p. kmalloc n s = Some (s', p)"
    using kmalloc_spec [OF inv, of n]
    by (cases "n = 0") (auto simp: kmalloc_def split: option.splits)
next
  fix s bs n s'
  assume inv: "heap_inv s bs" and a: "kmalloc n s = Some (s', 0)"
  show "s' = s"
  proof (cases "alloc_spec (heap_base s) (unat (ALIGN8 n)) bs")
    case None
    then show ?thesis using kmalloc_spec [OF inv, of n] a by (cases "n = 0") (auto simp: kmalloc_def)
  next
    case (Some r)
    then obtain p bs' where r: "alloc_spec (heap_base s) (unat (ALIGN8 n)) bs = Some (p, bs')"
      by (cases r) auto
    obtain k where "heap_base s + 12 \<le> p" "p + k \<le> heap_base s + extent bs"
      by (rule alloc_spec_live [OF r])
    then have "p < 2 ^ 32" "0 < p"
      using heap_invD(1) [OF inv] u32_bound [of "heap_end s"] by (auto simp: heap_wf_def)
    then have "(word_of_nat p :: u32) \<noteq> 0"
      using unat_of_nat_u32 [of p] by auto
    then show ?thesis using kmalloc_spec [OF inv, of n] a r by (cases "n = 0") (auto simp: kmalloc_def)
  qed
next
  fix s bs n s' p
  assume inv: "heap_inv s bs" and a: "kmalloc n s = Some (s', p)" and p: "p \<noteq> 0"
    and n: "unat n + 7 < 2 ^ 32"
  have nz: "n \<noteq> 0" using a p by (auto simp: kmalloc_def)
  obtain q bs' where r: "alloc_spec (heap_base s) (unat (ALIGN8 n)) bs = Some (q, bs')"
    using kmalloc_spec [OF inv nz] a p by (cases "alloc_spec (heap_base s) (unat (ALIGN8 n)) bs") auto
  obtain k where k: "unat (ALIGN8 n) \<le> k" "live (heap_base s) bs' = insert (q, k) (live (heap_base s) bs)"
      "\<And>j. (q, j) \<notin> live (heap_base s) bs" "heap_base s + 12 \<le> q" "q + k \<le> heap_base s + extent bs"
    using alloc_spec_live [OF r] by metis
  have "unat (heap_start s) + extent bs < 2 ^ 32"
    using heap_invD(1) [OF inv] u32_bound [of "heap_end s"] by (simp add: heap_wf_def)
  then have q: "unat (word_of_nat q :: u32) = q" using k(5) by (simp add: unat_of_nat)
  have "unat n \<le> k" using ALIGN8_no_wrap [OF n] k(1) by linarith
  with k q r kmalloc_spec [OF inv nz] a show "\<exists>b' k. heap_inv s' b' \<and> unat n \<le> k
      \<and> live (heap_base s') b' = insert (unat p, k) (live (heap_base s) bs)
      \<and> (\<forall>j. (unat p, j) \<notin> live (heap_base s) bs)"
    by (intro exI [of _ bs'] exI [of _ k]) auto
next
  fix s bs n s' p q k and x :: u32
  assume inv: "heap_inv s bs" and a: "kmalloc n s = Some (s', p)" and l: "(q, k) \<in> live (heap_base s) bs"
    and x: "q \<le> unat x" "unat x < q + k"
  show "mem s' x = mem s x"
    using kmalloc_spec [OF inv, of n] a l x
    by (cases "n = 0"; cases "alloc_spec (heap_base s) (unat (ALIGN8 n)) bs") (auto simp: kmalloc_def)
next
  fix s bs r r'
  assume "heap_inv s bs" "r \<in> live (heap_base s) bs" "r' \<in> live (heap_base s) bs" "r \<noteq> r'"
  then show "apart r r'"
    using live_disjoint [of "fst r" "snd r" "heap_base s" bs "fst r'" "snd r'"]
    by (auto simp: apart_def prod_eq_iff)
qed

section \<open>Releasing everything\<close>

lemma used_entries_nth:
  "i < length ts \<Longrightarrow> tb_in_use (ts ! i) \<Longrightarrow> (tb_ptr (ts ! i), tb_size (ts ! i)) \<in> set (used_entries ts)"
  by (induction ts arbitrary: i) (auto simp: nth_Cons split: nat.splits)

lemma track_remove_nth:
  "distinct (map fst (used_entries ts)) \<Longrightarrow> i < length ts \<Longrightarrow> tb_in_use (ts ! i) \<Longrightarrow>
   track_remove (tb_ptr (ts ! i)) ts = (True, ts[i := (ts ! i)\<lparr>tb_in_use := False\<rparr>])"
proof (induction ts arbitrary: i)
  case (Cons t ts)
  show ?case
  proof (cases i)
    case 0
    then show ?thesis using Cons.prems by simp
  next
    case (Suc j)
    have "(tb_ptr (ts ! j), tb_size (ts ! j)) \<in> set (used_entries ts)"
      using Cons.prems Suc by (simp add: used_entries_nth)
    then have "\<not> (tb_in_use t \<and> tb_ptr t = tb_ptr (ts ! j))"
      using Cons.prems(1) by (force split: if_splits)
    moreover have "distinct (map fst (used_entries ts))" using Cons.prems(1) by (simp split: if_splits)
    ultimately show ?thesis using Cons.IH [of j] Cons.prems(2,3) Suc by auto
  qed
qed simp

lemma used_entries_append [simp]: "used_entries (xs @ ys) = used_entries xs @ used_entries ys"
  by (induction xs) auto

lemma used_entries_upd_length:
  "i < length ts \<Longrightarrow> tb_in_use (ts ! i) \<Longrightarrow>
   length (used_entries ts) = Suc (length (used_entries (ts[i := (ts ! i)\<lparr>tb_in_use := False\<rparr>])))
   \<and> set (used_entries ts) = insert (tb_ptr (ts ! i), tb_size (ts ! i))
       (set (used_entries (ts[i := (ts ! i)\<lparr>tb_in_use := False\<rparr>])))"
  by (induction ts arbitrary: i) (auto simp: nth_Cons split: nat.splits)

lemma no_adjacent_free_free_spec: "no_adjacent_free (free_spec a p bs)"
  by (simp add: free_spec_def no_adjacent_free_coalesce)

lemma kfree_all_loop_spec:
  assumes "heap_inv s bs" "no_adjacent_free bs" "used_entries (take i (tracked_blocks s)) = []"
  shows "\<exists>s' bs'. kfree_all_loop [i..<MAX_TRACKED_BLOCKS] s acc
        = Some (s', acc + int (length (used_entries (tracked_blocks s))))
    \<and> heap_inv s' bs' \<and> no_adjacent_free bs' \<and> used_entries (tracked_blocks s') = []
    \<and> heap_start s' = heap_start s \<and> heap_end s' = heap_end s
    \<and> live (heap_base s) bs' = {(q, k) \<in> live (heap_base s) bs. q \<notin> unat ` fst ` set (used_entries (tracked_blocks s))}"
  using assms
proof (induction "MAX_TRACKED_BLOCKS - i" arbitrary: i s bs acc)
  case 0
  then have "used_entries (tracked_blocks s) = []"
    using heap_invD(3) [OF "0.prems"(1)] by simp
  then show ?case using 0 by (intro exI [of _ s] exI [of _ bs]) auto
next
  case (Suc n)
  let ?ts = "tracked_blocks s"
  have i: "i < MAX_TRACKED_BLOCKS" using Suc.hyps(2) by simp
  then have len: "i < length ?ts" using heap_invD(3) [OF Suc.prems(1)] by simp
  have n: "n = MAX_TRACKED_BLOCKS - Suc i" using Suc.hyps(2) by simp
  have upt: "[i..<MAX_TRACKED_BLOCKS] = i # [Suc i..<MAX_TRACKED_BLOCKS]" using i by (simp add: upt_conv_Cons)
  show ?case
  proof (cases "tb_in_use (?ts ! i)")
    case False
    then have "used_entries (take (Suc i) ?ts) = []"
      using Suc.prems(3) len by (simp add: take_Suc_conv_app_nth)
    then show ?thesis using Suc.hyps(1) [of "Suc i" s bs acc] n Suc.prems False upt by simp
  next
    case True
    let ?ts' = "?ts[i := (?ts ! i)\<lparr>tb_in_use := False\<rparr>]"
    have "distinct (map fst (used_entries ?ts))"
      using heap_invD(4) [OF Suc.prems(1)] by (simp add: tracked_ok_def)
    then have rm: "snd (track_remove (tb_ptr (?ts ! i)) ?ts) = ?ts'"
      using track_remove_nth len True by simp
    note upd = used_entries_upd_length [OF len True]
    have "track_validate (tb_ptr (?ts ! i)) ?ts"
      using upd by (auto simp: track_validate_iff)
    then obtain s1 where s1: "kfree (tb_ptr (?ts ! i)) s = Some (s1, 1)"
        "heap_inv s1 (free_spec (heap_base s) (unat (tb_ptr (?ts ! i))) bs)"
        "heap_start s1 = heap_start s" "heap_end s1 = heap_end s" "tracked_blocks s1 = ?ts'"
      using kfree_spec [OF Suc.prems(1), of "tb_ptr (?ts ! i)"] rm by auto
    have "used_entries (take (Suc i) (tracked_blocks s1)) = []"
      using Suc.prems(3) len s1(5) by (simp add: take_Suc_conv_app_nth)
    then obtain s' bs' where "kfree_all_loop [Suc i..<MAX_TRACKED_BLOCKS] s1 (acc + 1)
          = Some (s', acc + 1 + int (length (used_entries ?ts')))"
        "heap_inv s' bs'" "no_adjacent_free bs'" "used_entries (tracked_blocks s') = []"
        "heap_start s' = heap_start s" "heap_end s' = heap_end s"
        "live (heap_base s) bs' = {(q, k) \<in> live (heap_base s) (free_spec (heap_base s) (unat (tb_ptr (?ts ! i))) bs).
           q \<notin> unat ` fst ` set (used_entries ?ts')}"
      using Suc.hyps(1) [of "Suc i" s1 "free_spec (heap_base s) (unat (tb_ptr (?ts ! i))) bs" "acc + 1"]
        n s1 by (auto simp: no_adjacent_free_free_spec)
    then show ?thesis
      using upt True s1(1) upd by (intro exI [of _ s'] exI [of _ bs']) (auto simp: live_free_spec)
  qed
qed

lemma all_free_single:
  assumes "live a bs = {}" "no_adjacent_free bs" "bs \<noteq> []"
  shows "bs = [(extent bs - 12, False)]"
proof -
  have "\<not> u" if "(n, u) \<in> set bs" for n u
    using assms(1) that by (induction bs arbitrary: a) (auto split: if_splits prod.splits)
  then show ?thesis using assms(2,3) by (cases bs rule: no_adjacent_free.cases) auto
qed

section \<open>Undoing an allocation\<close>

lemma coalesce_join:
  assumes "no_adjacent_free (xs @ (w + 12 + k, False) # ys)"
  shows "coalesce (xs @ (w, False) # (k, False) # ys) = xs @ (w + 12 + k, False) # ys"
  using assms
proof (induction xs)
  case Nil
  then show ?case using coalesce_id by simp
next
  case (Cons b xs)
  obtain c cs where c: "xs @ (w, False) # (k, False) # ys = c # cs" by (cases xs) auto
  have "snd b \<or> snd c" using Cons.prems c by (cases xs) (auto simp: no_adjacent_free_Cons)
  then have "coalesce (b # c # cs) = b # coalesce (c # cs)" by (cases b; cases c) auto
  then show ?case using Cons c by (simp add: no_adjacent_free_Cons)
qed

lemma free_alloc_spec:
  assumes "alloc_spec a w bs = Some (p, bs')" "no_adjacent_free bs"
  shows "free_spec a p bs' = bs"
proof -
  obtain xs n ys where f: "first_fit w bs = Some (xs, n, ys)" "p = a + extent xs + 12"
    "bs' = xs @ carve w n @ ys"
    using assms(1) by (auto simp: alloc_spec_def split: option.splits)
  have bs: "bs = xs @ (n, False) # ys" "w \<le> n" using first_fit_Some [OF f(1)] by auto
  show ?thesis
  proof (cases "n - w \<le> 28")
    case True
    then show ?thesis
      using f bs assms(2) mark_free_at [of a xs n True ys]
      by (simp add: free_spec_def carve_def coalesce_id)
  next
    case False
    then show ?thesis
      using f bs assms(2) mark_free_at [of a xs w True "(n - w - 12, False) # ys"]
        coalesce_join [of xs w "n - w - 12" ys]
      by (simp add: free_spec_def carve_def)
  qed
qed

lemma kmalloc_kfree_undo:
  assumes inv: "heap_inv s bs" and nf: "no_adjacent_free bs"
    and slot: "\<exists>t\<in>set (tracked_blocks s). \<not> tb_in_use t"
    and a: "kmalloc sz s = Some (s1, p)" and p: "p \<noteq> 0"
  shows "\<exists>s2. kfree p s1 = Some (s2, 1) \<and> heap_inv s2 bs \<and> kfree p s2 = Some (s2, 0)"
proof -
  have nz: "sz \<noteq> 0" using a p by (auto simp: kmalloc_def)
  obtain q bs' where r: "alloc_spec (heap_base s) (unat (ALIGN8 sz)) bs = Some (q, bs')"
    using kmalloc_spec [OF inv nz] a p by (cases "alloc_spec (heap_base s) (unat (ALIGN8 sz)) bs") auto
  then obtain xs n ys where f: "first_fit (unat (ALIGN8 sz)) bs = Some (xs, n, ys)"
    "q = heap_base s + extent xs + 12" "bs' = xs @ carve (unat (ALIGN8 sz)) n @ ys"
    by (auto simp: alloc_spec_def split: option.splits)
  obtain k where s1: "unat p = q" "heap_inv s1 bs'" "heap_start s1 = heap_start s"
    "tracked_blocks s1 = track_add p k (tracked_blocks s)"
    using kmalloc_refines_aux [OF inv f(1) nz] a f by auto
  have "track_validate p (tracked_blocks s1)"
    using s1(4) slot by (auto simp: track_validate_iff set_track_add)
  then obtain s2 where s2: "kfree p s1 = Some (s2, 1)" "heap_inv s2 (free_spec (heap_base s) q bs')"
      "tracked_blocks s2 = snd (track_remove p (tracked_blocks s1))"
    using kfree_spec [OF s1(2), of p] s1(1,3) by auto
  have "distinct (map fst (used_entries (tracked_blocks s1)))"
    using heap_invD(4) [OF s1(2)] by (simp add: tracked_ok_def)
  then have "\<not> track_validate p (tracked_blocks s2)"
    by (auto simp: track_validate_iff s2(3) used_entries_track_remove)
  then have "kfree p s2 = Some (s2, 0)" by (simp add: kfree_def)
  then show ?thesis using s2 free_alloc_spec [OF r nf] by auto
qed

text \<open>With a full table the block is handed out untracked, and can never be given back.\<close>

lemma track_add_full: "\<forall>t\<in>set ts. tb_in_use t \<Longrightarrow> track_add p n ts = ts"
  by (induction p n ts rule: track_add.induct) auto

lemma kmalloc_untracked:
  assumes inv: "heap_inv s bs" and full: "\<forall>t\<in>set (tracked_blocks s). tb_in_use t"
    and a: "kmalloc sz s = Some (s1, p)" and p: "p \<noteq> 0"
  shows "kfree p s1 = Some (s1, 0)"
proof -
  have nz: "sz \<noteq> 0" using a p by (auto simp: kmalloc_def)
  obtain q bs' where "alloc_spec (heap_base s) (unat (ALIGN8 sz)) bs = Some (q, bs')"
    using kmalloc_spec [OF inv nz] a p by (cases "alloc_spec (heap_base s) (unat (ALIGN8 sz)) bs") auto
  then obtain xs n ys where f: "first_fit (unat (ALIGN8 sz)) bs = Some (xs, n, ys)" by (auto simp: alloc_spec_def split: option.splits)
  obtain k where s1: "unat p = heap_base s + extent xs + 12" "tracked_blocks s1 = track_add p k (tracked_blocks s)"
    using kmalloc_refines_aux [OF inv f nz] a by auto
  have "p \<notin> fst ` set (used_entries (tracked_blocks s))"
    using heap_invD(4) [OF inv] s1(1) first_fit_Some [OF f] by (auto simp: tracked_ok_def dest!: bspec live_bounds)
  then have "\<not> track_validate p (tracked_blocks s1)" unfolding s1(2) track_add_full [OF full] by (auto simp: track_validate_iff)
  then show ?thesis by (simp add: kfree_def)
qed

text \<open>Allocating and freeing keep free blocks apart.\<close>

lemma no_adjacent_free_alloc:
  assumes "alloc_spec a w bs = Some (p, bs')" "no_adjacent_free bs"
  shows "no_adjacent_free bs'"
proof -
  obtain xs n ys where f: "first_fit w bs = Some (xs, n, ys)" "bs' = xs @ carve w n @ ys"
    using assms(1) by (auto simp: alloc_spec_def split: option.splits)
  have "no_adjacent_free (xs @ (n, False) # ys)" using first_fit_Some [OF f(1)] assms(2) by simp
  then have "no_adjacent_free (xs @ carve w n @ ys)"
    by (induction xs) (auto simp: no_adjacent_free_Cons carve_def hd_append)
  then show ?thesis by (simp add: f(2))
qed

lemma mm_counts:
  assumes "heap_inv s bs"
  shows "mm_used s = Some (word_of_nat (bytes_of True bs))" "mm_free s = Some (word_of_nat (bytes_of False bs))"
    "unat (mm_total s) = extent bs - 12" "bytes_of True bs + bytes_of False bs < 2 ^ 32"
proof -
  note d = heap_invD [OF assms]
  show "mm_used s = Some (word_of_nat (bytes_of True bs))" "mm_free s = Some (word_of_nat (bytes_of False bs))"
    using sum_loop_refines [of s "[]" bs BLOCK_USED True 0] sum_loop_refines [of s "[]" bs BLOCK_FREE False 0] d(1,2)
    by (simp_all add: mm_used_def mm_free_def first_block_def)
  have e: "unat (heap_start s) + extent bs = unat (heap_end s)" using d(1) by (simp add: heap_wf_def)
  then show "bytes_of True bs + bytes_of False bs < 2 ^ 32"
    using bytes_of_extent [of bs] u32_bound [of "heap_end s"] by linarith
  have "12 \<le> extent bs" using d(2) by (cases bs) auto
  moreover have "unat (heap_end s - heap_start s) = extent bs"
    using e by (simp add: unat_sub word_le_nat_alt)
  ultimately show "unat (mm_total s) = extent bs - 12"
    by (simp add: mm_total_def sizeof_block_header_def unat_sub word_le_nat_alt)
qed

section \<open>Properties\<close>

text \<open>A concrete heap for the witnesses: one megabyte at address 0x200000, as \<open>kernel_main\<close> sets it up.\<close>

definition blank_mm :: mm_state where
  "blank_mm = \<lparr>mem = (\<lambda>_. 0), heap_start = 0, heap_end = 0,
     tracked_blocks = replicate MAX_TRACKED_BLOCKS \<lparr>tb_ptr = 0, tb_size = 0, tb_in_use = False\<rparr>\<rparr>"

definition boot_heap :: mm_state where
  "boot_heap = mm_init 0x200000 0x100000 blank_mm"

lemma boot_heap_inv: "heap_inv boot_heap [(0xFFFF4, False)]"
  using mm_init_inv_aux(1) [where s = blank_mm and start = "0x200000" and sz = "0x100000"]
  by (simp add: boot_heap_def blank_mm_def ALIGN8_def)

lemma boot_heap_start [simp]: "heap_start boot_heap = 0x200000"
  by (simp add: boot_heap_def mm_init_def Let_def ALIGN8_def)

text \<open>
  C2: \<open>kmalloc\<close> refines first-fit allocation. On a heap that satisfies the invariant and for a
  non-zero request it always returns: with the null pointer and an unchanged state exactly when no
  free block holds the rounded size, and otherwise with the payload address of the first block that
  does, the block split when more than 28 bytes would be left, the invariant kept for the new list of
  blocks, and no byte of a live payload changed.
\<close>

theorem kmalloc_refines:
  assumes "heap_inv s bs" "sz \<noteq> 0"
  shows "case alloc_spec (unat (heap_start s)) (unat (ALIGN8 sz)) bs of
      None \<Rightarrow> kmalloc sz s = Some (s, 0)
    | Some (p, bs') \<Rightarrow> \<exists>s'. kmalloc sz s = Some (s', word_of_nat p) \<and> heap_inv s' bs'
        \<and> heap_start s' = heap_start s \<and> heap_end s' = heap_end s
        \<and> (\<forall>(q, k) \<in> live (unat (heap_start s)) bs. \<forall>x. q \<le> unat x \<and> unat x < q + k \<longrightarrow> mem s' x = mem s x)"
  by (rule kmalloc_spec [OF assms])

theorem kmalloc_refines_witness:
  "\<exists>s'. kmalloc 64 boot_heap = Some (s', 0x20000C) \<and> heap_inv s' [(64, True), (1048488, False)]"
proof -
  have "alloc_spec (unat (heap_start boot_heap)) (unat (ALIGN8 64)) [(0xFFFF4, False)]
      = Some (0x20000C, [(64, True), (1048488, False)])"
    by (simp add: alloc_spec_def carve_def ALIGN8_def)
  then show ?thesis
    using kmalloc_refines [OF boot_heap_inv, of 64] by auto
qed

text \<open>
  C9: \<open>kfree\<close> refines release with coalescing. A pointer that the tracking table does not hold is
  refused (result 0, state unchanged). A tracked pointer is released: the call returns 1, its block
  is marked free, all runs of adjacent free blocks are merged, the invariant holds for the new list
  of blocks, the live regions are the old ones without the released one, and every byte that is not
  part of a header keeps its value.
\<close>

theorem kfree_refines:
  assumes "heap_inv s bs"
  shows "if track_validate p (tracked_blocks s)
    then \<exists>s'. kfree p s = Some (s', 1) \<and> heap_inv s' (free_spec (unat (heap_start s)) (unat p) bs)
      \<and> no_adjacent_free (free_spec (unat (heap_start s)) (unat p) bs)
      \<and> live (unat (heap_start s')) (free_spec (unat (heap_start s)) (unat p) bs)
          = {(q, k) \<in> live (unat (heap_start s)) bs. q \<noteq> unat p}
      \<and> (\<forall>x. unat x \<notin> header_cells (unat (heap_start s)) bs \<longrightarrow> mem s' x = mem s x)
    else kfree p s = Some (s, 0)"
  using kfree_spec [OF assms, of p]
  by (auto simp: live_mark_free no_adjacent_free_coalesce free_spec_def)

theorem kfree_refines_witness: "kfree 0x123 boot_heap = Some (boot_heap, 0)"
proof -
  have "\<not> track_validate 0x123 (tracked_blocks boot_heap)"
    using mm_init_inv_aux(2) [where s = blank_mm and start = "0x200000" and sz = "0x100000"]
    by (simp add: track_validate_iff boot_heap_def blank_mm_def ALIGN8_def)
  then show ?thesis using kfree_refines [OF boot_heap_inv, of "0x123"] by simp
qed

text \<open>
  C16: any sequence of \<open>kmalloc\<close> calls returns, and the regions of the requested sizes at the non-null
  results never overlap one another (requests up to \<open>2 ^ 32 - 8\<close> bytes).
\<close>

theorem kmalloc_sequence_disjoint:
  assumes "heap_inv s bs" "\<forall>n\<in>set ns. unat n + 7 < 2 ^ 32"
  shows "\<exists>s' ps. run_allocs kmalloc ns s = Some (s', ps) \<and> length ps = length ns
    \<and> (\<forall>i<length ns. \<forall>j<i. ps ! i \<noteq> 0 \<longrightarrow> ps ! j \<noteq> 0 \<longrightarrow>
         apart (unat (ps ! i), unat (ns ! i)) (unat (ps ! j), unat (ns ! j)))"
  by (rule kheap.run_allocs_apart [OF assms])

theorem kmalloc_sequence_disjoint_witness:
  "\<exists>s' ps. run_allocs kmalloc [64, 128, 256] boot_heap = Some (s', ps) \<and> length ps = 3"
  using kmalloc_sequence_disjoint [OF boot_heap_inv, of "[64, 128, 256]"] by auto

text \<open>
  C17: on a heap without adjacent free blocks, as every allocation and release leaves it, freeing what \<open>kmalloc\<close> returned restores
  the list of blocks that was there before the allocation, and a second \<open>kfree\<close> of the same pointer is refused and
  changes nothing. If the tracking table was full, \<open>kmalloc\<close> hands out a block that \<open>kfree\<close> refuses.
\<close>

theorem kmalloc_kfree_roundtrip:
  assumes "heap_inv s bs" "no_adjacent_free bs" "kmalloc sz s = Some (s1, p)" "p \<noteq> 0"
  shows "if \<exists>t\<in>set (tracked_blocks s). \<not> tb_in_use t
    then \<exists>s2. kfree p s1 = Some (s2, 1) \<and> heap_inv s2 bs \<and> kfree p s2 = Some (s2, 0)
    else kfree p s1 = Some (s1, 0)"
  using kmalloc_kfree_undo [OF assms(1,2) _ assms(3,4)] kmalloc_untracked [OF assms(1) _ assms(3,4)] by auto

lemma boot_heap_slots: "\<exists>t\<in>set (tracked_blocks boot_heap). \<not> tb_in_use t"
  by (simp add: boot_heap_def mm_init_def Let_def blank_mm_def)
    (simp add: MAX_TRACKED_BLOCKS_def)

lemma boot_heap_alloc: "\<exists>s'. kmalloc 64 boot_heap = Some (s', 0x20000C)"
proof -
  have "alloc_spec (unat (heap_start boot_heap)) (unat (ALIGN8 64)) [(0xFFFF4, False)]
      = Some (0x20000C, [(64, True), (1048488, False)])"
    by (simp add: alloc_spec_def carve_def ALIGN8_def)
  then show ?thesis using kmalloc_spec [OF boot_heap_inv, of 64] by auto
qed

theorem kmalloc_kfree_roundtrip_witness:
  "\<exists>s1 s2. kmalloc 64 boot_heap = Some (s1, 0x20000C) \<and> kfree 0x20000C s1 = Some (s2, 1)
     \<and> heap_inv s2 [(0xFFFF4, False)]"
proof -
  obtain s1 where s1: "kmalloc 64 boot_heap = Some (s1, 0x20000C)" using boot_heap_alloc by blast
  show ?thesis
    using s1 kmalloc_kfree_roundtrip [OF boot_heap_inv _ s1] boot_heap_slots by auto
qed

text \<open>
  The heap counters add up. \<open>mm_used\<close> and \<open>mm_free\<close> end and return the bytes of the used and of
  the free payloads, without wrap-around; with one 12-byte header for every block but the first they
  sum to \<open>mm_total\<close>.
\<close>

lemma heap_accounting:
  assumes "heap_inv s bs"
  shows "\<exists>u f. mm_used s = Some u \<and> mm_free s = Some f
    \<and> unat u = bytes_of True bs \<and> unat f = bytes_of False bs
    \<and> unat u + unat f + 12 * (length bs - 1) = unat (mm_total s)"
proof -
  note c = mm_counts [OF assms]
  obtain b cs where bs: "bs = b # cs" using heap_invD(2) [OF assms] by (cases bs) auto
  have "bytes_of True bs + bytes_of False bs + 12 * length cs = extent bs - 12"
    using bytes_of_extent [of bs] bs by simp
  then show ?thesis using c bs by (simp add: unat_of_nat_u32)
qed

text \<open>
  When every live block is in the tracking table, \<open>kfree_all\<close> ends, reports the number of blocks
  it released, empties the table and leaves the heap as one free block that spans it.
\<close>

lemma kfree_all_releases:
  assumes "heap_inv s bs" "no_adjacent_free bs"
    and "live (unat (heap_start s)) bs = (\<lambda>(p, n). (unat p, unat n)) ` set (used_entries (tracked_blocks s))"
  shows "\<exists>s'. kfree_all s = Some (s', int (length (used_entries (tracked_blocks s))))
    \<and> used_entries (tracked_blocks s') = []
    \<and> heap_inv s' [(unat (heap_end s) - unat (heap_start s) - 12, False)]"
proof -
  obtain s' bs' where k: "kfree_all s = Some (s', int (length (used_entries (tracked_blocks s))))"
      "heap_inv s' bs'" "no_adjacent_free bs'" "used_entries (tracked_blocks s') = []"
      "heap_start s' = heap_start s" "heap_end s' = heap_end s"
      "live (heap_base s) bs' = {(q, k) \<in> live (heap_base s) bs. q \<notin> unat ` fst ` set (used_entries (tracked_blocks s))}"
    using kfree_all_loop_spec [OF assms(1,2), of 0 0] unfolding kfree_all_def by simp blast
  have "q \<in> unat ` fst ` set (used_entries (tracked_blocks s))" if "(q, j) \<in> live (heap_base s) bs" for q j
    using that unfolding assms(3) by (auto intro!: rev_image_eqI)
  then have "live (heap_base s) bs' = {}" unfolding k(7) by blast
  then have "bs' = [(extent bs' - 12, False)]"
    using all_free_single [OF _ k(3)] heap_invD(2) [OF k(2)] by blast
  moreover have "extent bs' = unat (heap_end s) - heap_base s"
    using heap_invD(1) [OF k(2)] k(5,6) by (auto simp: heap_wf_def)
  ultimately show ?thesis using k by auto
qed

text \<open>
  \<open>mm_init\<close> on a region that does not wrap around the address space and holds at least one header
  establishes the invariant: one free block over the whole region, nothing tracked, no byte
  outside the first header changed.
\<close>

lemma mm_init_inv:
  assumes "length (tracked_blocks s) = MAX_TRACKED_BLOCKS"
    and "unat (ALIGN8 start) + unat sz < 2 ^ 32" "12 \<le> unat sz"
  shows "heap_inv (mm_init start sz s) [(unat sz - 12, False)]
    \<and> used_entries (tracked_blocks (mm_init start sz s)) = []
    \<and> heap_start (mm_init start sz s) = ALIGN8 start
    \<and> (\<forall>x. unat x < unat (ALIGN8 start) \<or> unat (ALIGN8 start) + 12 \<le> unat x \<longrightarrow>
         mem (mm_init start sz s) x = mem s x)"
proof (intro conjI allI impI)
  fix x :: u32
  assume x: "unat x < unat (ALIGN8 start) \<or> unat (ALIGN8 start) + 12 \<le> unat x"
  have "unat (ALIGN8 start) + 12 \<le> 2 ^ 32" using assms(2,3) by linarith
  then show "mem (mm_init start sz s) x = mem s x"
    using x by (simp add: mm_init_def Let_def first_block_def set_hdr_outside)
qed (use mm_init_inv_aux [OF assms] in \<open>auto simp: mm_init_def Let_def\<close>)

end
