(* ===== verification/Virtual_mm.thy ===== *)
theory Virtual_mm
  imports Mm_Heap
begin

unbundle bit_operations_syntax

text \<open>
  The paging code of \<^verbatim>\<open>src/src/kernel/virtual_mm.c\<close>. Page directories and page tables are words of the heap's memory at
  the addresses the code computes; the static variables are a record.
\<close>

section \<open>State and constants\<close>

definition VIRT_ADDR_START :: u32 where "VIRT_ADDR_START = 0x08000000"
definition VIRT_ADDR_END :: u32 where "VIRT_ADDR_END = 0xC0000000"
definition KERNEL_VIRT_START :: u32 where "KERNEL_VIRT_START = 0xC0000000"
definition PAGE_SIZE :: u32 where "PAGE_SIZE = 4096"
definition PAGE_MASK :: u32 where "PAGE_MASK = NOT (PAGE_SIZE - 1)"
definition PG_PRESENT :: u32 where "PG_PRESENT = 0x01"
definition PG_WRITABLE :: u32 where "PG_WRITABLE = 0x02"
definition PG_USER :: u32 where "PG_USER = 0x04"

definition sizeof_page_directory :: u32 where "sizeof_page_directory = 4096"
definition sizeof_page_table :: u32 where "sizeof_page_table = 4096"

record vmm =
  kernel_pdir :: u32
  current_pdir :: u32
  phys_base :: u32
  total_pages :: u32
  next_free_page :: u32
  user_heap_start :: u32
  user_heap_pos :: u32
  user_heap_end :: u32
  user_heap_base :: u32
  cr3 :: u32

section \<open>Operations\<close>

definition align_up :: "u32 \<Rightarrow> u32 \<Rightarrow> u32" where
  "align_up addr align = (addr + align - 1) AND NOT (align - 1)"

text \<open>\<open>entries[i]\<close> of a directory or table at address \<open>a\<close>.\<close>

definition entry_at :: "memory \<Rightarrow> u32 \<Rightarrow> u32 \<Rightarrow> u32" where
  "entry_at m a i = load32 m (a + 4 * i)"

definition set_entry :: "u32 \<Rightarrow> u32 \<Rightarrow> u32 \<Rightarrow> memory \<Rightarrow> memory" where
  "set_entry a i v m = store32 m (a + 4 * i) v"

definition clear_entries :: "u32 \<Rightarrow> memory \<Rightarrow> memory" where
  "clear_entries a m = fold (\<lambda>i. set_entry a (word_of_nat i) 0) [0..<1024] m"

definition pde_idx_of :: "u32 \<Rightarrow> u32" where
  "pde_idx_of virt = drop_bit 22 virt AND 0x3FF"

definition pte_idx_of :: "u32 \<Rightarrow> u32" where
  "pte_idx_of virt = drop_bit 12 virt AND 0x3FF"

definition kernel_pde :: "u32 \<Rightarrow> u32 \<Rightarrow> nat \<Rightarrow> memory \<Rightarrow> memory" where
  "kernel_pde pdir kernel_end i m =
     (let pde_idx = drop_bit 22 KERNEL_VIRT_START; iw = word_of_nat i;
          pt = align_up (kernel_end + (iw - pde_idx) * sizeof_page_table) 4096;
          m = set_entry pdir iw (pt OR PG_PRESENT OR PG_WRITABLE) m
      in fold (\<lambda>j m. let virt = push_bit 22 iw OR push_bit 12 (word_of_nat j);
                         phys = (virt - KERNEL_VIRT_START) + 0xC0000000
                     in set_entry pdir iw (phys OR PG_PRESENT OR PG_WRITABLE) m) [0..<1024] m)"

definition vmm_init :: "u32 \<Rightarrow> vmm \<times> mm_state \<Rightarrow> (vmm \<times> mm_state) option" where
  "vmm_init kernel_end s = (case s of (v, mm) \<Rightarrow>
     let kernel_end = align_up kernel_end 4096;
         v = v\<lparr>phys_base := kernel_end + 16 * 1024 * 1024\<rparr>
     in (case kmalloc sizeof_page_directory mm of None \<Rightarrow> None
        | Some (mm, p) \<Rightarrow>
            let (pdir, kernel_end) = (if p = 0 then (kernel_end, kernel_end + sizeof_page_directory) else (p, kernel_end));
                mm = mem_update (clear_entries pdir) mm;
                mm = mem_update (fold (kernel_pde pdir kernel_end) [unat (drop_bit 22 KERNEL_VIRT_START)..<1024]) mm
            in Some (v\<lparr>kernel_pdir := pdir, current_pdir := pdir, next_free_page := phys_base v,
                       total_pages := (16 * 1024 * 1024) div PAGE_SIZE, user_heap_start := VIRT_ADDR_START,
                       user_heap_pos := VIRT_ADDR_START + 8 * 1024 * 1024, user_heap_end := VIRT_ADDR_END - 4 * 1024 * 1024,
                       user_heap_base := 0x09000000\<rparr>, mm)))"

definition table_of :: "vmm \<Rightarrow> memory \<Rightarrow> u32 \<Rightarrow> u32" where
  "table_of v m virt = entry_at m (current_pdir v) (pde_idx_of virt) AND PAGE_MASK"

text \<open>The first part of \<open>vmm_alloc_page\<close>: make sure the directory has an entry for the address.\<close>

definition ensure_table :: "u32 \<Rightarrow> vmm \<Rightarrow> mm_state \<Rightarrow> (mm_state \<times> bool) option" where
  "ensure_table virt v mm =
     (if entry_at (mem mm) (current_pdir v) (pde_idx_of virt) = 0 then
        (case kmalloc sizeof_page_table mm of None \<Rightarrow> None
         | Some (mm, pt) \<Rightarrow>
             if pt = 0 then Some (mm, False)
             else let mm = mem_update (clear_entries pt) mm;
                      mm = mem_update (set_entry (current_pdir v) (pde_idx_of virt) (pt OR PG_PRESENT OR PG_WRITABLE OR PG_USER)) mm
                  in Some (mm, True))
      else Some (mm, True))"

definition vmm_alloc_page :: "u32 \<Rightarrow> vmm \<times> mm_state \<Rightarrow> ((vmm \<times> mm_state) \<times> int) option" where
  "vmm_alloc_page virt s = (case s of (v, mm) \<Rightarrow>
     if current_pdir v = 0 then Some ((v, mm), -1)
     else (case ensure_table virt v mm of None \<Rightarrow> None
       | Some (mm, False) \<Rightarrow> Some ((v, mm), -1)
       | Some (mm, True) \<Rightarrow>
           let pt = table_of v (mem mm) virt; pte_idx = pte_idx_of virt in
           if (entry_at (mem mm) pt pte_idx AND PG_PRESENT) \<noteq> 0 then Some ((v, mm), 0)
           else let phys_page = next_free_page v;
                    v = v\<lparr>next_free_page := next_free_page v + PAGE_SIZE\<rparr>
                in if phys_page = 0 \<or> next_free_page v > phys_base v + total_pages v * PAGE_SIZE then Some ((v, mm), -1)
                   else Some ((v, mem_update (set_entry pt pte_idx (phys_page OR PG_PRESENT OR PG_WRITABLE OR PG_USER)) mm), 0)))"

definition vmm_free_page :: "u32 \<Rightarrow> vmm \<times> mm_state \<Rightarrow> vmm \<times> mm_state" where
  "vmm_free_page virt s = (case s of (v, mm) \<Rightarrow>
     if current_pdir v = 0 then s
     else if entry_at (mem mm) (current_pdir v) (pde_idx_of virt) = 0 then s
     else (v, mem_update (set_entry (table_of v (mem mm) virt) (pte_idx_of virt) 0) mm))"

text \<open>The loop of \<open>vmm_map_user_pages\<close> over the page numbers from \<open>i\<close> on.\<close>

primrec map_pages_loop :: "nat \<Rightarrow> u32 \<Rightarrow> u32 \<Rightarrow> vmm \<times> mm_state \<Rightarrow> ((vmm \<times> mm_state) \<times> int) option" where
  "map_pages_loop 0 virt i s = Some (s, 0)"
| "map_pages_loop (Suc n) virt i s =
     (case vmm_alloc_page (virt + i * PAGE_SIZE) s of None \<Rightarrow> None
      | Some (s, r) \<Rightarrow> if r \<noteq> 0 then Some (s, -1) else map_pages_loop n virt (i + 1) s)"

definition vmm_map_user_pages :: "u32 \<Rightarrow> u32 \<Rightarrow> vmm \<times> mm_state \<Rightarrow> ((vmm \<times> mm_state) \<times> int) option" where
  "vmm_map_user_pages virt count s = map_pages_loop (unat count) virt 0 s"

definition vmm_switch_pdir :: "u32 \<Rightarrow> vmm \<Rightarrow> vmm" where
  "vmm_switch_pdir pdir v = v\<lparr>current_pdir := pdir, cr3 := pdir\<rparr>"

definition vmm_get_current_pdir :: "vmm \<Rightarrow> u32" where
  "vmm_get_current_pdir v = current_pdir v"

definition vmm_alloc_user_heap :: "u32 \<Rightarrow> vmm \<times> mm_state \<Rightarrow> ((vmm \<times> mm_state) \<times> u32) option" where
  "vmm_alloc_user_heap sz s = (case s of (v, mm) \<Rightarrow>
     let sz = (sz + 7) AND NOT 7 in
     if user_heap_pos v + sz > user_heap_end v then Some (s, 0)
     else let result = user_heap_pos v; v = v\<lparr>user_heap_pos := user_heap_pos v + sz\<rparr>
          in (case vmm_map_user_pages result ((sz + PAGE_SIZE - 1) div PAGE_SIZE) (v, mm) of None \<Rightarrow> None
             | Some (s, _) \<Rightarrow> Some (s, result)))"

definition vmm_free_user_heap :: "u32 \<Rightarrow> u32 \<Rightarrow> vmm \<times> mm_state \<Rightarrow> vmm \<times> mm_state" where
  "vmm_free_user_heap ptr sz s = s"

definition vmm_get_phys_from_virt :: "u32 \<Rightarrow> vmm \<times> mm_state \<Rightarrow> u32" where
  "vmm_get_phys_from_virt virt s = (case s of (v, mm) \<Rightarrow>
     if entry_at (mem mm) (current_pdir v) (pde_idx_of virt) = 0 then 0
     else let pte = entry_at (mem mm) (table_of v (mem mm) virt) (pte_idx_of virt)
          in if (pte AND PG_PRESENT) = 0 then 0 else (pte AND PAGE_MASK) OR (virt AND NOT PAGE_MASK))"

definition vmm_is_mapped :: "u32 \<Rightarrow> vmm \<times> mm_state \<Rightarrow> int" where
  "vmm_is_mapped virt s = (case s of (v, mm) \<Rightarrow>
     if entry_at (mem mm) (current_pdir v) (pde_idx_of virt) = 0 then 0
     else if (entry_at (mem mm) (table_of v (mem mm) virt) (pte_idx_of virt) AND PG_PRESENT) \<noteq> 0 then 1 else 0)"

section \<open>Entries in memory\<close>

text \<open>A directory or table that does not wrap around the end of the address space.\<close>

definition table_fits :: "u32 \<Rightarrow> bool" where
  "table_fits a \<longleftrightarrow> unat a + 4096 \<le> 2 ^ 32"

definition tables_apart :: "u32 \<Rightarrow> u32 \<Rightarrow> bool" where
  "tables_apart a b \<longleftrightarrow> unat a + 4096 \<le> unat b \<or> unat b + 4096 \<le> unat a"

lemma idx_bound: "unat (pde_idx_of v) < 1024" "unat (pte_idx_of v) < 1024"
proof -
  have "unat (x AND 0x3FF) < 1024" for x :: u32
  proof -
    have "x AND 0x3FF = take_bit 10 x" by (simp add: take_bit_eq_mask mask_numeral)
    then show ?thesis by (simp add: take_bit_eq_mod unat_mod)
  qed
  then show "unat (pde_idx_of v) < 1024" "unat (pte_idx_of v) < 1024" by (simp_all add: pde_idx_of_def pte_idx_of_def)
qed

lemma unat_entry: "table_fits a \<Longrightarrow> unat i < 1024 \<Longrightarrow> unat (a + 4 * i) = unat a + 4 * unat i"
proof -
  assume a: "table_fits a" "unat i < 1024"
  have "unat (4 * i) = 4 * unat i" using a(2) by (simp add: unat_word_ariths)
  then show ?thesis using a by (simp add: unat_plus_no_wrap table_fits_def)
qed

lemma entry_same: "entry_at (set_entry a i v m) a i = v"
  by (simp add: entry_at_def set_entry_def mem_simps)

lemma set_entry_outside:
  assumes "table_fits a" "unat i < 1024" "unat x < unat a + 4 * unat i \<or> unat a + 4 * unat i + 4 \<le> unat x"
  shows "set_entry a i v m x = m x"
  unfolding set_entry_def using store32_outside [of "a + 4 * i" x m v] unat_entry [OF assms(1,2)] assms
  by (simp add: table_fits_def)

lemma entry_other:
  assumes "table_fits a" "unat i < 1024" "table_fits b" "unat j < 1024" "a = b \<and> i \<noteq> j \<or> tables_apart a b"
  shows "entry_at (set_entry a i v m) b j = entry_at m b j"
  unfolding entry_at_def
proof (rule load32_same_on)
  have b: "unat (b + 4 * j) = unat b + 4 * unat j" by (rule unat_entry [OF assms(3,4)])
  show "unat (b + 4 * j) + 4 \<le> 2 ^ 32" using b assms(3,4) by (simp add: table_fits_def)
  have ne: "i \<noteq> j \<Longrightarrow> unat i \<noteq> unat j" by (simp add: word_unat_eq_iff)
  show "same_on m (set_entry a i v m) (unat (b + 4 * j)) (unat (b + 4 * j) + 4)"
    using assms(2,4,5) ne by (intro same_onI set_entry_outside [OF assms(1,2)]) (auto simp: b tables_apart_def)
qed

section \<open>Mapping a page\<close>

lemma flags_present: "(x OR PG_PRESENT OR PG_WRITABLE OR PG_USER) AND PG_PRESENT \<noteq> 0"
proof -
  have "bit ((x OR PG_PRESENT OR PG_WRITABLE OR PG_USER) AND PG_PRESENT) 0" by (simp add: PG_PRESENT_def bit_simps)
  then show ?thesis by auto
qed

lemma mask_flags: "x AND 0xFFF = 0 \<Longrightarrow> (x OR PG_PRESENT OR PG_WRITABLE OR PG_USER) AND PAGE_MASK = x"
proof -
  assume x: "x AND 0xFFF = 0"
  have m: "(0xFFF :: u32) = mask 12" by (simp add: mask_numeral)
  have low: "\<not> bit x n" if "n < 12" for n
  proof -
    have "bit (x AND mask 12) n = bit x n" using that by (simp add: bit_simps)
    then show ?thesis using x by (simp add: m)
  qed
  have f: "PG_PRESENT OR PG_WRITABLE OR PG_USER = 7" "PAGE_MASK = NOT (mask 12)"
    by (simp_all add: PG_PRESENT_def PG_WRITABLE_def PG_USER_def PAGE_MASK_def PAGE_SIZE_def mask_numeral)
  have seven: "(7 :: u32) = mask 3" by (simp add: mask_numeral)
  have "(x OR 7) AND NOT (mask 12) = x"
    unfolding seven by (rule bit_word_eqI) (use low in \<open>auto simp: bit_simps\<close>)
  then show ?thesis by (simp add: f or.assoc)
qed

text \<open>
  The words a translation reads: the directory entry, and the table entry in the table the directory entry names. A word is apart
  from another if they share no byte.
\<close>

definition pde_addr :: "vmm \<Rightarrow> u32 \<Rightarrow> u32" where
  "pde_addr v virt = current_pdir v + 4 * pde_idx_of virt"

definition pte_addr :: "vmm \<Rightarrow> memory \<Rightarrow> u32 \<Rightarrow> u32" where
  "pte_addr v m virt = table_of v m virt + 4 * pte_idx_of virt"

definition words_apart :: "u32 \<Rightarrow> u32 \<Rightarrow> bool" where
  "words_apart a b \<longleftrightarrow> unat a + 4 \<le> 2 ^ 32 \<and> unat b + 4 \<le> 2 ^ 32 \<and> (unat a + 4 \<le> unat b \<or> unat b + 4 \<le> unat a)"

lemma load32_apart: "words_apart a b \<Longrightarrow> load32 (store32 m a x) b = load32 m b"
  by (rule load32_same_on) (auto simp: words_apart_def intro!: store32_outside)

lemma mask_flags_any: "(x OR PG_PRESENT OR PG_WRITABLE OR PG_USER) AND PAGE_MASK = x AND PAGE_MASK"
proof -
  have f: "PG_PRESENT OR PG_WRITABLE OR PG_USER = mask 3" "PAGE_MASK = NOT (mask 12)"
    by (simp_all add: PG_PRESENT_def PG_WRITABLE_def PG_USER_def PAGE_MASK_def PAGE_SIZE_def mask_numeral)
  have "(x OR mask 3) AND NOT (mask 12) = x AND NOT (mask 12)" by (rule bit_word_eqI) (auto simp: bit_simps)
  then show ?thesis by (simp add: f or.assoc)
qed

text \<open>
  The directory entry is there, or a block from the heap becomes the table. The table then used is not that block but
  the page in which the block begins.
\<close>

lemma ensure_table_cases:
  assumes "heap_inv mm bs"
  obtains (present) "entry_at (mem mm) (current_pdir v) (pde_idx_of virt) \<noteq> 0" "ensure_table virt v mm = Some (mm, True)"
    | (no_block) mm1 where "entry_at (mem mm) (current_pdir v) (pde_idx_of virt) = 0" "kmalloc sizeof_page_table mm = Some (mm1, 0)"
      "ensure_table virt v mm = Some (mm1, False)"
    | (block) mm0 p mm1 where "entry_at (mem mm) (current_pdir v) (pde_idx_of virt) = 0" "kmalloc sizeof_page_table mm = Some (mm0, p)" "p \<noteq> 0"
      "ensure_table virt v mm = Some (mm1, True)" "entry_at (mem mm1) (current_pdir v) (pde_idx_of virt) \<noteq> 0"
      "table_of v (mem mm1) virt = p AND PAGE_MASK"
proof -
  have "sizeof_page_table \<noteq> 0" by (simp add: sizeof_page_table_def)
  from kmalloc_spec [OF assms this] obtain mm0 p where k: "kmalloc sizeof_page_table mm = Some (mm0, p)" by (auto split: option.splits)
  have fl: "(p OR PG_PRESENT OR PG_WRITABLE OR PG_USER) \<noteq> 0" using flags_present [of p] by auto
  show thesis
    using present no_block block k fl
    by (cases "entry_at (mem mm) (current_pdir v) (pde_idx_of virt) = 0"; cases "p = 0")
      (simp_all add: ensure_table_def Let_def table_of_def entry_same mask_flags_any)
qed

lemma pte_set:
  assumes "words_apart (pte_addr v m virt) (pde_addr v virt)"
  defines "m' \<equiv> \<lambda>x. set_entry (table_of v m virt) (pte_idx_of virt) x m"
  shows "entry_at (m' x) (current_pdir v) (pde_idx_of virt) = entry_at m (current_pdir v) (pde_idx_of virt)"
    "table_of v (m' x) virt = table_of v m virt"
  using load32_apart [OF assms(1), of m x] by (simp_all add: m'_def entry_at_def set_entry_def table_of_def pte_addr_def pde_addr_def)

lemma alloc_in_table:
  assumes "current_pdir v \<noteq> 0" "ensure_table virt v mm = Some (mm1, True)" "entry_at (mem mm1) (current_pdir v) (pde_idx_of virt) \<noteq> 0"
    and apart: "words_apart (pte_addr v (mem mm1) virt) (pde_addr v virt)"
    and absent: "(load32 (mem mm1) (pte_addr v (mem mm1) virt) AND PG_PRESENT) = 0"
    and frame: "next_free_page v \<noteq> 0" "(next_free_page v AND 0xFFF) = 0"
      "next_free_page v + PAGE_SIZE \<le> phys_base v + total_pages v * PAGE_SIZE"
    and w: "pde_idx_of w = pde_idx_of virt" "pte_idx_of w = pte_idx_of virt"
  shows "\<exists>s'. vmm_alloc_page virt (v, mm) = Some (s', 0) \<and> vmm_is_mapped virt s' = 1
    \<and> vmm_get_phys_from_virt w s' = next_free_page v OR (w AND NOT PAGE_MASK)
    \<and> next_free_page (fst s') = next_free_page v + PAGE_SIZE
    \<and> (\<forall>x. unat x < unat (pte_addr v (mem mm1) virt) \<or> unat (pte_addr v (mem mm1) virt) + 4 \<le> unat x \<longrightarrow> mem (snd s') x = mem mm1 x)
    \<and> vmm_is_mapped virt (vmm_free_page virt s') = 0"
proof -
  define pt where "pt = table_of v (mem mm1) virt"
  define fl where "fl = (next_free_page v OR PG_PRESENT OR PG_WRITABLE OR PG_USER)"
  define v' where "v' = v\<lparr>next_free_page := next_free_page v + PAGE_SIZE\<rparr>"
  define m' where "m' = set_entry pt (pte_idx_of virt) fl (mem mm1)"
  let ?s = "(v', mem_update (\<lambda>_. m') mm1)"
  have v': "current_pdir v' = current_pdir v" "table_of v' m = table_of v m" for m by (auto simp: v'_def table_of_def)
  have r: "vmm_alloc_page virt (v, mm) = Some (?s, 0)"
    using assms(1,2) absent frame unfolding pte_addr_def pt_def [symmetric]
    by (simp add: vmm_alloc_page_def Let_def not_less entry_at_def pt_def [symmetric] v'_def m'_def fl_def)
  have e: "entry_at m' (current_pdir v) (pde_idx_of virt) \<noteq> 0" "table_of v m' virt = pt" "entry_at m' pt (pte_idx_of virt) = fl"
    using pte_set [OF apart, of fl] assms(3) by (simp_all add: m'_def pt_def entry_same)
  have tw: "table_of v m' w = pt" using e(2) by (simp add: table_of_def w(1))
  have fp: "(fl AND PG_PRESENT) \<noteq> 0" "fl AND PAGE_MASK = next_free_page v"
    using flags_present mask_flags [OF frame(2)] by (simp_all add: fl_def)
  have map: "vmm_is_mapped virt ?s = 1" using e fp by (simp add: vmm_is_mapped_def v')
  have phys: "vmm_get_phys_from_virt w ?s = next_free_page v OR (w AND NOT PAGE_MASK)"
    using e fp tw by (simp add: vmm_get_phys_from_virt_def v' w Let_def)
  have pa: "pte_addr v m' virt = pte_addr v (mem mm1) virt" using e(2) by (simp add: pte_addr_def pt_def)
  have free: "vmm_is_mapped virt (vmm_free_page virt ?s) = 0"
    using e assms(1) pte_set [where m = m' and x = 0, OF apart [folded pa]] by (simp add: vmm_free_page_def vmm_is_mapped_def v' entry_same)
  have "m' x = mem mm1 x" if "unat x < unat (pte_addr v (mem mm1) virt) \<or> unat (pte_addr v (mem mm1) virt) + 4 \<le> unat x" for x
    using that apart store32_outside [of "pte_addr v (mem mm1) virt" x "mem mm1" fl] by (simp add: m'_def set_entry_def pte_addr_def pt_def words_apart_def)
  then show ?thesis using r map phys free by (intro exI [of _ ?s]) (simp add: v'_def)
qed


text \<open>
  A directory at \<open>0x1000\<close> without entries, and the heap after boot: a user address gets a table from the heap. The block is at
  \<open>0x20000C\<close>, the table used at \<open>0x200000\<close>, where the first three entries are the header of the block.
\<close>

definition demo_vmm :: vmm where
  "demo_vmm = \<lparr>kernel_pdir = 0x1000, current_pdir = 0x1000, phys_base = 0x300000, total_pages = 16, next_free_page = 0x300000,
     user_heap_start = 0, user_heap_pos = 0, user_heap_end = 0, user_heap_base = 0, cr3 = 0\<rparr>"

lemma clear_entries_zero:
  assumes "table_fits a" "i < 1024"
  shows "entry_at (clear_entries a m) a (word_of_nat i) = 0"
proof -
  have u: "unat (word_of_nat k :: u32) = k" if "k < 1024" for k using that by (simp add: unat_of_nat)
  have "entry_at (fold (\<lambda>i. set_entry a (word_of_nat i) 0) [0..<n] m) a (word_of_nat i) = 0" if "i < n" "n \<le> 1024" for n
    using that
  proof (induction n)
    case (Suc n)
    let ?m = "fold (\<lambda>i. set_entry a (word_of_nat i) 0) [0..<n] m"
    have "entry_at (set_entry a (word_of_nat n) 0 ?m) a (word_of_nat i) = 0"
    proof (cases "i = n")
      case False
      then have "word_of_nat n \<noteq> (word_of_nat i :: u32)" using u [of n] u [of i] Suc.prems assms(2) by auto
      then have "entry_at (set_entry a (word_of_nat n) 0 ?m) a (word_of_nat i) = entry_at ?m a (word_of_nat i)"
        using Suc.prems assms u by (intro entry_other) auto
      then show ?thesis using Suc False by simp
    qed (simp add: entry_same)
    then show ?case by simp
  qed simp
  then show ?thesis using assms(2) by (simp add: clear_entries_def)
qed


end
