(* ===== verification/Cstring.thy ===== *)
theory Cstring
  imports Eron_Prelude
begin

text \<open>
  C strings. A \<open>char*\<close> that is only used as a NUL-terminated string is modelled by the characters
  before its terminator (a HOL \<^typ>\<open>string\<close> without NUL), a pointer that may be null by an option. The
  string helpers that \<^verbatim>\<open>vfs.c\<close>, \<^verbatim>\<open>task.c\<close>, \<^verbatim>\<open>process.c\<close> and \<^verbatim>\<open>shell.c\<close> each define for themselves
  are the same code; they are defined here once and named by the component that uses them.
\<close>

type_synonym cstr = "string option"

abbreviation NUL :: char where "NUL \<equiv> CHR 0x00"

definition c_string :: "string \<Rightarrow> bool" where
  "c_string s \<longleftrightarrow> NUL \<notin> set s"

text \<open>The character at an index of a string, with the terminator behind its last character.\<close>

definition char_at :: "string \<Rightarrow> nat \<Rightarrow> char" where
  "char_at s i = (if i < length s then s ! i else NUL)"

text \<open>What a buffer of bytes is when it is read as a C string.\<close>

definition as_cstr :: "char list \<Rightarrow> string" where
  "as_cstr buf = takeWhile (\<lambda>c. c \<noteq> NUL) buf"

definition uchar :: "char \<Rightarrow> int" where
  "uchar c = int (of_char c)"

fun c_strcmp :: "string \<Rightarrow> string \<Rightarrow> int" where
  "c_strcmp (a # as) (b # bs) = (if a \<noteq> NUL \<and> a = b then c_strcmp as bs else uchar a - uchar b)"
| "c_strcmp as bs = uchar (char_at as 0) - uchar (char_at bs 0)"

fun c_strncmp :: "string \<Rightarrow> string \<Rightarrow> nat \<Rightarrow> int" where
  "c_strncmp a b 0 = 0"
| "c_strncmp a b (Suc n) =
     (if char_at a 0 \<noteq> char_at b 0 \<or> char_at a 0 = NUL then uchar (char_at a 0) - uchar (char_at b 0)
      else c_strncmp (tl a) (tl b) n)"

text \<open>
  The bounded copy \<open>strcpy(dst, src, max)\<close> stores at most \<open>max - 1\<close> characters and a terminator;
  the value is what \<open>dst\<close> then holds as a C string.
\<close>

definition c_strcpy :: "string \<Rightarrow> nat \<Rightarrow> string" where
  "c_strcpy src n = take (n - 1) src"

lemma c_string_simps [simp]:
  "c_string []" "c_string (c # s) \<longleftrightarrow> c \<noteq> NUL \<and> c_string s" "c_string (s @ t) \<longleftrightarrow> c_string s \<and> c_string t"
  by (auto simp: c_string_def)

lemma c_string_take [simp]: "c_string s \<Longrightarrow> c_string (take n s)"
  by (auto simp: c_string_def dest: in_set_takeD)

lemma c_string_as_cstr [simp]: "c_string (as_cstr b)"
  by (auto simp: c_string_def as_cstr_def dest: set_takeWhileD)

lemma as_cstr_id [simp]: "c_string s \<Longrightarrow> as_cstr s = s"
  by (auto simp: c_string_def as_cstr_def)

lemma length_as_cstr: "length (as_cstr b) \<le> length b"
  by (simp add: as_cstr_def length_takeWhile_le)

lemma uchar_inj [simp]: "uchar a = uchar b \<longleftrightarrow> a = b"
  by (simp add: uchar_def)

lemma c_strcmp_refl [simp]: "c_strcmp s s = 0"
  by (induction s) (auto simp: char_at_def)

text \<open>On C strings the comparison is zero exactly for equal strings.\<close>

lemma c_strcmp_zero: "c_string s \<Longrightarrow> c_string t \<Longrightarrow> c_strcmp s t = 0 \<longleftrightarrow> s = t"
proof (induction s arbitrary: t)
  case Nil
  then show ?case by (cases t) (auto simp: char_at_def)
next
  case (Cons a s)
  then show ?case by (cases t) (auto simp: char_at_def)
qed

lemma c_strncmp_zero:
  "c_string b \<Longrightarrow> c_strncmp a b (length b) = 0 \<longleftrightarrow> take (length b) a = b"
proof (induction b arbitrary: a)
  case (Cons c b)
  then show ?case by (cases a) (auto simp: char_at_def)
qed simp

lemma length_c_strcpy: "length (c_strcpy s n) = min (length s) (n - 1)"
  by (simp add: c_strcpy_def)

lemma c_strcpy_short: "length s < n \<Longrightarrow> c_strcpy s n = s"
  by (simp add: c_strcpy_def)

lemma c_string_strcpy [simp]: "c_string s \<Longrightarrow> c_string (c_strcpy s n)"
  by (simp add: c_strcpy_def)

section \<open>Tables of named entries\<close>

text \<open>
  The contract that the program table and the file system share: entries are added under a name in
  a table of fixed capacity, a name is found at the first entry that carries it, and a full table
  refuses further entries.
\<close>

primrec insert_all :: "('n \<Rightarrow> 's \<Rightarrow> 's \<times> int) \<Rightarrow> 'n list \<Rightarrow> 's \<Rightarrow> 's" where
  "insert_all ins [] s = s"
| "insert_all ins (x # xs) s = insert_all ins xs (fst (ins x s))"

locale name_table =
  fixes look :: "'s \<Rightarrow> string \<Rightarrow> nat option"
    and ins :: "string \<Rightarrow> 's \<Rightarrow> 's \<times> int"
    and ok :: "'s \<Rightarrow> bool"
    and used :: "'s \<Rightarrow> nat"
    and cap :: nat
    and fits :: "string \<Rightarrow> bool"
  assumes ins_ok: "ok s \<Longrightarrow> fits x \<Longrightarrow> ok (fst (ins x s))"
    and ins_result: "ok s \<Longrightarrow> fits x \<Longrightarrow> used s < cap \<Longrightarrow> snd (ins x s) = 0 \<and> used (fst (ins x s)) = Suc (used s)"
    and look_new: "ok s \<Longrightarrow> fits x \<Longrightarrow> used s < cap \<Longrightarrow> look s x = None \<Longrightarrow> look (fst (ins x s)) x = Some (used s)"
    and look_other: "ok s \<Longrightarrow> fits x \<Longrightarrow> fits y \<Longrightarrow> x \<noteq> y \<Longrightarrow> look (fst (ins x s)) y = look s y"
    and look_old: "ok s \<Longrightarrow> fits x \<Longrightarrow> look s x = Some i \<Longrightarrow> look (fst (ins x s)) x = Some i"
    and ins_full: "ok s \<Longrightarrow> fits x \<Longrightarrow> cap \<le> used s \<Longrightarrow> ins x s = (s, -1)"
begin

lemma look_kept: "ok s \<Longrightarrow> fits x \<Longrightarrow> fits y \<Longrightarrow> look s y = Some i \<Longrightarrow> look (fst (ins x s)) y = Some i"
  by (cases "x = y") (simp_all add: look_other look_old)

lemma insert_all_kept:
  "ok s \<Longrightarrow> \<forall>x\<in>set xs. fits x \<Longrightarrow> fits y \<Longrightarrow> look s y = Some i \<Longrightarrow> look (insert_all ins xs s) y = Some i"
  by (induction xs arbitrary: s) (auto simp: ins_ok look_kept)

text \<open>
  Adding a list of distinct new names fills the table in order; the names that no longer fit are
  not found afterwards.
\<close>

lemma insert_all_look:
  assumes "ok s" "\<forall>x\<in>set xs. fits x \<and> look s x = None" "distinct xs" "i < length xs" "used s \<le> cap"
  shows "look (insert_all ins xs s) (xs ! i) = (if used s + i < cap then Some (used s + i) else None)"
  using assms
proof (induction xs arbitrary: s i)
  case (Cons x xs)
  let ?s = "fst (ins x s)"
  have ok: "ok ?s" using Cons.prems by (simp add: ins_ok)
  have rest: "\<forall>y\<in>set xs. fits y \<and> look ?s y = None"
    using Cons.prems by (metis distinct.simps(2) list.set_intros(1,2) look_other)
  show ?case
  proof (cases "used s < cap")
    case True
    then have u: "used ?s = Suc (used s)" using Cons.prems ins_result by simp
    show ?thesis
    proof (cases i)
      case 0
      have "look ?s x = Some (used s)" using Cons.prems True by (simp add: look_new)
      then show ?thesis
        using insert_all_kept [OF ok, of xs x] rest Cons.prems True 0 by simp
    next
      case (Suc j)
      then show ?thesis using Cons.IH [OF ok rest, of j] Cons.prems True u by simp
    qed
  next
    case False
    then have same: "?s = s" using Cons.prems ins_full by simp
    have "look (insert_all ins ys s) x = None" if "\<forall>y\<in>set ys. fits y" for ys
      using that False Cons.prems ins_full by (induction ys) auto
    then show ?thesis
      using Cons.IH [OF ok rest, of "i - 1"] Cons.prems False same by (cases i) auto
  qed
qed simp

end

end
