(* ===== verification/Task.thy ===== *)
theory Task
  imports Cstring
begin

text \<open>
  The program table of \<^verbatim>\<open>src/src/kernel/task.c\<close>: 32 slots filled in order by \<open>program_register\<close> and
  searched by \<open>program_find\<close>. Entry points are values of a type \<open>'p\<close> that the shell instantiates. A
  pointer to a slot is the slot's index.
\<close>

definition MAX_PROGRAMS :: nat where "MAX_PROGRAMS = 32"
definition PROG_NAME_LEN :: nat where "PROG_NAME_LEN = 16"
definition PROG_DESC_LEN :: nat where "PROG_DESC_LEN = 48"

record 'p program =
  pg_name :: string
  pg_desc :: string
  pg_entry :: "'p option"
  pg_active :: bool

record 'p programs =
  prog_table :: "'p program list"
  prog_count :: nat

definition task_strcpy :: "string \<Rightarrow> nat \<Rightarrow> string" where
  "task_strcpy src n = c_strcpy src n"

definition task_strcmp :: "string \<Rightarrow> string \<Rightarrow> int" where
  "task_strcmp a b = c_strcmp a b"

definition programs_init :: "'p programs \<Rightarrow> 'p programs" where
  "programs_init s = s\<lparr>prog_table := map (\<lambda>p. p\<lparr>pg_active := False\<rparr>) (prog_table s), prog_count := 0\<rparr>"

definition program_register :: "string \<Rightarrow> string \<Rightarrow> 'p \<Rightarrow> 'p programs \<Rightarrow> 'p programs \<times> int" where
  "program_register nm desc entry s =
     (if prog_count s \<ge> MAX_PROGRAMS then (s, -1)
      else (s\<lparr>prog_table := (prog_table s)[prog_count s :=
                \<lparr>pg_name = task_strcpy nm PROG_NAME_LEN, pg_desc = task_strcpy desc PROG_DESC_LEN,
                 pg_entry = Some entry, pg_active = True\<rparr>],
              prog_count := prog_count s + 1\<rparr>, 0))"

definition program_find :: "string \<Rightarrow> 'p programs \<Rightarrow> nat option" where
  "program_find nm s = List.find (\<lambda>i. pg_active (prog_table s ! i)
     \<and> task_strcmp (pg_name (prog_table s ! i)) nm = 0) [0..<prog_count s]"

definition program_count :: "'p programs \<Rightarrow> nat" where
  "program_count s = prog_count s"

definition program_table :: "'p programs \<Rightarrow> 'p program list" where
  "program_table s = prog_table s"

section \<open>Invariant\<close>

definition programs_inv :: "'p programs \<Rightarrow> bool" where
  "programs_inv s \<longleftrightarrow> length (prog_table s) = MAX_PROGRAMS \<and> prog_count s \<le> MAX_PROGRAMS
     \<and> (\<forall>i<prog_count s. pg_active (prog_table s ! i) \<and> c_string (pg_name (prog_table s ! i))
          \<and> length (pg_name (prog_table s ! i)) < PROG_NAME_LEN)"

definition prog_name_ok :: "string \<Rightarrow> bool" where
  "prog_name_ok x \<longleftrightarrow> c_string x \<and> length x < PROG_NAME_LEN"

lemma programs_init_inv: "length (prog_table s) = MAX_PROGRAMS \<Longrightarrow> programs_inv (programs_init s)"
  by (simp add: programs_inv_def programs_init_def)

lemma program_register_inv: "programs_inv s \<Longrightarrow> c_string x \<Longrightarrow> programs_inv (fst (program_register x d e s))"
  by (auto simp: programs_inv_def program_register_def task_strcpy_def nth_list_update less_Suc_eq
      length_c_strcpy PROG_NAME_LEN_def)

lemma program_find_cong:
  "(\<And>i. i < prog_count s \<Longrightarrow> pg_active (prog_table s ! i) \<and> pg_name (prog_table s ! i) = f i) \<Longrightarrow>
   program_find x s = List.find (\<lambda>i. task_strcmp (f i) x = 0) [0..<prog_count s]"
  by (auto simp: program_find_def intro!: find_cong)

lemma program_find_eq:
  assumes "programs_inv s" "c_string x"
  shows "program_find x s = List.find (\<lambda>i. pg_name (prog_table s ! i) = x) [0..<prog_count s]"
  using assms by (auto simp: program_find_def programs_inv_def task_strcmp_def c_strcmp_zero intro!: find_cong)

lemma program_find_register:
  assumes "programs_inv s" "prog_name_ok x" "c_string y" "prog_count s < MAX_PROGRAMS"
  shows "program_find y (fst (program_register x d e s)) =
    (case program_find y s of Some i \<Rightarrow> Some i | None \<Rightarrow> if x = y then Some (prog_count s) else None)"
proof -
  let ?t = "fst (program_register x d e s)"
  have t: "prog_count ?t = Suc (prog_count s)" "prog_table ?t ! i = (if i = prog_count s
      then \<lparr>pg_name = x, pg_desc = task_strcpy d PROG_DESC_LEN, pg_entry = Some e, pg_active = True\<rparr>
      else prog_table s ! i)" for i
    using assms by (auto simp: program_register_def programs_inv_def task_strcpy_def prog_name_ok_def
        c_strcpy_short nth_list_update)
  have inv: "programs_inv ?t" using assms by (simp add: program_register_inv prog_name_ok_def)
  have "List.find (\<lambda>i. pg_name (prog_table ?t ! i) = y) [0..<prog_count s] = program_find y s"
    using program_find_eq [OF assms(1,3)] by (auto simp: t(2) intro!: find_cong)
  then show ?thesis
    using program_find_eq [OF inv assms(3)] by (simp add: t find_append split: option.splits)
qed

interpretation ptab: name_table "\<lambda>s x. program_find x s" "\<lambda>x. program_register x (d x) (e x)"
  programs_inv prog_count MAX_PROGRAMS prog_name_ok for d e
proof unfold_locales
  fix s :: "'a programs" and x
  assume s: "programs_inv s" and x: "prog_name_ok x"
  show "programs_inv (fst (program_register x (d x) (e x) s))"
    using s x by (simp add: program_register_inv prog_name_ok_def)
  show "snd (program_register x (d x) (e x) s) = 0
      \<and> prog_count (fst (program_register x (d x) (e x) s)) = Suc (prog_count s)"
    if "prog_count s < MAX_PROGRAMS" using that by (simp add: program_register_def)
  show "program_find x (fst (program_register x (d x) (e x) s)) = Some (prog_count s)"
    if "prog_count s < MAX_PROGRAMS" "program_find x s = None"
    using program_find_register [OF s x, of x] that x by (simp add: prog_name_ok_def)
  show "program_register x (d x) (e x) s = (s, - 1)" if "MAX_PROGRAMS \<le> prog_count s"
    using that by (simp add: program_register_def)
  show "program_find x (fst (program_register x (d x) (e x) s)) = Some i" if "program_find x s = Some i" for i
    using program_find_register [OF s x, of x] that x
    by (cases "prog_count s < MAX_PROGRAMS") (auto simp: prog_name_ok_def program_register_def)
  show "program_find y (fst (program_register x (d x) (e x) s)) = program_find y s"
    if "prog_name_ok y" "x \<noteq> y" for y
    using program_find_register [OF s x, of y] that
    by (cases "prog_count s < MAX_PROGRAMS")
      (auto simp: prog_name_ok_def program_register_def split: option.splits)
qed

text \<open>
  Registering a list of distinct new names in an initialised table makes exactly the first 32 of
  them findable, each at the slot of its position; every later registration is lost.
\<close>

lemma register_all_find:
  assumes "programs_inv s" "prog_count s = 0" "distinct xs" "\<forall>x\<in>set xs. prog_name_ok x" "i < length xs"
  shows "program_find (xs ! i) (insert_all (\<lambda>x. program_register x (d x) (e x)) xs s) =
    (if i < MAX_PROGRAMS then Some i else None)"
proof -
  have "program_find x s = None" for x using assms(2) by (simp add: program_find_def)
  then show ?thesis
    using ptab.insert_all_look [OF assms(1) _ assms(3,5), of d e] assms(2,4) by simp
qed

definition blank_programs :: "'p programs" where
  "blank_programs = \<lparr>prog_table = replicate MAX_PROGRAMS
     \<lparr>pg_name = '''', pg_desc = '''', pg_entry = None, pg_active = False\<rparr>, prog_count = 0\<rparr>"

lemma blank_programs_inv [simp]: "programs_inv blank_programs"
  by (simp add: programs_inv_def blank_programs_def)

end
