(* ===== verification/Vfs.thy ===== *)
theory Vfs
  imports Cstring
begin

text \<open>
  The in-memory file system of \<^verbatim>\<open>src/src/kernel/vfs.c\<close>: a flat array of 128 nodes with one data row
  per node. A node pointer is the node's index, \<open>n->data\<close> the index of the data row it points to. The
  function pointer \<open>n->write\<close>, which no code sets or calls, is an address; \<open>n->read\<close> is a value of a
  type \<open>'r\<close> that the kernel instantiates with its three \<^verbatim>\<open>/proc\<close> readers. Paths and data rows are only ever read as C strings and are modelled by their
  string values. Results are C's \<open>int\<close> codes, \<open>-1\<close> for an error.
\<close>

section \<open>State\<close>

definition VFS_MAX_NODES :: nat where "VFS_MAX_NODES = 128"
definition VFS_PATH_LEN :: nat where "VFS_PATH_LEN = 128"
definition VFS_DATA_MAX :: nat where "VFS_DATA_MAX = 4096"
definition VFS_MAX_PATH_LEN :: nat where "VFS_MAX_PATH_LEN = 256"
definition VFS_MAX_FILE_SIZE :: nat where "VFS_MAX_FILE_SIZE = 4096"
definition MAX_READ_SIZE :: nat where "MAX_READ_SIZE = 4096"

datatype vfs_type = VFS_UNUSED | VFS_FILE | VFS_DIR | VFS_DEV | VFS_LINK

definition VFS_PERM_NONE :: u16 where "VFS_PERM_NONE = 0"
definition VFS_PERM_READ :: u16 where "VFS_PERM_READ = 1"
definition VFS_PERM_WRITE :: u16 where "VFS_PERM_WRITE = 2"
definition VFS_PERM_EXEC :: u16 where "VFS_PERM_EXEC = 4"

record 'r vfs_node =
  nd_path :: string
  nd_type :: vfs_type
  nd_data :: "nat option"
  nd_read :: "'r option"
  nd_write :: u32
  nd_size :: u32
  nd_perm :: u16
  nd_uid :: u16
  nd_gid :: u16

record 'r vfs =
  nodes :: "'r vfs_node list"
  node_count :: nat
  file_data_pool :: "string list"
  file_data_used :: "bool list"

section \<open>String helpers and path validation\<close>

definition vfs_strlen :: "string \<Rightarrow> nat" where
  "vfs_strlen s = length s"

definition vfs_strcpy :: "string \<Rightarrow> nat \<Rightarrow> string" where
  "vfs_strcpy src n = c_strcpy src n"

definition vfs_strcmp :: "string \<Rightarrow> string \<Rightarrow> int" where
  "vfs_strcmp a b = c_strcmp a b"

definition vfs_strncmp :: "string \<Rightarrow> string \<Rightarrow> nat \<Rightarrow> int" where
  "vfs_strncmp a b n = c_strncmp a b n"

fun has_dotdot :: "string \<Rightarrow> bool" where
  "has_dotdot [] = False"
| "has_dotdot (c # p) = (if c = CHR ''.'' \<and> char_at p 0 = CHR ''.'' then True else has_dotdot p)"

definition is_valid_path :: "cstr \<Rightarrow> bool" where
  "is_valid_path path = (case path of None \<Rightarrow> False | Some p \<Rightarrow> if p = [] then False else \<not> has_dotdot p)"

definition is_valid_path_len :: "cstr \<Rightarrow> bool" where
  "is_valid_path_len path = (case path of None \<Rightarrow> False
     | Some p \<Rightarrow> let len = vfs_strlen p in \<not> (len = 0 \<or> len \<ge> VFS_MAX_PATH_LEN))"

section \<open>Operations\<close>

definition vfs_init :: "'r vfs \<Rightarrow> 'r vfs" where
  "vfs_init s = s\<lparr>nodes := map (\<lambda>n. n\<lparr>nd_type := VFS_UNUSED\<rparr>) (nodes s),
     file_data_used := map (\<lambda>_. False) (file_data_used s), node_count := 0\<rparr>"

abbreviation upd_node :: "nat \<Rightarrow> ('r vfs_node \<Rightarrow> 'r vfs_node) \<Rightarrow> 'r vfs \<Rightarrow> 'r vfs" where
  "upd_node i f s \<equiv> s\<lparr>nodes := (nodes s)[i := f (nodes s ! i)]\<rparr>"

definition vfs_alloc :: "'r vfs \<Rightarrow> 'r vfs \<times> nat option" where
  "vfs_alloc s =
     (if node_count s \<ge> VFS_MAX_NODES then (s, None)
      else let i = node_count s; s = s\<lparr>node_count := node_count s + 1\<rparr>
           in (upd_node i (\<lambda>n. n\<lparr>nd_data := None, nd_read := None, nd_size := 0\<rparr>) s, Some i))"

definition vfs_mkdir :: "cstr \<Rightarrow> 'r vfs \<Rightarrow> 'r vfs \<times> int" where
  "vfs_mkdir path s =
     (if \<not> is_valid_path path \<or> \<not> is_valid_path_len path then (s, -1)
      else case vfs_alloc s of (s, None) \<Rightarrow> (s, -1)
        | (s, Some n) \<Rightarrow>
            (upd_node n (\<lambda>x. x\<lparr>nd_path := vfs_strcpy (the path) VFS_PATH_LEN, nd_type := VFS_DIR\<rparr>) s, 0))"

definition vfs_mkfile :: "cstr \<Rightarrow> cstr \<Rightarrow> 'r vfs \<Rightarrow> 'r vfs \<times> int" where
  "vfs_mkfile path content s =
     (if \<not> is_valid_path path \<or> \<not> is_valid_path_len path then (s, -1)
      else case vfs_alloc s of (s, None) \<Rightarrow> (s, -1)
        | (s, Some n) \<Rightarrow>
           let s = upd_node n (\<lambda>x. x\<lparr>nd_path := vfs_strcpy (the path) VFS_PATH_LEN, nd_type := VFS_FILE\<rparr>) s in
           (case content of
              Some c \<Rightarrow>
                let len = vfs_strlen c in
                if len \<ge> VFS_MAX_FILE_SIZE then (s, -1)
                else let s = s\<lparr>file_data_pool := (file_data_pool s)[n := c],
                                file_data_used := (file_data_used s)[n := True]\<rparr>
                     in (upd_node n (\<lambda>x. x\<lparr>nd_data := Some n, nd_size := word_of_nat len,
                           nd_perm := VFS_PERM_READ OR VFS_PERM_WRITE\<rparr>) s, 0)
            | None \<Rightarrow>
                let s = s\<lparr>file_data_pool := (file_data_pool s)[n := ''''],
                          file_data_used := (file_data_used s)[n := True]\<rparr>
                in (upd_node n (\<lambda>x. x\<lparr>nd_data := Some n, nd_size := 0,
                      nd_perm := VFS_PERM_READ OR VFS_PERM_WRITE\<rparr>) s, 0)))"

definition vfs_mkdev :: "cstr \<Rightarrow> 'r vfs \<Rightarrow> 'r vfs \<times> int" where
  "vfs_mkdev path s =
     (if \<not> is_valid_path path \<or> \<not> is_valid_path_len path then (s, -1)
      else case vfs_alloc s of (s, None) \<Rightarrow> (s, -1)
        | (s, Some n) \<Rightarrow>
            (upd_node n (\<lambda>x. x\<lparr>nd_path := vfs_strcpy (the path) VFS_PATH_LEN, nd_type := VFS_DEV\<rparr>) s, 0))"

definition vfs_mkproc :: "cstr \<Rightarrow> 'r option \<Rightarrow> 'r vfs \<Rightarrow> 'r vfs \<times> int" where
  "vfs_mkproc path read_fn s =
     (if \<not> is_valid_path path \<or> \<not> is_valid_path_len path then (s, -1)
      else case vfs_alloc s of (s, None) \<Rightarrow> (s, -1)
        | (s, Some n) \<Rightarrow>
            (upd_node n (\<lambda>x. x\<lparr>nd_path := vfs_strcpy (the path) VFS_PATH_LEN, nd_type := VFS_FILE,
               nd_read := read_fn\<rparr>) s, 0))"

definition vfs_lookup :: "cstr \<Rightarrow> 'r vfs \<Rightarrow> nat option" where
  "vfs_lookup path s =
     (if \<not> is_valid_path path then None
      else List.find (\<lambda>i. nd_type (nodes s ! i) \<noteq> VFS_UNUSED
             \<and> vfs_strcmp (nd_path (nodes s ! i)) (the path) = 0) [0..<node_count s])"

definition is_direct_child :: "string \<Rightarrow> string \<Rightarrow> bool" where
  "is_direct_child parent child_path =
     (let plen = vfs_strlen parent in
      if vfs_strcmp parent ''/'' = 0 then
        if char_at child_path 0 \<noteq> CHR ''/'' \<or> vfs_strlen child_path < 2 then False
        else CHR ''/'' \<notin> set (drop 1 child_path)
      else if vfs_strncmp child_path parent plen \<noteq> 0 then False
      else if char_at child_path plen \<noteq> CHR ''/'' then False
      else if CHR ''/'' \<in> set (drop (plen + 1) child_path) then False
      else char_at child_path (plen + 1) \<noteq> NUL)"

fun basename_loop :: "string \<Rightarrow> string \<Rightarrow> string" where
  "basename_loop l [] = l"
| "basename_loop l (c # p) = basename_loop (if c = CHR ''/'' \<and> p \<noteq> [] then p else l) p"

definition vfs_basename :: "string \<Rightarrow> string" where
  "vfs_basename path = basename_loop path path"

definition vfs_list :: "string \<Rightarrow> nat \<Rightarrow> 'r vfs \<Rightarrow> nat list" where
  "vfs_list dir n s = take n (filter (\<lambda>i. nd_type (nodes s ! i) \<noteq> VFS_UNUSED
     \<and> is_direct_child dir (nd_path (nodes s ! i))) [0..<node_count s])"

text \<open>
  \<open>vfs_read\<close> returns its result code and what it stores into the caller's buffer as a C string, if
  anything; \<open>buf\<close> tells whether the buffer pointer is non-null, \<open>call\<close> runs a reader function.
\<close>

definition vfs_read :: "('r \<Rightarrow> nat \<Rightarrow> int \<times> string) \<Rightarrow> cstr \<Rightarrow> bool \<Rightarrow> nat \<Rightarrow> 'r vfs \<Rightarrow> int \<times> string option" where
  "vfs_read call path buf sz s =
     (if \<not> buf \<or> sz = 0 then (-1, None)
      else let sz = (if sz > MAX_READ_SIZE then MAX_READ_SIZE else sz) in
        (case vfs_lookup path s of None \<Rightarrow> (-1, None)
         | Some i \<Rightarrow> let n = nodes s ! i in
            (if nd_type n = VFS_DIR then (-1, None)
             else if (nd_perm n AND VFS_PERM_READ) = 0 \<and> nd_read n = None then (-1, None)
             else (case nd_read n of
                Some f \<Rightarrow> (case call f sz of (r, out) \<Rightarrow> (r, Some out))
              | None \<Rightarrow> (case nd_data n of
                  Some row \<Rightarrow>
                    (let d = file_data_pool s ! row; len = vfs_strlen d;
                         len = (if len > sz - 1 then sz - 1 else len)
                     in (int len, Some (take len d)))
                | None \<Rightarrow> (0, Some ''''))))))"

definition vfs_write :: "cstr \<Rightarrow> (char list) option \<Rightarrow> nat \<Rightarrow> 'r vfs \<Rightarrow> 'r vfs \<times> int" where
  "vfs_write path data sz s =
     (case (path, data) of (Some p, Some d) \<Rightarrow>
        (case vfs_lookup path s of None \<Rightarrow> (s, -1)
         | Some i \<Rightarrow> let n = nodes s ! i in
             if nd_type n \<noteq> VFS_FILE \<or> nd_read n \<noteq> None then (s, -1)
             else if (nd_perm n AND VFS_PERM_WRITE) = 0 then (s, -1)
             else let sz = (if sz \<ge> VFS_DATA_MAX then VFS_DATA_MAX - 1 else sz);
                      s = s\<lparr>file_data_pool := (file_data_pool s)[i := as_cstr (map (char_at d) [0..<sz])],
                            file_data_used := (file_data_used s)[i := True]\<rparr>
                  in (upd_node i (\<lambda>x. x\<lparr>nd_data := Some i, nd_size := word_of_nat sz\<rparr>) s, int sz))
      | _ \<Rightarrow> (s, -1))"

definition vfs_remove :: "cstr \<Rightarrow> 'r vfs \<Rightarrow> 'r vfs \<times> int" where
  "vfs_remove path s =
     (if \<not> is_valid_path path then (s, -1)
      else case List.find (\<lambda>i. nd_type (nodes s ! i) \<noteq> VFS_UNUSED
                 \<and> vfs_strcmp (nd_path (nodes s ! i)) (the path) = 0) [0..<node_count s] of
        None \<Rightarrow> (s, -1)
      | Some i \<Rightarrow>
          if (nd_perm (nodes s ! i) AND VFS_PERM_WRITE) = 0 then (s, -1)
          else let s = upd_node i (\<lambda>x. x\<lparr>nd_type := VFS_UNUSED, nd_path := '''', nd_data := None, nd_size := 0\<rparr>) s
               in (s\<lparr>file_data_used := (file_data_used s)[i := False],
                     file_data_pool := (file_data_pool s)[i := '''']\<rparr>, 0))"

definition vfs_rename :: "cstr \<Rightarrow> cstr \<Rightarrow> 'r vfs \<Rightarrow> 'r vfs \<times> int" where
  "vfs_rename old_path new_path s =
     (if \<not> is_valid_path old_path \<or> \<not> is_valid_path new_path \<or> \<not> is_valid_path_len new_path then (s, -1)
      else case vfs_lookup old_path s of None \<Rightarrow> (s, -1)
        | Some i \<Rightarrow>
            if (nd_perm (nodes s ! i) AND VFS_PERM_WRITE) = 0 \<and> nd_type (nodes s ! i) = VFS_FILE then (s, -1)
            else if vfs_lookup new_path s \<noteq> None then (s, -1)
            else (upd_node i (\<lambda>x. x\<lparr>nd_path := vfs_strcpy (the new_path) VFS_PATH_LEN\<rparr>) s, 0))"

definition vfs_chmod :: "cstr \<Rightarrow> u16 \<Rightarrow> 'r vfs \<Rightarrow> 'r vfs \<times> int" where
  "vfs_chmod path perm s =
     (case vfs_lookup path s of None \<Rightarrow> (s, -1)
      | Some i \<Rightarrow> (upd_node i (\<lambda>x. x\<lparr>nd_perm := perm\<rparr>) s, 0))"

end
