(* ===== verification/Vfs_Inv.thy ===== *)
theory Vfs_Inv
  imports Vfs
begin

text \<open>
  The invariant of the file system, its preservation by every operation of \<^verbatim>\<open>vfs.c\<close>, and the
  refinement of the node array by a map from paths to entries.
\<close>

section \<open>Paths\<close>

lemma has_dotdot_iff: "has_dotdot p \<longleftrightarrow> (\<exists>a b. p = a @ ''..'' @ b)"
proof (induction p)
  case (Cons c p)
  have "(\<exists>a b. c # p = a @ ''..'' @ b) \<longleftrightarrow> (c = CHR ''.'' \<and> (\<exists>b. p = CHR ''.'' # b)) \<or> (\<exists>a b. p = a @ ''..'' @ b)"
    (is "?l \<longleftrightarrow> ?r")
  proof
    assume ?l
    then obtain a b where "c # p = a @ ''..'' @ b" by blast
    then show ?r by (cases a) auto
  next
    assume ?r
    then show ?l
    proof
      assume "c = CHR ''.'' \<and> (\<exists>b. p = CHR ''.'' # b)"
      then obtain b where "c # p = [] @ ''..'' @ b" by auto
      then show ?l by blast
    next
      assume "\<exists>a b. p = a @ ''..'' @ b"
      then obtain a b where "c # p = (c # a) @ ''..'' @ b" by auto
      then show ?l by blast
    qed
  qed
  moreover have "char_at p 0 = CHR ''.'' \<longleftrightarrow> (\<exists>b. p = CHR ''.'' # b)"
    by (cases p) (auto simp: char_at_def)
  ultimately show ?case using Cons.IH by auto
qed simp

lemma has_dotdot_take: "has_dotdot (take n p) \<Longrightarrow> has_dotdot p"
  unfolding has_dotdot_iff by (metis append.assoc append_take_drop_id)

text \<open>A C string that \<open>vfs.c\<close> accepts as a path and can store without cutting it.\<close>

definition path_ok :: "string \<Rightarrow> bool" where
  "path_ok p \<longleftrightarrow> c_string p \<and> p \<noteq> [] \<and> \<not> has_dotdot p \<and> length p < VFS_PATH_LEN"

lemma is_valid_path_Some: "is_valid_path (Some p) \<longleftrightarrow> p \<noteq> [] \<and> \<not> has_dotdot p"
  by (simp add: is_valid_path_def)

lemma is_valid_path_len_Some: "is_valid_path_len (Some p) \<longleftrightarrow> p \<noteq> [] \<and> length p < 256"
  by (auto simp: is_valid_path_len_def vfs_strlen_def VFS_MAX_PATH_LEN_def Let_def)

lemma path_ok_valid: "path_ok p \<Longrightarrow> is_valid_path (Some p) \<and> is_valid_path_len (Some p)"
  by (simp add: path_ok_def is_valid_path_Some is_valid_path_len_Some VFS_PATH_LEN_def)

definition cstr_ok :: "cstr \<Rightarrow> bool" where
  "cstr_ok p = (case p of None \<Rightarrow> True | Some s \<Rightarrow> c_string s)"

lemma stored_path_ok:
  "is_valid_path path \<Longrightarrow> cstr_ok path \<Longrightarrow> path_ok (vfs_strcpy (the path) VFS_PATH_LEN)"
  by (auto simp: is_valid_path_def cstr_ok_def path_ok_def vfs_strcpy_def length_c_strcpy VFS_PATH_LEN_def
      c_strcpy_def dest: has_dotdot_take split: option.splits if_splits)

section \<open>Invariant\<close>

definition node_ok :: "'r vfs \<Rightarrow> nat \<Rightarrow> bool" where
  "node_ok s i \<longleftrightarrow>
     (let n = nodes s ! i in
      (nd_type n \<noteq> VFS_UNUSED \<longrightarrow> i < node_count s \<and> path_ok (nd_path n))
      \<and> c_string (file_data_pool s ! i) \<and> length (file_data_pool s ! i) < VFS_DATA_MAX
      \<and> (i < node_count s \<longrightarrow> (case nd_data n of None \<Rightarrow> True
          | Some row \<Rightarrow> row = i \<and> file_data_used s ! i
              \<and> length (file_data_pool s ! i) \<le> unat (nd_size n) \<and> unat (nd_size n) < VFS_DATA_MAX)))"

definition vfs_inv :: "'r vfs \<Rightarrow> bool" where
  "vfs_inv s \<longleftrightarrow> length (nodes s) = VFS_MAX_NODES \<and> length (file_data_pool s) = VFS_MAX_NODES
     \<and> length (file_data_used s) = VFS_MAX_NODES \<and> node_count s \<le> VFS_MAX_NODES
     \<and> (\<forall>i<VFS_MAX_NODES. node_ok s i)"

lemma vfs_invD:
  assumes "vfs_inv s"
  shows "length (nodes s) = VFS_MAX_NODES" "length (file_data_pool s) = VFS_MAX_NODES"
    "length (file_data_used s) = VFS_MAX_NODES" "node_count s \<le> VFS_MAX_NODES"
    "i < VFS_MAX_NODES \<Longrightarrow> node_ok s i"
  using assms by (auto simp: vfs_inv_def)

text \<open>
  An operation that changes node \<open>k\<close> and row \<open>k\<close> only keeps the invariant when node \<open>k\<close> is well
  formed afterwards.
\<close>

definition only_node :: "nat \<Rightarrow> 'r vfs \<Rightarrow> 'r vfs \<Rightarrow> bool" where
  "only_node k s t \<longleftrightarrow> length (nodes t) = length (nodes s) \<and> length (file_data_pool t) = length (file_data_pool s)
     \<and> length (file_data_used t) = length (file_data_used s)
     \<and> (\<forall>i. i \<noteq> k \<longrightarrow> nodes t ! i = nodes s ! i \<and> file_data_pool t ! i = file_data_pool s ! i
          \<and> file_data_used t ! i = file_data_used s ! i)"

lemma only_node_refl [simp]: "only_node k s s"
  by (simp add: only_node_def)

lemma only_node_upd [simp]:
  "only_node k s (t\<lparr>nodes := (nodes t)[k := v]\<rparr>) \<longleftrightarrow> only_node k s t"
  "only_node k s (t\<lparr>file_data_pool := (file_data_pool t)[k := d]\<rparr>) \<longleftrightarrow> only_node k s t"
  "only_node k s (t\<lparr>file_data_used := (file_data_used t)[k := u]\<rparr>) \<longleftrightarrow> only_node k s t"
  "only_node k s (t\<lparr>file_data_pool := (file_data_pool t)[k := d], file_data_used := (file_data_used t)[k := u]\<rparr>)
     \<longleftrightarrow> only_node k s t"
  "only_node k s (t\<lparr>node_count := c\<rparr>) \<longleftrightarrow> only_node k s t"
  by (auto simp: only_node_def)

lemma vfs_inv_only_node:
  assumes inv: "vfs_inv s" and o: "only_node k s t" and k: "node_ok t k"
    and count: "node_count t = node_count s \<or> node_count s = k \<and> node_count t = Suc k \<and> k < VFS_MAX_NODES"
  shows "vfs_inv t"
proof -
  have "node_ok t i" if i: "i < VFS_MAX_NODES" for i
  proof (cases "i = k")
    case False
    then have "(i < node_count t) = (i < node_count s)" using count by auto
    then show ?thesis
      using vfs_invD(5) [OF inv i] o False by (simp add: node_ok_def only_node_def Let_def split: option.splits)
  qed (use k in simp)
  then show ?thesis
    using inv o count by (auto simp: vfs_inv_def only_node_def)
qed


text \<open>Nodes are found at indices below the count, and hold the path that was asked for.\<close>

lemma vfs_lookup_Some:
  assumes "vfs_inv s" "cstr_ok path" "vfs_lookup path s = Some i"
  shows "i < node_count s" "i < VFS_MAX_NODES" "nd_type (nodes s ! i) \<noteq> VFS_UNUSED"
    "path = Some (nd_path (nodes s ! i))"
proof -
  from assms(3) obtain p where p: "path = Some p" "is_valid_path path"
    by (cases path) (auto simp: vfs_lookup_def is_valid_path_def split: if_splits)
  have f: "i < node_count s" "nd_type (nodes s ! i) \<noteq> VFS_UNUSED" "vfs_strcmp (nd_path (nodes s ! i)) p = 0"
    using assms(3) p by (simp_all add: vfs_lookup_def find_upt_Some)
  then show i: "i < node_count s" "i < VFS_MAX_NODES" using vfs_invD(4) [OF assms(1)] by auto
  show "nd_type (nodes s ! i) \<noteq> VFS_UNUSED" by (fact f)
  have "c_string (nd_path (nodes s ! i))"
    using vfs_invD(5) [OF assms(1) i(2)] f by (simp add: node_ok_def Let_def path_ok_def)
  then show "path = Some (nd_path (nodes s ! i))"
    using f(3) p assms(2) by (simp add: vfs_strcmp_def c_strcmp_zero cstr_ok_def)
qed

lemma vfs_alloc_cases:
  assumes "vfs_alloc s = (t, r)"
  obtains (full) "node_count s \<ge> VFS_MAX_NODES" "t = s" "r = None"
  | (slot) "node_count s < VFS_MAX_NODES" "r = Some (node_count s)" "node_count t = Suc (node_count s)"
      "only_node (node_count s) s t" "file_data_pool t = file_data_pool s" "file_data_used t = file_data_used s"
      "node_count s < length (nodes s) \<Longrightarrow> nodes t ! node_count s =
         (nodes s ! node_count s)\<lparr>nd_data := None, nd_read := None, nd_size := 0\<rparr>"
  using assms by (auto simp: vfs_alloc_def Let_def only_node_def split: if_splits)

section \<open>Every operation keeps the invariant\<close>

lemma vfs_init_inv:
  assumes "length (nodes s) = VFS_MAX_NODES" "length (file_data_pool s) = VFS_MAX_NODES"
    "length (file_data_used s) = VFS_MAX_NODES"
    "\<forall>d\<in>set (file_data_pool s). c_string d \<and> length d < VFS_DATA_MAX"
  shows "vfs_inv (vfs_init s)"
  using assms by (auto simp: vfs_inv_def vfs_init_def node_ok_def Let_def)

lemma vfs_make_inv:
  assumes inv: "vfs_inv s" and alloc: "vfs_alloc s = (t, Some k)"
    and o: "only_node k t u" and c: "node_count u = node_count t" and ok: "node_ok u k"
  shows "vfs_inv u"
  using alloc
proof (cases rule: vfs_alloc_cases)
  case slot
  then have "only_node k s u" using o by (auto simp: only_node_def)
  then show ?thesis using vfs_inv_only_node [OF inv _ ok] c slot by auto
qed simp

lemma vfs_alloc_node:
  assumes inv: "vfs_inv s" and alloc: "vfs_alloc s = (t, Some k)"
  shows "k = node_count s" "k < VFS_MAX_NODES" "node_count t = Suc k"
    "k < length (nodes t)" "k < length (file_data_pool t)" "k < length (file_data_used t)"
    "nd_data (nodes t ! k) = None" "nd_read (nodes t ! k) = None" "nd_size (nodes t ! k) = 0"
    "c_string (file_data_pool t ! k)" "length (file_data_pool t ! k) < VFS_DATA_MAX"
proof -
  show k: "k = node_count s" "k < VFS_MAX_NODES" "node_count t = Suc k"
    using alloc by (auto elim: vfs_alloc_cases)
  have o: "only_node k s t" "file_data_pool t = file_data_pool s" using alloc by (auto elim: vfs_alloc_cases)
  show "k < length (nodes t)" "k < length (file_data_pool t)" "k < length (file_data_used t)"
    using o k vfs_invD(1-3) [OF inv] by (auto simp: only_node_def)
  have "nodes t ! k = (nodes s ! k)\<lparr>nd_data := None, nd_read := None, nd_size := 0\<rparr>"
    using alloc k vfs_invD(1) [OF inv] by (auto elim: vfs_alloc_cases)
  then show "nd_data (nodes t ! k) = None" "nd_read (nodes t ! k) = None" "nd_size (nodes t ! k) = 0" by simp_all
  show "c_string (file_data_pool t ! k)" "length (file_data_pool t ! k) < VFS_DATA_MAX"
    using vfs_invD(5) [OF inv k(2)] o by (simp_all add: node_ok_def Let_def)
qed


text \<open>
  The four constructors share one shape: the new node gets the cut path, a type and possibly a data
  row; everything else is kept.
\<close>

definition made :: "'r vfs \<Rightarrow> string \<Rightarrow> vfs_type \<Rightarrow> cstr \<Rightarrow> 'r option \<Rightarrow> 'r vfs \<Rightarrow> bool" where
  "made s p ty d rd t \<longleftrightarrow> (let k = node_count s in
     k < VFS_MAX_NODES \<and> node_count t = Suc k \<and> only_node k s t \<and> vfs_inv t
     \<and> nd_path (nodes t ! k) = vfs_strcpy p VFS_PATH_LEN \<and> nd_type (nodes t ! k) = ty
     \<and> nd_read (nodes t ! k) = rd
     \<and> (case d of None \<Rightarrow> nd_data (nodes t ! k) = None \<and> nd_perm (nodes t ! k) = nd_perm (nodes s ! k)
         | Some c \<Rightarrow> nd_data (nodes t ! k) = Some k \<and> file_data_pool t ! k = c \<and> file_data_used t ! k
             \<and> nd_perm (nodes t ! k) = VFS_PERM_READ OR VFS_PERM_WRITE))"

lemma madeI:
  assumes inv: "vfs_inv s" and alloc: "vfs_alloc s = (t, Some k)"
    and p: "is_valid_path (Some p)" "c_string p" and ty: "ty \<noteq> VFS_UNUSED"
    and f: "nd_path (f (nodes t ! k)) = vfs_strcpy p VFS_PATH_LEN" "nd_type (f (nodes t ! k)) = ty"
      "nd_read (f (nodes t ! k)) = rd" "nd_data (f (nodes t ! k)) = None"
      "nd_perm (f (nodes t ! k)) = nd_perm (nodes t ! k)"
  shows "made s p ty None rd (upd_node k f t)" (is "made s p ty None rd ?u")
proof -
  note a = vfs_alloc_node [OF inv alloc]
  have o: "only_node k s t" and perm: "nd_perm (nodes t ! k) = nd_perm (nodes s ! k)"
    using alloc a vfs_invD(1) [OF inv] by (auto elim!: vfs_alloc_cases)
  have path: "path_ok (vfs_strcpy p VFS_PATH_LEN)" using stored_path_ok [OF p(1)] p(2) by (simp add: cstr_ok_def)
  have "node_ok ?u k" using a path f by (simp add: node_ok_def Let_def)
  then have "vfs_inv ?u" using vfs_make_inv [OF inv alloc] by simp
  then show ?thesis using a o perm f by (simp add: made_def Let_def)
qed

lemma made_contentI:
  assumes inv: "vfs_inv s" and alloc: "vfs_alloc s = (t, Some k)"
    and p: "is_valid_path (Some p)" "c_string p" and c: "c_string c" "length c < VFS_DATA_MAX"
    and u: "only_node k t u" "node_count u = node_count t" "file_data_pool u ! k = c" "file_data_used u ! k"
    and n: "nd_path (nodes u ! k) = vfs_strcpy p VFS_PATH_LEN" "nd_type (nodes u ! k) = VFS_FILE"
      "nd_read (nodes u ! k) = None" "nd_data (nodes u ! k) = Some k"
      "nd_size (nodes u ! k) = word_of_nat (length c)" "nd_perm (nodes u ! k) = VFS_PERM_READ OR VFS_PERM_WRITE"
  shows "made s p VFS_FILE (Some c) None u"
proof -
  note a = vfs_alloc_node [OF inv alloc]
  have o: "only_node k s t" using alloc a by (auto elim!: vfs_alloc_cases)
  have path: "path_ok (vfs_strcpy p VFS_PATH_LEN)" using stored_path_ok [OF p(1)] p(2) by (simp add: cstr_ok_def)
  have sz: "unat (word_of_nat (length c) :: u32) = length c" using c(2) by (simp add: unat_of_nat_u32 VFS_DATA_MAX_def)
  have "node_ok u k" using a path n c sz u by (simp add: node_ok_def Let_def)
  then have "vfs_inv u" "only_node k s u" using vfs_make_inv [OF inv alloc, of u] o u
    by (auto simp: only_node_def)
  then show ?thesis using a n u by (simp add: made_def Let_def)
qed

lemma new_node_cases:
  assumes "cstr_ok path"
  obtains (err) "\<not> is_valid_path path \<or> \<not> is_valid_path_len path \<or> vfs_alloc s = (s, None)"
  | (ok) p t k where "path = Some p" "c_string p" "is_valid_path (Some p)" "is_valid_path_len (Some p)"
      "vfs_alloc s = (t, Some k)"
proof (cases "is_valid_path path \<and> is_valid_path_len path \<and> node_count s < VFS_MAX_NODES")
  case True
  then obtain t k p where "vfs_alloc s = (t, Some k)" "path = Some p"
    by (cases path) (auto simp: vfs_alloc_def is_valid_path_def Let_def)
  then show ?thesis using ok True assms by (auto simp: cstr_ok_def)
qed (use err in \<open>auto simp: vfs_alloc_def\<close>)

lemma vfs_mkdir_cases:
  assumes "vfs_inv s" "cstr_ok path"
  obtains (err) "vfs_mkdir path s = (s, -1)"
  | (ok) p t where "path = Some p" "vfs_mkdir path s = (t, 0)" "made s p VFS_DIR None None t"
  using assms(2)
proof (cases rule: new_node_cases [where s = s])
  case (ok p t k)
  show ?thesis
    by (rule that(2) [OF ok(1)])
      (use ok assms(1) in \<open>auto simp: vfs_mkdir_def vfs_alloc_node intro!: madeI\<close>)
qed (use that(1) in \<open>auto simp: vfs_mkdir_def\<close>)

lemma vfs_mkdev_cases:
  assumes "vfs_inv s" "cstr_ok path"
  obtains (err) "vfs_mkdev path s = (s, -1)"
  | (ok) p t where "path = Some p" "vfs_mkdev path s = (t, 0)" "made s p VFS_DEV None None t"
  using assms(2)
proof (cases rule: new_node_cases [where s = s])
  case (ok p t k)
  show ?thesis
    by (rule that(2) [OF ok(1)])
      (use ok assms(1) in \<open>auto simp: vfs_mkdev_def vfs_alloc_node intro!: madeI\<close>)
qed (use that(1) in \<open>auto simp: vfs_mkdev_def\<close>)

lemma vfs_mkproc_cases:
  assumes "vfs_inv s" "cstr_ok path"
  obtains (err) "vfs_mkproc path rd s = (s, -1)"
  | (ok) p t where "path = Some p" "vfs_mkproc path rd s = (t, 0)" "made s p VFS_FILE None rd t"
  using assms(2)
proof (cases rule: new_node_cases [where s = s])
  case (ok p t k)
  show ?thesis
    by (rule that(2) [OF ok(1)])
      (use ok assms(1) in \<open>auto simp: vfs_mkproc_def vfs_alloc_node intro!: madeI\<close>)
qed (use that(1) in \<open>auto simp: vfs_mkproc_def\<close>)

text \<open>A file whose content is too long is refused, but its node stays behind without data.\<close>

lemma vfs_mkfile_cases:
  assumes "vfs_inv s" "cstr_ok path" "cstr_ok content"
  obtains (err) "vfs_mkfile path content s = (s, -1)"
  | (oversize) p t c where "path = Some p" "content = Some c" "length c \<ge> VFS_MAX_FILE_SIZE"
      "vfs_mkfile path content s = (t, -1)" "made s p VFS_FILE None None t"
  | (ok) p t where "path = Some p" "vfs_mkfile path content s = (t, 0)"
      "made s p VFS_FILE (Some (case content of None \<Rightarrow> '''' | Some c \<Rightarrow> c)) None t"
  using assms(2)
proof (cases rule: new_node_cases [where s = s])
  case (ok p t k)
  note a = vfs_alloc_node [OF assms(1) ok(5)]
  note simps = vfs_mkfile_def ok Let_def vfs_strlen_def VFS_MAX_FILE_SIZE_def
  show ?thesis
  proof (cases content)
    case None
    show ?thesis
      by (rule that(3) [OF ok(1)])
        (use ok a None assms(1) in \<open>auto simp: simps VFS_DATA_MAX_def only_node_def intro!: made_contentI\<close>)
  next
    case (Some c)
    show ?thesis
    proof (cases "length c \<ge> VFS_MAX_FILE_SIZE")
      case True
      show ?thesis
        by (rule that(2) [OF ok(1) Some True])
          (use ok a Some True assms(1) in \<open>auto simp: simps intro!: madeI\<close>)
    next
      case False
      show ?thesis
        by (rule that(3) [OF ok(1)])
          (use ok a Some False assms in \<open>auto simp: simps VFS_DATA_MAX_def cstr_ok_def only_node_def intro!: made_contentI\<close>)
    qed
  qed
qed (use that(1) in \<open>auto simp: vfs_mkfile_def\<close>)


lemma vfs_write_inv:
  assumes inv: "vfs_inv s" and p: "cstr_ok path"
  shows "vfs_inv (fst (vfs_write path data sz s))"
proof (cases "fst (vfs_write path data sz s) = s")
  case False
  then obtain i d where i: "vfs_lookup path s = Some i" and d: "data = Some d" "path \<noteq> None"
    by (auto simp: vfs_write_def split: option.splits)
  let ?n = "min sz (VFS_DATA_MAX - 1)" and ?t = "fst (vfs_write path data sz s)"
  note l = vfs_lookup_Some [OF inv p i]
  have len: "length (nodes s) = 128" "length (file_data_pool s) = 128" "length (file_data_used s) = 128" "i < 128"
    using vfs_invD(1-3) [OF inv] l by (simp_all add: VFS_MAX_NODES_def)
  have t: "only_node i s ?t" "node_count ?t = node_count s"
    using i d by (auto simp: vfs_write_def only_node_def Let_def split: option.splits)
  have row: "file_data_pool ?t ! i = as_cstr (map (char_at d) [0..<?n])" "file_data_used ?t ! i"
    "nodes ?t ! i = (nodes s ! i)\<lparr>nd_data := Some i, nd_size := word_of_nat ?n\<rparr>"
    using False i d len by (auto simp: vfs_write_def Let_def VFS_DATA_MAX_def min_def split: if_splits option.splits)
  have "length (as_cstr (map (char_at d) [0..<?n])) \<le> ?n" by (rule order_trans [OF length_as_cstr]) simp
  moreover have "unat (word_of_nat ?n :: u32) = ?n" by (simp add: unat_of_nat_u32 VFS_DATA_MAX_def min_def)
  ultimately have "node_ok ?t i"
    using vfs_invD(5) [OF inv l(2)] row t by (auto simp: node_ok_def Let_def VFS_DATA_MAX_def)
  then show ?thesis using vfs_inv_only_node [OF inv t(1)] t by simp
qed (use inv in simp)

lemma find_live_lookup:
  "is_valid_path path \<Longrightarrow> List.find (\<lambda>i. nd_type (nodes s ! i) \<noteq> VFS_UNUSED
     \<and> vfs_strcmp (nd_path (nodes s ! i)) (the path) = 0) [0..<node_count s] = vfs_lookup path s"
  by (simp add: vfs_lookup_def)

lemma vfs_lookup_valid: "vfs_lookup path s = Some i \<Longrightarrow> is_valid_path path"
  by (auto simp: vfs_lookup_def split: if_splits)

lemma vfs_lookup_invalid: "\<not> is_valid_path path \<Longrightarrow> vfs_lookup path s = None"
  by (simp add: vfs_lookup_def)

lemma vfs_remove_eq:
  "vfs_remove path s = (case vfs_lookup path s of None \<Rightarrow> (s, -1)
     | Some i \<Rightarrow> if (nd_perm (nodes s ! i) AND VFS_PERM_WRITE) = 0 then (s, -1)
         else (s\<lparr>nodes := (nodes s)[i := (nodes s ! i)\<lparr>nd_type := VFS_UNUSED, nd_path := '''', nd_data := None, nd_size := 0\<rparr>],
                 file_data_used := (file_data_used s)[i := False], file_data_pool := (file_data_pool s)[i := '''']\<rparr>, 0))"
  by (cases "is_valid_path path")
    (simp_all add: vfs_remove_def find_live_lookup vfs_lookup_invalid Let_def cong: option.case_cong if_cong)

lemma vfs_inv_upd_node:
  assumes inv: "vfs_inv s" and i: "i < node_count s"
    and f: "nd_data (f (nodes s ! i)) = nd_data (nodes s ! i)" "nd_size (f (nodes s ! i)) = nd_size (nodes s ! i)"
      "path_ok (nd_path (f (nodes s ! i)))"
  shows "vfs_inv (upd_node i f s)"
proof (rule vfs_inv_only_node [OF inv, of i])
  have "i < VFS_MAX_NODES" using i vfs_invD(4) [OF inv] by simp
  then show "node_ok (upd_node i f s) i"
    using vfs_invD(5) [OF inv, of i] i f vfs_invD(1) [OF inv] by (auto simp: node_ok_def Let_def split: option.splits)
qed simp_all

lemma vfs_remove_inv:
  assumes inv: "vfs_inv s" and p: "cstr_ok path"
  shows "vfs_inv (fst (vfs_remove path s))"
proof (cases "vfs_lookup path s")
  case (Some i)
  note l = vfs_lookup_Some [OF inv p Some]
  show ?thesis
  proof (cases "nd_perm (nodes s ! i) AND VFS_PERM_WRITE = 0")
    case False
    show ?thesis
      by (rule vfs_inv_only_node [OF inv, of i])
        (use Some False l vfs_invD [OF inv] in \<open>auto simp: vfs_remove_eq only_node_def node_ok_def Let_def VFS_DATA_MAX_def\<close>)
  qed (use inv Some in \<open>simp add: vfs_remove_eq\<close>)
qed (use inv in \<open>simp add: vfs_remove_eq\<close>)

lemma vfs_rename_cases:
  obtains (err) "vfs_rename old_path new_path s = (s, -1)"
  | (ok) i where "vfs_lookup old_path s = Some i" "is_valid_path new_path" "is_valid_path_len new_path"
      "vfs_lookup new_path s = None" "\<not> ((nd_perm (nodes s ! i) AND VFS_PERM_WRITE) = 0 \<and> nd_type (nodes s ! i) = VFS_FILE)"
      "vfs_rename old_path new_path s =
         (upd_node i (\<lambda>x. x\<lparr>nd_path := vfs_strcpy (the new_path) VFS_PATH_LEN\<rparr>) s, 0)"
proof (cases "vfs_rename old_path new_path s = (s, -1)")
  case False
  then obtain i where "vfs_lookup old_path s = Some i"
    by (auto simp: vfs_rename_def split: option.splits if_splits)
  then show ?thesis using False ok by (auto simp: vfs_rename_def split: if_splits)
qed (use err in simp)

lemma vfs_rename_inv:
  assumes inv: "vfs_inv s" and p: "cstr_ok old_path" "cstr_ok new_path"
  shows "vfs_inv (fst (vfs_rename old_path new_path s))"
proof (cases rule: vfs_rename_cases [of old_path new_path s])
  case (ok i)
  then show ?thesis
    using vfs_inv_upd_node [OF inv, of i] vfs_lookup_Some [OF inv p(1)] stored_path_ok [OF _ p(2)] by simp
qed (use inv in simp)

lemma vfs_chmod_inv:
  assumes inv: "vfs_inv s" and p: "cstr_ok path"
  shows "vfs_inv (fst (vfs_chmod path perm s))"
proof (cases "vfs_lookup path s")
  case (Some i)
  note l = vfs_lookup_Some [OF inv p(1) Some]
  have "path_ok (nd_path (nodes s ! i))"
    using vfs_invD(5) [OF inv l(2)] l(3) by (simp add: node_ok_def Let_def)
  then show ?thesis using vfs_inv_upd_node [OF inv l(1)] Some by (simp add: vfs_chmod_def)
qed (use inv in \<open>simp add: vfs_chmod_def\<close>)

section \<open>Reachable states\<close>

inductive vfs_step :: "'r vfs \<Rightarrow> 'r vfs \<Rightarrow> bool" where
  mkdir: "cstr_ok p \<Longrightarrow> vfs_step s (fst (vfs_mkdir p s))"
| mkfile: "cstr_ok p \<Longrightarrow> cstr_ok c \<Longrightarrow> vfs_step s (fst (vfs_mkfile p c s))"
| mkdev: "cstr_ok p \<Longrightarrow> vfs_step s (fst (vfs_mkdev p s))"
| mkproc: "cstr_ok p \<Longrightarrow> vfs_step s (fst (vfs_mkproc p rd s))"
| wr: "cstr_ok p \<Longrightarrow> vfs_step s (fst (vfs_write p d n s))"
| remove: "cstr_ok p \<Longrightarrow> vfs_step s (fst (vfs_remove p s))"
| rename: "cstr_ok p \<Longrightarrow> cstr_ok q \<Longrightarrow> vfs_step s (fst (vfs_rename p q s))"
| chmod: "cstr_ok p \<Longrightarrow> vfs_step s (fst (vfs_chmod p m s))"
| init: "vfs_step s (vfs_init s)"

lemma made_inv: "made s p ty c rd t \<Longrightarrow> vfs_inv t"
  by (simp add: made_def Let_def)

lemma vfs_step_inv: "vfs_step s t \<Longrightarrow> vfs_inv s \<Longrightarrow> vfs_inv t"
proof (induction rule: vfs_step.induct)
  case (mkdir p s)
  then show ?case by (cases rule: vfs_mkdir_cases [OF mkdir(2,1)]) (auto intro: made_inv)
next
  case (mkfile p c s)
  then show ?case by (cases rule: vfs_mkfile_cases [OF mkfile(3,1,2)]) (auto intro: made_inv)
next
  case (mkdev p s)
  then show ?case by (cases rule: vfs_mkdev_cases [OF mkdev(2,1)]) (auto intro: made_inv)
next
  case (mkproc p s rd)
  then show ?case by (cases rule: vfs_mkproc_cases [OF mkproc(2,1), where rd = rd]) (auto intro: made_inv)
next
  case (init s)
  then show ?case by (intro vfs_init_inv) (auto simp: vfs_inv_def node_ok_def Let_def in_set_conv_nth)
qed (simp_all add: vfs_write_inv vfs_remove_inv vfs_rename_inv vfs_chmod_inv)

inductive vfs_reachable :: "'r vfs \<Rightarrow> 'r vfs \<Rightarrow> bool" for s0 where
  start: "vfs_reachable s0 s0"
| step: "vfs_reachable s0 s \<Longrightarrow> vfs_step s t \<Longrightarrow> vfs_reachable s0 t"

lemma vfs_reachable_keeps_inv: "vfs_reachable s0 s \<Longrightarrow> vfs_inv s0 \<Longrightarrow> vfs_inv s"
  by (induction rule: vfs_reachable.induct) (auto intro: vfs_step_inv)

end
