(* ===== verification/Vfs_View.thy ===== *)
theory Vfs_View
  imports Vfs_Inv
begin

text \<open>
  What a client of the file system sees: a map from paths to entries. Every operation of \<^verbatim>\<open>vfs.c\<close>
  is shown to act on this map as its name says, and reads return what was stored.
\<close>

section \<open>The view\<close>

record 'r entry =
  en_type :: vfs_type
  en_content :: "string option"
  en_read :: "'r option"
  en_perm :: u16

definition entry_of :: "'r vfs \<Rightarrow> nat \<Rightarrow> 'r entry" where
  "entry_of s i = \<lparr>en_type = nd_type (nodes s ! i),
     en_content = map_option (\<lambda>row. file_data_pool s ! row) (nd_data (nodes s ! i)),
     en_read = nd_read (nodes s ! i), en_perm = nd_perm (nodes s ! i)\<rparr>"

definition vfs_view :: "'r vfs \<Rightarrow> string \<Rightarrow> 'r entry option" where
  "vfs_view s p = map_option (entry_of s) (vfs_lookup (Some p) s)"

definition live_at :: "'r vfs \<Rightarrow> string \<Rightarrow> nat \<Rightarrow> bool" where
  "live_at s p i \<longleftrightarrow> nd_type (nodes s ! i) \<noteq> VFS_UNUSED \<and> nd_path (nodes s ! i) = p"

definition unique_paths :: "'r vfs \<Rightarrow> bool" where
  "unique_paths s \<longleftrightarrow> (\<forall>i<node_count s. \<forall>j<node_count s. \<forall>p. live_at s p i \<longrightarrow> live_at s p j \<longrightarrow> i = j)"

lemma live_path_ok:
  assumes "vfs_inv s" "i < node_count s" "live_at s p i"
  shows "path_ok p"
  using vfs_invD(4) [OF assms(1)] vfs_invD(5) [OF assms(1), of i] assms(2,3)
  by (auto simp: node_ok_def live_at_def Let_def)

lemma vfs_lookup_eq:
  assumes "vfs_inv s" "c_string p"
  shows "vfs_lookup (Some p) s = List.find (live_at s p) [0..<node_count s]"
proof (cases "is_valid_path (Some p)")
  case True
  have "vfs_strcmp (nd_path (nodes s ! i)) p = 0 \<longleftrightarrow> nd_path (nodes s ! i) = p"
    if "i < node_count s" "nd_type (nodes s ! i) \<noteq> VFS_UNUSED" for i
    using live_path_ok [OF assms(1) that(1)] that(2) assms(2)
    by (auto simp: vfs_strcmp_def live_at_def path_ok_def c_strcmp_zero)
  then show ?thesis
    using True by (auto simp: vfs_lookup_def live_at_def intro!: find_cong)
next
  case False
  have "\<not> live_at s p i" if "i < node_count s" for i
    using live_path_ok [OF assms(1) that] False by (auto simp: path_ok_def is_valid_path_Some)
  then show ?thesis using False by (auto simp: vfs_lookup_invalid find_None_iff eq_commute [of None])
qed

lemma vfs_lookup_iff:
  assumes "vfs_inv s" "c_string p"
  shows "vfs_lookup (Some p) s = Some i \<longleftrightarrow> i < node_count s \<and> live_at s p i \<and> (\<forall>j<i. \<not> live_at s p j)"
    and "vfs_lookup (Some p) s = None \<longleftrightarrow> (\<forall>i<node_count s. \<not> live_at s p i)"
  using assms by (simp_all add: vfs_lookup_eq find_upt_Some find_upt_None)

text \<open>A path of 128 or more characters is never found: the stored paths are shorter.\<close>

lemma vfs_lookup_long:
  assumes "vfs_inv s" "c_string p" "VFS_PATH_LEN \<le> length p"
  shows "vfs_lookup (Some p) s = None"
  using assms live_path_ok [OF assms(1)] by (fastforce simp: vfs_lookup_iff path_ok_def)

lemma entry_of_only_node:
  assumes "only_node k s t" "vfs_inv s" "i < node_count s" "i \<noteq> k"
  shows "entry_of t i = entry_of s i"
proof -
  have i: "i < VFS_MAX_NODES" using assms(3) vfs_invD(4) [OF assms(2)] by simp
  have "nd_data (nodes s ! i) = None \<or> nd_data (nodes s ! i) = Some i"
    using vfs_invD(5) [OF assms(2) i] assms(3) by (auto simp: node_ok_def Let_def split: option.splits)
  then show ?thesis using assms(1,4) by (auto simp: entry_of_def only_node_def)
qed

section \<open>Creating entries\<close>

definition new_entry :: "vfs_type \<Rightarrow> cstr \<Rightarrow> 'r option \<Rightarrow> u16 \<Rightarrow> 'r entry" where
  "new_entry ty c rd perm = \<lparr>en_type = ty, en_content = c, en_read = rd,
     en_perm = (case c of None \<Rightarrow> perm | Some _ \<Rightarrow> VFS_PERM_READ OR VFS_PERM_WRITE)\<rparr>"

lemma made_lookup:
  assumes inv: "vfs_inv s" and m: "made s p ty c rd t" and ty: "ty \<noteq> VFS_UNUSED" and q: "c_string q"
  shows "vfs_lookup (Some q) t = (case vfs_lookup (Some q) s of Some i \<Rightarrow> Some i
    | None \<Rightarrow> if vfs_strcpy p VFS_PATH_LEN = q then Some (node_count s) else None)"
proof -
  let ?k = "node_count s"
  have t: "vfs_inv t" "node_count t = Suc ?k" "only_node ?k s t" "nd_type (nodes t ! ?k) = ty"
    "nd_path (nodes t ! ?k) = vfs_strcpy p VFS_PATH_LEN"
    using m by (simp_all add: made_def Let_def)
  have "List.find (live_at t q) [0..<?k] = List.find (live_at s q) [0..<?k]"
    using t(3) by (auto simp: live_at_def only_node_def intro!: find_cong)
  then show ?thesis
    using t ty by (simp add: vfs_lookup_eq [OF t(1) q] vfs_lookup_eq [OF inv q] find_append live_at_def
        split: option.splits)
qed

lemma made_view:
  assumes inv: "vfs_inv s" and m: "made s p ty c rd t" and ty: "ty \<noteq> VFS_UNUSED" and q: "c_string q"
  shows "vfs_view t q = (case vfs_view s q of Some e \<Rightarrow> Some e
    | None \<Rightarrow> if vfs_strcpy p VFS_PATH_LEN = q
              then Some (new_entry ty c rd (nd_perm (nodes s ! node_count s))) else None)"
proof (cases "vfs_lookup (Some q) s")
  case None
  have "entry_of t (node_count s) = new_entry ty c rd (nd_perm (nodes s ! node_count s))"
    using m by (cases c) (auto simp: made_def entry_of_def new_entry_def Let_def)
  then show ?thesis using made_lookup [OF assms] None by (simp add: vfs_view_def)
next
  case (Some i)
  then have i: "i < node_count s" using vfs_lookup_iff(1) [OF inv q] by simp
  have "only_node (node_count s) s t" using m by (simp add: made_def Let_def)
  then have "entry_of t i = entry_of s i" using entry_of_only_node [OF _ inv i] i by simp
  then show ?thesis using made_lookup [OF assms] Some by (simp add: vfs_view_def)
qed

lemma made_unique:
  assumes inv: "vfs_inv s" and m: "made s p ty c rd t" and u: "unique_paths s"
    and p: "vfs_lookup (Some (vfs_strcpy p VFS_PATH_LEN)) s = None" "c_string p"
  shows "unique_paths t"
proof -
  let ?k = "node_count s"
  have t: "node_count t = Suc ?k" "only_node ?k s t" "nd_path (nodes t ! ?k) = vfs_strcpy p VFS_PATH_LEN"
    using m by (simp_all add: made_def Let_def)
  have old: "live_at t q i \<longleftrightarrow> live_at s q i" if "i < ?k" for q i
    using t(2) that by (simp add: live_at_def only_node_def)
  have new: "\<not> live_at s (vfs_strcpy p VFS_PATH_LEN) i" if "i < ?k" for i
    using p vfs_lookup_iff(2) [OF inv, of "vfs_strcpy p VFS_PATH_LEN"] that by (simp add: vfs_strcpy_def)
  have path: "q = vfs_strcpy p VFS_PATH_LEN" if "live_at t q ?k" for q using that t(3) by (simp add: live_at_def)
  show ?thesis
    unfolding unique_paths_def
  proof (intro allI impI)
    fix i j q assume ij: "i < node_count t" "j < node_count t" "live_at t q i" "live_at t q j"
    then consider "i < ?k" "j < ?k" | "i = ?k" "j = ?k" | "i = ?k" "j < ?k" | "i < ?k" "j = ?k"
      using t(1) by linarith
    then show "i = j"
    proof cases
      case 1
      then show ?thesis using u ij(3,4) old unfolding unique_paths_def by blast
    next
      case 3
      then show ?thesis using path ij(3,4) old new by blast
    next
      case 4
      then show ?thesis using path ij(3,4) old new by blast
    qed simp
  qed
qed

section \<open>Changing entries\<close>

text \<open>An operation that changes node \<open>k\<close> only, and keeps it live under its path, changes one entry.\<close>

lemma changed_view:
  assumes inv: "vfs_inv s" "vfs_inv t" and o: "only_node k s t" "node_count t = node_count s"
    and k: "vfs_lookup (Some p) s = Some k" and p: "c_string p"
    and keep: "nd_path (nodes t ! k) = nd_path (nodes s ! k)" "nd_type (nodes t ! k) = nd_type (nodes s ! k)"
    and q: "c_string q"
  shows "vfs_view t q = (if q = p then Some (entry_of t k) else vfs_view s q)"
proof -
  have live: "live_at t r i \<longleftrightarrow> live_at s r i" for r i
    using o(1) keep by (cases "i = k") (auto simp: live_at_def only_node_def)
  then have look: "vfs_lookup (Some q) t = vfs_lookup (Some q) s"
    using o(2) by (simp add: vfs_lookup_eq [OF inv(1) q] vfs_lookup_eq [OF inv(2) q] live cong: find_cong)
  show ?thesis
  proof (cases "q = p")
    case False
    have "entry_of t i = entry_of s i" if "vfs_lookup (Some q) s = Some i" for i
    proof -
      have i: "i < node_count s" "live_at s q i" using vfs_lookup_iff(1) [OF inv(1) q, of i] that by blast+
      have "live_at s p k" using vfs_lookup_iff(1) [OF inv(1) p, of k] k by blast
      then have "i \<noteq> k" using i(2) False by (auto simp: live_at_def)
      then show ?thesis by (rule entry_of_only_node [OF o(1) inv(1) i(1)])
    qed
    then show ?thesis using look False by (cases "vfs_lookup (Some q) s") (auto simp: vfs_view_def)
  qed (use look k in \<open>simp add: vfs_view_def\<close>)
qed

lemma vfs_write_cases:
  assumes "vfs_inv s" "c_string p"
  obtains (err) "vfs_write (Some p) data sz s = (s, -1)"
  | (ok) k d where "vfs_lookup (Some p) s = Some k" "data = Some d"
      "nd_type (nodes s ! k) = VFS_FILE" "nd_read (nodes s ! k) = None"
      "(nd_perm (nodes s ! k) AND VFS_PERM_WRITE) \<noteq> 0"
      "vfs_write (Some p) data sz s =
        (s\<lparr>file_data_pool := (file_data_pool s)[k := as_cstr (map (char_at d) [0..<min sz (VFS_DATA_MAX - 1)])],
           file_data_used := (file_data_used s)[k := True],
           nodes := (nodes s)[k := (nodes s ! k)\<lparr>nd_data := Some k, nd_size := word_of_nat (min sz (VFS_DATA_MAX - 1))\<rparr>]\<rparr>,
         int (min sz (VFS_DATA_MAX - 1)))"
proof (cases "vfs_write (Some p) data sz s = (s, -1)")
  case False
  then obtain k d where kd: "vfs_lookup (Some p) s = Some k" "data = Some d"
    by (auto simp: vfs_write_def split: option.splits)
  have sz: "(if VFS_DATA_MAX \<le> sz then VFS_DATA_MAX - 1 else sz) = min sz (VFS_DATA_MAX - 1)"
    by (simp add: VFS_DATA_MAX_def)
  show ?thesis
    using False kd ok [OF kd] by (simp add: vfs_write_def Let_def sz split: if_splits)
qed (use err in simp)

lemma vfs_write_view:
  assumes inv: "vfs_inv s" and p: "c_string p" and q: "c_string q"
    and e: "vfs_view s p = Some e" "en_type e = VFS_FILE" "en_read e = None" "(en_perm e AND VFS_PERM_WRITE) \<noteq> 0"
  shows "snd (vfs_write (Some p) (Some d) sz s) = int (min sz 4095)"
    and "vfs_view (fst (vfs_write (Some p) (Some d) sz s)) q =
      (if q = p then Some (e\<lparr>en_content := Some (as_cstr (map (char_at d) [0..<min sz 4095]))\<rparr>) else vfs_view s q)"
proof -
  obtain k where k: "vfs_lookup (Some p) s = Some k" "e = entry_of s k" using e(1) by (auto simp: vfs_view_def)
  let ?t = "fst (vfs_write (Some p) (Some d) sz s)"
  have kl: "k < VFS_MAX_NODES" using vfs_lookup_Some(2) [OF inv _ k(1)] p by (simp add: cstr_ok_def)
  have w: "vfs_write (Some p) (Some d) sz s =
      (s\<lparr>file_data_pool := (file_data_pool s)[k := as_cstr (map (char_at d) [0..<min sz 4095])],
         file_data_used := (file_data_used s)[k := True],
         nodes := (nodes s)[k := (nodes s ! k)\<lparr>nd_data := Some k, nd_size := word_of_nat (min sz 4095)\<rparr>]\<rparr>,
       int (min sz 4095))"
    by (cases rule: vfs_write_cases [OF inv p, of "Some d" sz])
      (use k e in \<open>simp_all add: vfs_write_def entry_of_def VFS_DATA_MAX_def Let_def\<close>)
  show "snd (vfs_write (Some p) (Some d) sz s) = int (min sz 4095)" using w by simp
  have len: "length (nodes s) = VFS_MAX_NODES" "length (file_data_pool s) = VFS_MAX_NODES"
    using vfs_invD(1,2) [OF inv] .
  have "entry_of ?t k = e\<lparr>en_content := Some (as_cstr (map (char_at d) [0..<min sz 4095]))\<rparr>"
    using k(2) w kl len by (simp add: entry_of_def)
  moreover have "vfs_inv ?t" using vfs_write_inv [OF inv] p by (simp add: cstr_ok_def)
  moreover have "only_node k s ?t" "node_count ?t = node_count s" using w by (auto simp: only_node_def)
  moreover have "nd_path (nodes ?t ! k) = nd_path (nodes s ! k)" "nd_type (nodes ?t ! k) = nd_type (nodes s ! k)"
    using w kl len by simp_all
  ultimately show "vfs_view ?t q =
      (if q = p then Some (e\<lparr>en_content := Some (as_cstr (map (char_at d) [0..<min sz 4095]))\<rparr>) else vfs_view s q)"
    using changed_view [OF inv _ _ _ k(1) p _ _ q, of ?t] by simp
qed

lemma vfs_chmod_view:
  assumes inv: "vfs_inv s" and p: "c_string p" and q: "c_string q" and e: "vfs_view s p = Some e"
  shows "snd (vfs_chmod (Some p) m s) = 0"
    and "vfs_view (fst (vfs_chmod (Some p) m s)) q = (if q = p then Some (e\<lparr>en_perm := m\<rparr>) else vfs_view s q)"
proof -
  obtain k where k: "vfs_lookup (Some p) s = Some k" "e = entry_of s k" using e by (auto simp: vfs_view_def)
  let ?t = "upd_node k (\<lambda>x. x\<lparr>nd_perm := m\<rparr>) s"
  have w: "vfs_chmod (Some p) m s = (?t, 0)" using k(1) by (simp add: vfs_chmod_def)
  then show "snd (vfs_chmod (Some p) m s) = 0" by simp
  have kl: "k < length (nodes s)" using vfs_lookup_Some(2) [OF inv _ k(1)] p vfs_invD(1) [OF inv] by (simp add: cstr_ok_def)
  have "vfs_inv ?t" using vfs_chmod_inv [OF inv, of "Some p" m] p w by (simp add: cstr_ok_def)
  then show "vfs_view (fst (vfs_chmod (Some p) m s)) q = (if q = p then Some (e\<lparr>en_perm := m\<rparr>) else vfs_view s q)"
    using changed_view [OF inv _ _ _ k(1) p _ _ q, of ?t] k(2) kl w by (simp add: entry_of_def)
qed

text \<open>With unique paths, removing the node of a path leaves no node under it.\<close>

lemma vfs_remove_view:
  assumes inv: "vfs_inv s" and u: "unique_paths s" and p: "c_string p" and q: "c_string q"
    and e: "vfs_view s p = Some e" "(en_perm e AND VFS_PERM_WRITE) \<noteq> 0"
  shows "snd (vfs_remove (Some p) s) = 0"
    and "vfs_view (fst (vfs_remove (Some p) s)) q = (if q = p then None else vfs_view s q)"
proof -
  obtain k where k: "vfs_lookup (Some p) s = Some k" "e = entry_of s k" using e by (auto simp: vfs_view_def)
  let ?t = "fst (vfs_remove (Some p) s)"
  show "snd (vfs_remove (Some p) s) = 0" using k e(2) by (simp add: vfs_remove_eq entry_of_def)
  have kl: "k < length (nodes s)" "k < node_count s" "live_at s p k"
    using vfs_lookup_Some(1,2) [OF inv _ k(1)] p vfs_invD(1) [OF inv] vfs_lookup_iff(1) [OF inv p, of k] k(1)
    by (simp_all add: cstr_ok_def)
  have t: "vfs_inv ?t" using vfs_remove_inv [OF inv] p by (simp add: cstr_ok_def)
  have o: "only_node k s ?t" "node_count ?t = node_count s" "nd_type (nodes ?t ! k) = VFS_UNUSED"
    using k e(2) kl by (auto simp: vfs_remove_eq entry_of_def only_node_def)
  have live: "live_at ?t r i \<longleftrightarrow> live_at s r i \<and> i \<noteq> k" for r i
    using o by (cases "i = k") (auto simp: live_at_def only_node_def)
  show "vfs_view ?t q = (if q = p then None else vfs_view s q)"
  proof (cases "q = p")
    case True
    have "\<not> live_at ?t p i" if "i < node_count s" for i
      using u that kl live unfolding unique_paths_def by blast
    then show ?thesis using True vfs_lookup_iff(2) [OF t q] o(2) by (simp add: vfs_view_def)
  next
    case False
    then have live': "live_at ?t q = live_at s q" using kl(3) live by (auto simp: live_at_def)
    then have look: "vfs_lookup (Some q) ?t = vfs_lookup (Some q) s"
      by (simp add: vfs_lookup_eq [OF t q] vfs_lookup_eq [OF inv q] o(2))
    have "entry_of ?t i = entry_of s i" if "vfs_lookup (Some q) s = Some i" for i
      using entry_of_only_node [OF o(1) inv, of i] vfs_lookup_iff(1) [OF inv q, of i] that kl(3) False
      by (metis live live')
    then show ?thesis using look False by (cases "vfs_lookup (Some q) s") (auto simp: vfs_view_def)
  qed
qed

lemma vfs_rename_view:
  assumes inv: "vfs_inv s" and u: "unique_paths s" and p: "c_string p" and p': "path_ok p'" and q: "c_string q"
    and e: "vfs_view s p = Some e" "en_type e = VFS_FILE \<longrightarrow> (en_perm e AND VFS_PERM_WRITE) \<noteq> 0"
    and new: "vfs_view s p' = None"
  shows "snd (vfs_rename (Some p) (Some p') s) = 0"
    and "vfs_view (fst (vfs_rename (Some p) (Some p') s)) q =
      (if q = p' then Some e else if q = p then None else vfs_view s q)"
proof -
  obtain k where k: "vfs_lookup (Some p) s = Some k" "e = entry_of s k" using e by (auto simp: vfs_view_def)
  let ?t = "upd_node k (\<lambda>x. x\<lparr>nd_path := p'\<rparr>) s"
  have cp': "c_string p'" and len: "length p' < VFS_PATH_LEN" using p' by (simp_all add: path_ok_def)
  have new': "vfs_lookup (Some p') s = None" using new by (simp add: vfs_view_def)
  have w: "vfs_rename (Some p) (Some p') s = (?t, 0)"
    using k e(2) path_ok_valid [OF p'] vfs_lookup_valid [OF k(1)] new' len
    by (auto simp: vfs_rename_def vfs_strcpy_def c_strcpy_short entry_of_def)
  then show "snd (vfs_rename (Some p) (Some p') s) = 0" by simp
  have kl: "k < length (nodes s)" "k < node_count s" "live_at s p k"
    using vfs_lookup_Some(1,2) [OF inv _ k(1)] p vfs_invD(1) [OF inv] vfs_lookup_iff(1) [OF inv p, of k] k(1)
    by (simp_all add: cstr_ok_def)
  have t: "vfs_inv ?t" using vfs_rename_inv [OF inv, of "Some p" "Some p'"] p cp' w by (simp add: cstr_ok_def)
  have ent: "entry_of ?t i = entry_of s i" for i
    using kl(1) by (cases "i = k") (auto simp: entry_of_def)
  have live: "live_at ?t r i \<longleftrightarrow> (if i = k then r = p' else live_at s r i)" for r i
    using kl by (cases "i = k") (auto simp: live_at_def)
  have none: "\<not> live_at s p' i" if "i < node_count s" for i
    using new' vfs_lookup_iff(2) [OF inv cp'] that by simp
  have pp: "p \<noteq> p'" using k(1) new' by auto
  have "vfs_view ?t q = (if q = p' then Some e else if q = p then None else vfs_view s q)"
  proof -
    consider "q = p'" | "q = p" | "q \<noteq> p" "q \<noteq> p'" by blast
    then show ?thesis
    proof cases
      case 1
      have "vfs_lookup (Some q) ?t = Some k"
        using vfs_lookup_iff(1) [OF t q, of k] 1 live kl none by auto
      then show ?thesis using 1 ent k(2) by (simp add: vfs_view_def)
    next
      case 2
      have "vfs_lookup (Some q) ?t = None"
        using vfs_lookup_iff(2) [OF t q] 2 live kl pp u unfolding unique_paths_def by auto
      then show ?thesis using 2 pp by (simp add: vfs_view_def)
    next
      case 3
      then have "\<not> live_at s q k" using kl(3) by (auto simp: live_at_def)
      then have "live_at ?t q = live_at s q" using live 3 by (intro ext) auto
      then have "vfs_lookup (Some q) ?t = vfs_lookup (Some q) s"
        by (simp add: vfs_lookup_eq [OF t q] vfs_lookup_eq [OF inv q])
      moreover have "entry_of ?t = entry_of s" using ent by (intro ext)
      ultimately show ?thesis using 3 by (simp add: vfs_view_def)
    qed
  qed
  then show "vfs_view (fst (vfs_rename (Some p) (Some p') s)) q =
      (if q = p' then Some e else if q = p then None else vfs_view s q)" using w by simp
qed

section \<open>Reading\<close>

lemma vfs_read_view:
  assumes "vfs_view s p = Some e" "en_type e \<noteq> VFS_DIR" "en_read e = None" "(en_perm e AND VFS_PERM_READ) \<noteq> 0"
    and "en_content e = Some c" "0 < sz"
  shows "vfs_read call (Some p) True sz s =
    (int (min (length c) (min sz 4096 - 1)), Some (take (min sz 4096 - 1) c))"
proof -
  obtain k where k: "vfs_lookup (Some p) s = Some k" "e = entry_of s k" using assms(1) by (auto simp: vfs_view_def)
  then obtain row where "nd_data (nodes s ! k) = Some row" "file_data_pool s ! row = c"
    using assms(5) by (auto simp: entry_of_def)
  then show ?thesis
    using assms k by (auto simp: vfs_read_def entry_of_def MAX_READ_SIZE_def vfs_strlen_def Let_def min_def)
qed

section \<open>The file system as a table of names\<close>

datatype 'r node_kind = KDir | KDev | KFile cstr | KProc "'r option"

primrec vfs_make :: "'r node_kind \<Rightarrow> cstr \<Rightarrow> 'r vfs \<Rightarrow> 'r vfs \<times> int" where
  "vfs_make KDir p = vfs_mkdir p"
| "vfs_make KDev p = vfs_mkdev p"
| "vfs_make (KFile c) p = vfs_mkfile p c"
| "vfs_make (KProc rd) p = vfs_mkproc p rd"

primrec kind_ok :: "'r node_kind \<Rightarrow> bool" where
  "kind_ok KDir = True"
| "kind_ok KDev = True"
| "kind_ok (KFile c) = (case c of None \<Rightarrow> True | Some d \<Rightarrow> c_string d \<and> length d < VFS_MAX_FILE_SIZE)"
| "kind_ok (KProc rd) = True"

primrec kind_type :: "'r node_kind \<Rightarrow> vfs_type" where
  "kind_type KDir = VFS_DIR" | "kind_type KDev = VFS_DEV" | "kind_type (KFile c) = VFS_FILE" | "kind_type (KProc rd) = VFS_FILE"

primrec kind_content :: "'r node_kind \<Rightarrow> cstr" where
  "kind_content KDir = None" | "kind_content KDev = None"
| "kind_content (KFile c) = Some (case c of None \<Rightarrow> '''' | Some d \<Rightarrow> d)" | "kind_content (KProc rd) = None"

primrec kind_read :: "'r node_kind \<Rightarrow> 'r option" where
  "kind_read KDir = None" | "kind_read KDev = None" | "kind_read (KFile c) = None" | "kind_read (KProc rd) = rd"

lemma kind_type_used [simp]: "kind_type k \<noteq> VFS_UNUSED"
  by (cases k) auto

lemma vfs_make_full: "VFS_MAX_NODES \<le> node_count s \<Longrightarrow> vfs_make k p s = (s, -1)"
  by (cases k) (auto simp: vfs_mkdir_def vfs_mkdev_def vfs_mkfile_def vfs_mkproc_def vfs_alloc_def)

lemma vfs_make_made:
  assumes inv: "vfs_inv s" and p: "path_ok p" and k: "kind_ok k" and c: "node_count s < VFS_MAX_NODES"
  obtains t where "vfs_make k (Some p) s = (t, 0)" "made s p (kind_type k) (kind_content k) (kind_read k) t"
proof -
  have ok: "cstr_ok (Some p)" using p by (simp add: cstr_ok_def path_ok_def)
  note v = path_ok_valid [OF p]
  obtain t0 where a: "vfs_alloc s = (t0, Some (node_count s))" using c by (auto simp: vfs_alloc_def Let_def)
  show ?thesis
  proof (cases k)
    case KDir
    show ?thesis by (cases rule: vfs_mkdir_cases [OF inv ok]) (use that KDir v a in \<open>auto simp: vfs_mkdir_def\<close>)
  next
    case KDev
    show ?thesis by (cases rule: vfs_mkdev_cases [OF inv ok]) (use that KDev v a in \<open>auto simp: vfs_mkdev_def\<close>)
  next
    case (KProc rd)
    show ?thesis
      by (cases rule: vfs_mkproc_cases [OF inv ok, where rd = rd]) (use that KProc v a in \<open>auto simp: vfs_mkproc_def\<close>)
  next
    case (KFile c)
    have "cstr_ok c" using KFile k by (auto simp: cstr_ok_def split: option.splits)
    then show ?thesis
      by (cases rule: vfs_mkfile_cases [OF inv ok, where content = c])
        (use that KFile k v a in \<open>auto simp: vfs_mkfile_def Let_def vfs_strlen_def split: option.splits\<close>)
  qed
qed

lemma vfs_make_lookup:
  assumes inv: "vfs_inv s" and p: "path_ok p" and k: "kind_ok k" and q: "c_string q"
    and c: "node_count s < VFS_MAX_NODES"
  shows "vfs_lookup (Some q) (fst (vfs_make k (Some p) s)) = (case vfs_lookup (Some q) s of Some i \<Rightarrow> Some i
    | None \<Rightarrow> if p = q then Some (node_count s) else None)"
proof -
  obtain t where "vfs_make k (Some p) s = (t, 0)" "made s p (kind_type k) (kind_content k) (kind_read k) t"
    by (rule vfs_make_made [OF inv p k c])
  then show ?thesis using made_lookup [OF inv _ _ q] p
    by (simp add: vfs_strcpy_def c_strcpy_short path_ok_def)
qed

interpretation vtab: name_table "\<lambda>s x. vfs_lookup (Some x) s" "\<lambda>x. vfs_make (kind x) (Some x)"
  vfs_inv node_count VFS_MAX_NODES "\<lambda>x. path_ok x \<and> kind_ok (kind x)" for kind
proof unfold_locales
  fix s :: "'a vfs" and x
  assume s: "vfs_inv s" and x: "path_ok x \<and> kind_ok (kind x)"
  let ?ins = "vfs_make (kind x) (Some x) s"
  have cx: "c_string x" using x by (simp add: path_ok_def)
  note made = vfs_make_made [OF s, of x "kind x"]
  show "vfs_inv (fst ?ins)"
  proof (cases "node_count s < VFS_MAX_NODES")
    case True
    then show ?thesis using made x by (metis fst_conv made_inv)
  qed (use s in \<open>simp add: vfs_make_full\<close>)
  show "snd ?ins = 0 \<and> node_count (fst ?ins) = Suc (node_count s)" if "node_count s < VFS_MAX_NODES"
    using made that x by (metis fst_conv made_def snd_conv)
  show "vfs_lookup (Some x) (fst ?ins) = Some (node_count s)"
    if "node_count s < VFS_MAX_NODES" "vfs_lookup (Some x) s = None"
    using vfs_make_lookup [OF s, of x "kind x" x] that x cx by simp
  show "vfs_lookup (Some x) (fst ?ins) = Some i" if "vfs_lookup (Some x) s = Some i" for i
    using vfs_make_lookup [OF s, of x "kind x" x] that x cx
    by (cases "node_count s < VFS_MAX_NODES") (auto simp: vfs_make_full)
  show "vfs_lookup (Some y) (fst ?ins) = vfs_lookup (Some y) s"
    if "path_ok y \<and> kind_ok (kind y)" "x \<noteq> y" for y
    using vfs_make_lookup [OF s, of x "kind x" y] that x
    by (cases "node_count s < VFS_MAX_NODES") (auto simp: vfs_make_full path_ok_def split: option.splits)
  show "?ins = (s, -1)" if "VFS_MAX_NODES \<le> node_count s" using that by (rule vfs_make_full)
qed

end
