(* ===== verification/Vfs_Props.thy ===== *)
theory Vfs_Props
  imports Vfs_View
begin

text \<open>
  The properties of the file system: reachable states, refused paths, round trips through read,
  the refinement of the path map, directory listings and the paths that are lost.
\<close>

section \<open>The state before boot\<close>

text \<open>The static arrays of \<^verbatim>\<open>vfs.c\<close> are zero before \<open>vfs_init\<close> runs.\<close>

definition blank_node :: "'r vfs_node" where
  "blank_node = \<lparr>nd_path = '''', nd_type = VFS_UNUSED, nd_data = None, nd_read = None, nd_write = 0, nd_size = 0,
     nd_perm = VFS_PERM_NONE, nd_uid = 0, nd_gid = 0\<rparr>"

definition blank_vfs :: "'r vfs" where
  "blank_vfs = \<lparr>nodes = replicate VFS_MAX_NODES blank_node, node_count = 0,
     file_data_pool = replicate VFS_MAX_NODES '''', file_data_used = replicate VFS_MAX_NODES False\<rparr>"

lemma blank_vfs_inv [simp]: "vfs_inv (vfs_init blank_vfs)"
  by (rule vfs_init_inv) (auto simp: blank_vfs_def VFS_DATA_MAX_def)

lemma blank_vfs_count [simp]: "node_count (vfs_init s) = 0"
  by (simp add: vfs_init_def)

lemma blank_vfs_view [simp]: "vfs_view (vfs_init s) p = None" "vfs_lookup (Some p) (vfs_init s) = None"
  by (simp_all add: vfs_view_def vfs_lookup_def vfs_init_def)

lemma blank_vfs_unique [simp]: "unique_paths (vfs_init s)"
  by (simp add: unique_paths_def)

section \<open>Directory listings\<close>

definition dir_prefix :: "string \<Rightarrow> string" where
  "dir_prefix dir = (if dir = ''/'' then ''/'' else dir @ ''/'')"

definition child_name :: "string \<Rightarrow> bool" where
  "child_name x \<longleftrightarrow> x \<noteq> [] \<and> CHR ''/'' \<notin> set x"

lemma is_direct_child_iff:
  assumes "c_string dir" "c_string c"
  shows "is_direct_child dir c \<longleftrightarrow> (\<exists>x. child_name x \<and> c = dir_prefix dir @ x)"
proof (cases "dir = ''/''")
  case True
  show ?thesis
    using True assms(2) by (cases c) (auto simp: is_direct_child_def vfs_strcmp_def vfs_strlen_def char_at_def
        child_name_def dir_prefix_def Let_def Suc_le_eq neq_Nil_conv)
next
  case False
  have ne: "vfs_strcmp dir ''/'' \<noteq> 0" using False assms by (simp add: vfs_strcmp_def c_strcmp_zero)
  let ?n = "length dir"
  have "is_direct_child dir c \<longleftrightarrow> take ?n c = dir \<and> char_at c ?n = CHR ''/''
      \<and> CHR ''/'' \<notin> set (drop (Suc ?n) c) \<and> char_at c (Suc ?n) \<noteq> NUL"
    using ne c_strncmp_zero [OF assms(1), of c]
    by (simp add: is_direct_child_def vfs_strncmp_def vfs_strlen_def Let_def)
  also have "\<dots> \<longleftrightarrow> (\<exists>x. child_name x \<and> c = (dir @ ''/'') @ x)" (is "?l \<longleftrightarrow> ?r")
  proof
    assume l: ?l
    then have "?n < length c" "Suc ?n < length c" "c ! ?n = CHR ''/''"
      by (auto simp: char_at_def split: if_splits)
    then have "c = dir @ CHR ''/'' # drop (Suc ?n) c" "drop (Suc ?n) c \<noteq> []"
      using l id_take_nth_drop [of ?n c] by auto
    then obtain x where "c = dir @ CHR ''/'' # x" "x \<noteq> []" "CHR ''/'' \<notin> set x" using l by blast
    then show ?r by (auto simp: child_name_def)
  next
    assume ?r
    then obtain x where x: "child_name x" "c = (dir @ ''/'') @ x" by blast
    then obtain h x' where h: "x = h # x'" by (cases x) (auto simp: child_name_def)
    then have "h \<noteq> NUL" using assms(2) x by simp
    then show ?l using x h by (auto simp: child_name_def char_at_def nth_append)
  qed
  finally show ?thesis using False by (simp add: dir_prefix_def)
qed

lemma basename_loop_child: "CHR ''/'' \<notin> set x \<Longrightarrow> basename_loop l x = l"
  by (induction x arbitrary: l) auto

lemma basename_loop_prefix: "child_name x \<Longrightarrow> basename_loop l (d @ CHR ''/'' # x) = x"
  by (induction d arbitrary: l) (auto simp: basename_loop_child child_name_def)

lemma vfs_basename_child: "child_name x \<Longrightarrow> vfs_basename (dir_prefix dir @ x) = x"
  using basename_loop_prefix [of x _ "[]"] basename_loop_prefix [of x _ dir]
  by (auto simp: vfs_basename_def dir_prefix_def simp del: basename_loop.simps)

section \<open>Properties\<close>

text \<open>
  C12: every state that any sequence of file system calls reaches from the initialised state satisfies
  the invariant: stored paths are non-empty C strings shorter than 128 characters without a double
  dot, every data pointer is the node's own row, every row holds a C string shorter than 4096, no
  longer than the node's size, and slots from the node count on are unused.
\<close>

theorem vfs_reachable_inv:
  assumes "vfs_reachable (vfs_init blank_vfs) s"
  shows "vfs_inv s"
  using assms by (rule vfs_reachable_keeps_inv) simp

theorem vfs_reachable_inv_witness: "vfs_inv (fst (vfs_mkdir (Some ''/tmp'') (vfs_init blank_vfs)))"
proof -
  have "vfs_step (vfs_init blank_vfs) (fst (vfs_mkdir (Some ''/tmp'') (vfs_init blank_vfs)))"
    by (rule vfs_step.mkdir) (simp add: cstr_ok_def)
  then show ?thesis by (intro vfs_reachable_inv vfs_reachable.intros(2) [OF vfs_reachable.intros(1)])
qed

lemma vfs_rejects_traversal_parts:
  assumes "path = None \<or> path = Some [] \<or> (\<exists>a b. path = Some (a @ ''..'' @ b))"
  shows "vfs_mkdir path s = (s, -1)" "vfs_mkfile path c s = (s, -1)" "vfs_mkdev path s = (s, -1)"
    "vfs_mkproc path rd s = (s, -1)" "vfs_lookup path s = None" "vfs_read call path buf n s = (-1, None)"
    "vfs_write path d n s = (s, -1)" "vfs_remove path s = (s, -1)" "vfs_rename path q s = (s, -1)"
    "vfs_rename q path s = (s, -1)" "vfs_chmod path m s = (s, -1)"
proof -
  have "has_dotdot (a @ ''..'' @ b)" for a b unfolding has_dotdot_iff by blast
  then have v: "\<not> is_valid_path path" using assms by (auto simp: is_valid_path_def)
  then have l: "vfs_lookup path s = None" by (rule vfs_lookup_invalid)
  show "vfs_mkdir path s = (s, -1)" "vfs_mkfile path c s = (s, -1)" "vfs_mkdev path s = (s, -1)"
    "vfs_mkproc path rd s = (s, -1)" "vfs_rename path q s = (s, -1)" "vfs_rename q path s = (s, -1)"
    "vfs_remove path s = (s, -1)"
    using v by (simp_all add: vfs_mkdir_def vfs_mkfile_def vfs_mkdev_def vfs_mkproc_def vfs_rename_def vfs_remove_def)
  show "vfs_lookup path s = None" "vfs_chmod path m s = (s, -1)" "vfs_read call path buf n s = (-1, None)"
    "vfs_write path d n s = (s, -1)"
    using l by (simp_all add: vfs_chmod_def vfs_read_def vfs_write_def Let_def split: option.splits)
qed

text \<open>\<open>vfs_list\<close> has no check, but below a directory with a double dot there is nothing.\<close>

lemma vfs_list_dotdot:
  assumes "vfs_inv s" "c_string d" "has_dotdot d"
  shows "vfs_list d k s = []"
proof -
  have "\<not> is_direct_child d (nd_path (nodes s ! i))" if i: "i < node_count s" "nd_type (nodes s ! i) \<noteq> VFS_UNUSED" for i
  proof
    assume c: "is_direct_child d (nd_path (nodes s ! i))"
    have ok: "path_ok (nd_path (nodes s ! i))" using live_path_ok [OF assms(1) i(1)] i(2) by (simp add: live_at_def)
    then obtain x where "nd_path (nodes s ! i) = dir_prefix d @ x"
      using c is_direct_child_iff [OF assms(2)] by (auto simp: path_ok_def)
    moreover have "d \<noteq> ''/''" using assms(3) by auto
    ultimately have "take (length d) (nd_path (nodes s ! i)) = d" by (simp add: dir_prefix_def)
    then have "has_dotdot (nd_path (nodes s ! i))" using has_dotdot_take [of "length d"] assms(3) by metis
    then show False using ok by (simp add: path_ok_def)
  qed
  then show ?thesis by (auto simp: vfs_list_def filter_empty_conv)
qed

text \<open>
  C21: no call goes through with a path that is null, empty or contains a double dot: every operation that creates, looks up,
  reads, writes, removes, renames or changes a node returns \<open>-1\<close> (a null pointer for \<open>vfs_lookup\<close>) and leaves the file system
  unchanged, and nothing is read. \<open>vfs_list\<close>, the one operation without the check, lists nothing below a directory
  whose name contains a double dot.
\<close>

theorem vfs_rejects_traversal:
  assumes "path = None \<or> path = Some [] \<or> (\<exists>a b. path = Some (a @ ''..'' @ b))"
  shows "vfs_mkdir path s = (s, -1) \<and> vfs_mkfile path c s = (s, -1) \<and> vfs_mkdev path s = (s, -1)
    \<and> vfs_mkproc path rd s = (s, -1) \<and> vfs_lookup path s = None \<and> vfs_read call path buf n s = (-1, None)
    \<and> vfs_write path d n s = (s, -1) \<and> vfs_remove path s = (s, -1) \<and> vfs_rename path q s = (s, -1)
    \<and> vfs_rename q path s = (s, -1) \<and> vfs_chmod path m s = (s, -1)
    \<and> (\<forall>dir. vfs_inv s \<and> path = Some dir \<and> dir \<noteq> [] \<and> c_string dir \<longrightarrow> vfs_list dir k s = [])"
proof -
  have "vfs_list dir k s = []" if "vfs_inv s \<and> path = Some dir \<and> dir \<noteq> [] \<and> c_string dir" for dir
    using that assms has_dotdot_iff [of dir] by (intro vfs_list_dotdot) auto
  then show ?thesis by (intro conjI allI impI vfs_rejects_traversal_parts [OF assms])
qed

theorem vfs_rejects_traversal_witness:
  "vfs_mkfile (Some ''/tmp/../etc/passwd'') (Some ''x'') (vfs_init blank_vfs :: unit vfs) = (vfs_init blank_vfs, -1)"
proof -
  have "''/tmp/../etc/passwd'' = ''/tmp/'' @ ''..'' @ ''/etc/passwd''" by simp
  then have "Some ''/tmp/../etc/passwd'' = None \<or> Some ''/tmp/../etc/passwd'' = Some [] \<or> (\<exists>a b. Some ''/tmp/../etc/passwd'' = Some (a @ ''..'' @ b))"
    by blast
  from vfs_rejects_traversal [OF this] show ?thesis by blast
qed

text \<open>
  C20: a file made under a new path with content shorter than 4096 characters reads back as that
  content, cut to the buffer size less one and to 4095 characters, and every other path keeps its entry.
\<close>

theorem vfs_mkfile_read:
  assumes "vfs_inv s" "path_ok p" "c_string c" "length c < 4096" "node_count s < VFS_MAX_NODES"
    and "vfs_view s p = None" "0 < n"
  shows "\<exists>t. vfs_mkfile (Some p) (Some c) s = (t, 0) \<and> vfs_inv t
    \<and> vfs_read call (Some p) True n t = (int (min (length c) (min n 4096 - 1)), Some (take (min n 4096 - 1) c))
    \<and> (\<forall>q. c_string q \<longrightarrow> q \<noteq> p \<longrightarrow> vfs_view t q = vfs_view s q)"
proof -
  have "kind_ok (KFile (Some c) :: 'a node_kind)" using assms(3,4) by (simp add: VFS_MAX_FILE_SIZE_def)
  then obtain t where t: "vfs_mkfile (Some p) (Some c) s = (t, 0)" "made s p VFS_FILE (Some c) None t"
    using vfs_make_made [OF assms(1,2) _ assms(5), of "KFile (Some c)"] by auto
  have p: "vfs_strcpy p VFS_PATH_LEN = p" "c_string p"
    using assms(2) by (simp_all add: path_ok_def vfs_strcpy_def c_strcpy_short)
  have v: "vfs_view t q = (case vfs_view s q of None \<Rightarrow> if p = q
        then Some (new_entry VFS_FILE (Some c) None (nd_perm (nodes s ! node_count s))) else None | Some e \<Rightarrow> Some e)"
    if "c_string q" for q
    using made_view [OF assms(1) t(2) _ that] p(1) by (simp add: eq_commute split: option.splits)
  have "vfs_view t p = Some (new_entry VFS_FILE (Some c) None (nd_perm (nodes s ! node_count s)))"
    using v [OF p(2)] assms(6) by simp
  then have "vfs_read call (Some p) True n t = (int (min (length c) (min n 4096 - 1)), Some (take (min n 4096 - 1) c))"
    by (rule vfs_read_view) (simp_all add: new_entry_def VFS_PERM_READ_def VFS_PERM_WRITE_def assms(7))
  then show ?thesis using t v made_inv [OF t(2)] by (auto split: option.splits)
qed

theorem vfs_mkfile_read_witness:
  "\<exists>t. vfs_mkfile (Some ''/a'') (Some ''hello'') (vfs_init blank_vfs) = (t, 0)
     \<and> vfs_read (\<lambda>(_::unit) _. (0, '''')) (Some ''/a'') True 3 t = (2, Some ''he'')"
  using vfs_mkfile_read [OF blank_vfs_inv, of "''/a''" "''hello''" 3 "\<lambda>(_::unit) _. (0, '''')"]
  by (auto simp: path_ok_def VFS_PATH_LEN_def VFS_MAX_NODES_def)

text \<open>
  C19: writing a C string to a writable, readable file stores it: the call returns the number of
  characters stored, at most 4095, a following read returns them, and every other path keeps its entry.
\<close>

theorem vfs_write_read:
  assumes "vfs_inv s" "c_string p" "c_string d" "vfs_view s p = Some e" "en_type e = VFS_FILE" "en_read e = None"
    and "(en_perm e AND VFS_PERM_WRITE) \<noteq> 0" "(en_perm e AND VFS_PERM_READ) \<noteq> 0" "0 < n"
  shows "\<exists>t. vfs_write (Some p) (Some d) (length d) s = (t, int (min (length d) 4095)) \<and> vfs_inv t
    \<and> vfs_read call (Some p) True n t =
        (int (min (length d) (min n 4096 - 1)), Some (take (min n 4096 - 1) d))
    \<and> (\<forall>q. c_string q \<longrightarrow> q \<noteq> p \<longrightarrow> vfs_view t q = vfs_view s q)"
proof -
  let ?r = "vfs_write (Some p) (Some d) (length d) s"
  note w = vfs_write_view [OF assms(1,2) _ assms(4-7), of _ d "length d"]
  have "map (char_at d) [0..<min (length d) 4095] = take 4095 d"
    by (rule nth_equalityI) (auto simp: char_at_def)
  then have c: "as_cstr (map (char_at d) [0..<min (length d) 4095]) = take 4095 d" using assms(3) by simp
  have "vfs_view (fst ?r) p = Some (e\<lparr>en_content := Some (take 4095 d)\<rparr>)" using w(2) [OF assms(2)] c by simp
  then have "vfs_read call (Some p) True n (fst ?r) =
      (int (min (length (take 4095 d)) (min n 4096 - 1)), Some (take (min n 4096 - 1) (take 4095 d)))"
    by (rule vfs_read_view) (simp_all add: assms)
  moreover have "min (length (take 4095 d)) (min n 4096 - 1) = min (length d) (min n 4096 - 1)"
    "take (min n 4096 - 1) (take 4095 d) = take (min n 4096 - 1) d"
    by (auto simp: min_def)
  moreover have "vfs_inv (fst ?r)" using vfs_write_inv [OF assms(1)] assms(2) by (simp add: cstr_ok_def)
  ultimately show ?thesis
    using w(1) [OF assms(2)] w(2) by (intro exI [of _ "fst ?r"]) (auto simp: prod_eq_iff)
qed

text \<open>A file system with one file, for the witnesses.\<close>

definition one_file :: "unit vfs" where
  "one_file = fst (vfs_mkfile (Some ''/a'') (Some ''hello'') (vfs_init blank_vfs))"

lemma one_file_made: "made (vfs_init blank_vfs) ''/a'' VFS_FILE (Some ''hello'') None one_file"
proof -
  obtain t where "vfs_make (KFile (Some ''hello'')) (Some ''/a'') (vfs_init blank_vfs :: unit vfs) = (t, 0)"
    "made (vfs_init blank_vfs) ''/a'' VFS_FILE (Some ''hello'') None t"
    by (rule vfs_make_made [OF blank_vfs_inv, of "''/a''" "KFile (Some ''hello'')"])
      (auto simp: path_ok_def VFS_PATH_LEN_def VFS_MAX_NODES_def VFS_MAX_FILE_SIZE_def)
  then show ?thesis by (simp add: one_file_def)
qed

lemma one_file_facts [simp]:
  "vfs_inv one_file" "unique_paths one_file"
  "vfs_view one_file ''/a'' = Some \<lparr>en_type = VFS_FILE, en_content = Some ''hello'', en_read = None, en_perm = 3\<rparr>"
  "vfs_view one_file ''/b'' = None"
proof -
  show "vfs_inv one_file" using one_file_made by (rule made_inv)
  show "unique_paths one_file" by (rule made_unique [OF blank_vfs_inv one_file_made]) simp_all
  show "vfs_view one_file ''/a'' = Some \<lparr>en_type = VFS_FILE, en_content = Some ''hello'', en_read = None, en_perm = 3\<rparr>"
    "vfs_view one_file ''/b'' = None"
    using made_view [OF blank_vfs_inv one_file_made]
    by (simp_all add: vfs_strcpy_def c_strcpy_def VFS_PATH_LEN_def new_entry_def VFS_PERM_READ_def VFS_PERM_WRITE_def)
qed

theorem vfs_write_read_witness:
  "\<exists>t. vfs_write (Some ''/a'') (Some ''bye'') 3 one_file = (t, 3)
     \<and> vfs_read (\<lambda>_ _. (0, '''')) (Some ''/a'') True 100 t = (3, Some ''bye'')"
  using vfs_write_read [of one_file "''/a''" "''bye''" _ 100 "\<lambda>_ _. (0, '''')"]
  by (auto simp: VFS_PERM_READ_def VFS_PERM_WRITE_def numeral_3_eq_3)


text \<open>
  What the three operations mean for a map from paths to entries, with their results: an entry is removed only if it is writable, a
  file is renamed only if it is writable and other entries always, the new path must be free, and permissions are
  replaced without a check. All else is refused with \<open>-1\<close>.
\<close>

definition remove_spec :: "string \<Rightarrow> (string \<Rightarrow> 'r entry option) \<Rightarrow> (string \<Rightarrow> 'r entry option) \<times> int" where
  "remove_spec p m = (case m p of Some e \<Rightarrow> if (en_perm e AND VFS_PERM_WRITE) \<noteq> 0 then (m(p := None), 0) else (m, -1) | None \<Rightarrow> (m, -1))"

definition rename_spec :: "string \<Rightarrow> string \<Rightarrow> (string \<Rightarrow> 'r entry option) \<Rightarrow> (string \<Rightarrow> 'r entry option) \<times> int" where
  "rename_spec p p' m = (case m p of
     Some e \<Rightarrow> if (en_type e = VFS_FILE \<longrightarrow> (en_perm e AND VFS_PERM_WRITE) \<noteq> 0) \<and> m p' = None then (m(p := None, p' \<mapsto> e), 0) else (m, -1)
   | None \<Rightarrow> (m, -1))"

definition chmod_spec :: "string \<Rightarrow> u16 \<Rightarrow> (string \<Rightarrow> 'r entry option) \<Rightarrow> (string \<Rightarrow> 'r entry option) \<times> int" where
  "chmod_spec p perm m = (case m p of Some e \<Rightarrow> (m(p \<mapsto> e\<lparr>en_perm := perm\<rparr>), 0) | None \<Rightarrow> (m, -1))"

text \<open>A concrete result refines an abstract one if the codes agree, and the views on all C strings.\<close>

definition refines :: "'r vfs \<times> int \<Rightarrow> (string \<Rightarrow> 'r entry option) \<times> int \<Rightarrow> bool" where
  "refines c a \<longleftrightarrow> snd c = snd a \<and> (\<forall>q. c_string q \<longrightarrow> vfs_view (fst c) q = fst a q)"

lemma vfs_remove_refines:
  assumes "vfs_inv s" "unique_paths s" "c_string p"
  shows "refines (vfs_remove (Some p) s) (remove_spec p (vfs_view s))"
proof (cases "vfs_view s p")
  case None
  then have "vfs_remove (Some p) s = (s, -1)" by (simp add: vfs_remove_eq vfs_view_def)
  then show ?thesis using None by (simp add: refines_def remove_spec_def)
next
  case (Some e)
  show ?thesis
  proof (cases "(en_perm e AND VFS_PERM_WRITE) = 0")
    case True
    then have "vfs_remove (Some p) s = (s, -1)" using Some by (auto simp: vfs_remove_eq vfs_view_def entry_of_def)
    then show ?thesis using Some True by (simp add: refines_def remove_spec_def)
  next
    case False
    then show ?thesis using vfs_remove_view [OF assms _ Some False] Some assms(3) by (auto simp: refines_def remove_spec_def)
  qed
qed

lemma vfs_rename_refines:
  assumes "vfs_inv s" "unique_paths s" "c_string p" "path_ok p'"
  shows "refines (vfs_rename (Some p) (Some p') s) (rename_spec p p' (vfs_view s))"
proof (cases "\<exists>e. vfs_view s p = Some e \<and> (en_type e = VFS_FILE \<longrightarrow> (en_perm e AND VFS_PERM_WRITE) \<noteq> 0) \<and> vfs_view s p' = None")
  case True
  then obtain e where e: "vfs_view s p = Some e" "en_type e = VFS_FILE \<longrightarrow> (en_perm e AND VFS_PERM_WRITE) \<noteq> 0" "vfs_view s p' = None"
    by blast
  then show ?thesis using vfs_rename_view [OF assms(1-4) _ e] assms(3) by (auto simp: refines_def rename_spec_def)
next
  case False
  then have "vfs_rename (Some p) (Some p') s = (s, -1)"
    by (auto simp: vfs_rename_def vfs_view_def entry_of_def split: option.splits)
  moreover have "rename_spec p p' (vfs_view s) = (vfs_view s, -1)" using False by (auto simp: rename_spec_def split: option.splits)
  ultimately show ?thesis by (simp add: refines_def)
qed

lemma vfs_chmod_refines:
  assumes "vfs_inv s" "c_string p"
  shows "refines (vfs_chmod (Some p) perm s) (chmod_spec p perm (vfs_view s))"
proof (cases "vfs_view s p")
  case None
  then show ?thesis by (simp add: refines_def chmod_spec_def vfs_chmod_def vfs_view_def)
next
  case (Some e)
  then show ?thesis using vfs_chmod_view [OF assms _ Some, of _ perm] assms(2) by (auto simp: refines_def chmod_spec_def)
qed

text \<open>
  C18: on a file system whose live paths are distinct, \<open>vfs_remove\<close>, \<open>vfs_rename\<close> (to a valid path of at most 127
  characters) and \<open>vfs_chmod\<close> refine their specifications on the map from paths to entries, on every branch: the result code
  and the entry of every path are those of the specification, refusals included.
\<close>

theorem vfs_update_refines:
  assumes "vfs_inv s" "unique_paths s" "c_string p" "path_ok p'"
  shows "refines (vfs_remove (Some p) s) (remove_spec p (vfs_view s))
    \<and> refines (vfs_rename (Some p) (Some p') s) (rename_spec p p' (vfs_view s))
    \<and> refines (vfs_chmod (Some p) perm s) (chmod_spec p perm (vfs_view s))"
  by (intro conjI vfs_remove_refines vfs_rename_refines vfs_chmod_refines assms)

theorem vfs_update_refines_witness:
  "\<exists>t. vfs_rename (Some ''/a'') (Some ''/b'') one_file = (t, 0) \<and> vfs_view t ''/a'' = None \<and> snd (vfs_remove (Some ''/a'') one_file) = 0"
proof -
  have "path_ok ''/b''" by (simp add: path_ok_def VFS_PATH_LEN_def)
  from vfs_update_refines [OF one_file_facts(1,2) _ this, of "''/a''" 0]
  show ?thesis by (intro exI [of _ "fst (vfs_rename (Some ''/a'') (Some ''/b'') one_file)"])
    (simp add: refines_def rename_spec_def remove_spec_def VFS_PERM_WRITE_def prod_eq_iff)
qed

text \<open>The children of a directory, in slot order.\<close>

definition children :: "string \<Rightarrow> 'r vfs \<Rightarrow> nat list" where
  "children dir s = filter (\<lambda>i. nd_type (nodes s ! i) \<noteq> VFS_UNUSED \<and> is_direct_child dir (nd_path (nodes s ! i))) [0..<node_count s]"

lemma children_iff:
  assumes "vfs_inv s" "c_string dir"
  shows "i \<in> set (children dir s) \<longleftrightarrow> i < node_count s \<and> nd_type (nodes s ! i) \<noteq> VFS_UNUSED
     \<and> child_name (vfs_basename (nd_path (nodes s ! i)))
     \<and> nd_path (nodes s ! i) = dir_prefix dir @ vfs_basename (nd_path (nodes s ! i))"
proof (cases "i < node_count s \<and> nd_type (nodes s ! i) \<noteq> VFS_UNUSED")
  case True
  then have "c_string (nd_path (nodes s ! i))"
    using live_path_ok [OF assms(1), of i] by (auto simp: live_at_def path_ok_def)
  from is_direct_child_iff [OF assms(2) this] True show ?thesis using vfs_basename_child by (simp add: children_def) metis
qed (auto simp: children_def)

text \<open>
  C22: \<open>vfs_list\<close> with room for \<open>n\<close> entries returns at most \<open>n\<close> node numbers, in slot order and without repetition: the first
  \<open>n\<close> of the list of the live nodes directly below the directory, which are those whose path is the directory, a slash and a
  non-empty name without a slash, the name \<open>vfs_basename\<close> prints.
\<close>

theorem vfs_list_children:
  assumes "vfs_inv s" "c_string dir"
  shows "\<exists>cs. sorted cs \<and> distinct cs \<and> vfs_list dir n s = take n cs \<and> length (vfs_list dir n s) \<le> n
    \<and> (\<forall>i. i \<in> set cs \<longleftrightarrow> i < node_count s \<and> nd_type (nodes s ! i) \<noteq> VFS_UNUSED
       \<and> child_name (vfs_basename (nd_path (nodes s ! i)))
       \<and> nd_path (nodes s ! i) = dir_prefix dir @ vfs_basename (nd_path (nodes s ! i)))"
proof (rule exI [of _ "children dir s"], intro conjI allI)
  show "sorted (children dir s)" "distinct (children dir s)" by (simp_all add: children_def sorted_wrt_filter)
  show "vfs_list dir n s = take n (children dir s)" by (simp add: children_def vfs_list_def)
  show "length (vfs_list dir n s) \<le> n" by (simp add: vfs_list_def)
qed (rule children_iff [OF assms])

text \<open>With room for one entry, \<open>/a\<close> and nothing else is listed.\<close>

theorem vfs_list_children_witness: "length (vfs_list ''/'' 1 one_file) = 1"
proof -
  have i: "0 < node_count one_file \<and> nd_type (nodes one_file ! 0) \<noteq> VFS_UNUSED \<and> nd_path (nodes one_file ! 0) = ''/a''"
    using one_file_made by (simp add: made_def Let_def vfs_init_def vfs_strcpy_def c_strcpy_def VFS_PATH_LEN_def)
  have b: "vfs_basename ''/a'' = ''a''" by (simp add: vfs_basename_def char_at_def)
  obtain cs where cs: "vfs_list ''/'' 1 one_file = take 1 cs" "0 \<in> set cs"
    using vfs_list_children [OF one_file_facts(1), of "''/''" 1] i b by (auto simp: child_name_def dir_prefix_def)
  then show ?thesis by (cases cs) auto
qed

text \<open>
  A path of 128 to 255 characters passes validation, \<open>vfs_mkdir\<close> stores it cut to 127 characters and
  reports success, and looking the path up afterwards finds nothing.
\<close>

lemma vfs_long_path_lost:
  assumes "vfs_inv s" "c_string p" "\<not> has_dotdot p" "128 \<le> length p" "length p < 256" "node_count s < VFS_MAX_NODES"
  shows "\<exists>t. vfs_mkdir (Some p) s = (t, 0) \<and> node_count t = Suc (node_count s)
    \<and> nd_path (nodes t ! node_count s) = take 127 p \<and> vfs_lookup (Some p) t = None"
proof -
  have ok: "cstr_ok (Some p)" using assms(2) by (simp add: cstr_ok_def)
  have "snd (vfs_mkdir (Some p) s) = 0"
    using assms by (auto simp: vfs_mkdir_def is_valid_path_Some is_valid_path_len_Some vfs_alloc_def Let_def)
  then obtain t where t: "vfs_mkdir (Some p) s = (t, 0)" "made s p VFS_DIR None None t"
    by (cases rule: vfs_mkdir_cases [OF assms(1) ok]) auto
  have "vfs_lookup (Some p) t = None"
    by (rule vfs_lookup_long [OF made_inv [OF t(2)] assms(2)]) (simp add: assms VFS_PATH_LEN_def)
  then show ?thesis
    using t by (auto simp: made_def Let_def vfs_strcpy_def c_strcpy_def VFS_PATH_LEN_def)
qed

end
