(* ===== verification/Ring.thy ===== *)
theory Ring
  imports Eron_Prelude
begin

text \<open>
  Bounded queues: the contract of an input buffer that a driver fills and the kernel drains, and the
  ring buffer arithmetic that the keyboard and mouse drivers use, with one slot left free to tell a
  full ring from an empty one.
\<close>

section \<open>The contract\<close>

locale bounded_queue =
  fixes contents :: "'s \<Rightarrow> 'a list"
    and put :: "'a \<Rightarrow> 's \<Rightarrow> 's"
    and get :: "'s \<Rightarrow> 'a option \<times> 's"
    and ok :: "'s \<Rightarrow> bool"
    and item :: "'a \<Rightarrow> bool"
    and cap :: nat
  assumes put_ok: "ok s \<Longrightarrow> item x \<Longrightarrow> ok (put x s)"
    and put_contents: "ok s \<Longrightarrow> item x \<Longrightarrow> contents (put x s) = (if length (contents s) < cap then contents s @ [x] else contents s)"
    and bounded: "ok s \<Longrightarrow> length (contents s) \<le> cap"
    and get_empty: "ok s \<Longrightarrow> contents s = [] \<Longrightarrow> get s = (None, s)"
    and get_head: "ok s \<Longrightarrow> contents s = x # xs \<Longrightarrow> fst (get s) = Some x \<and> contents (snd (get s)) = xs \<and> ok (snd (get s))"
begin

primrec drain :: "nat \<Rightarrow> 's \<Rightarrow> 'a list \<times> 's" where
  "drain 0 s = ([], s)"
| "drain (Suc n) s = (case get s of (None, s') \<Rightarrow> ([], s') | (Some x, s') \<Rightarrow> (case drain n s' of (xs, s'') \<Rightarrow> (x # xs, s'')))"

lemma put_all_contents:
  "ok s \<Longrightarrow> \<forall>x\<in>set xs. item x \<Longrightarrow> ok (fold put xs s) \<and> contents (fold put xs s) = take cap (contents s @ xs)"
proof (induction xs arbitrary: s)
  case (Cons x xs)
  have "take cap (contents (put x s) @ xs) = take cap (contents s @ x # xs)"
    using put_contents [of s x] bounded [OF Cons.prems(1)] Cons.prems by (auto simp: take_Cons')
  then show ?case using Cons put_ok by simp
qed (simp add: bounded)

lemma drain_contents:
  "ok s \<Longrightarrow> fst (drain n s) = take n (contents s) \<and> contents (snd (drain n s)) = drop n (contents s) \<and> ok (snd (drain n s))"
proof (induction n arbitrary: s)
  case (Suc n)
  show ?case
  proof (cases "contents s")
    case Nil
    then show ?thesis using get_empty [OF Suc.prems Nil] Suc.prems by simp
  next
    case (Cons x xs)
    note h = get_head [OF Suc.prems Cons]
    obtain s' where s': "get s = (Some x, s')" using h by (cases "get s") auto
    then show ?thesis using Suc.IH [of s'] h Cons by (simp add: case_prod_unfold)
  qed
qed simp

text \<open>What is put in comes out in order, up to the capacity.\<close>

lemma put_drain:
  assumes "ok s" "\<forall>x\<in>set xs. item x"
  shows "fst (drain n (fold put xs s)) = take n (take cap (contents s @ xs))"
  using put_all_contents [OF assms] drain_contents by simp

end

section \<open>Ring buffers\<close>

definition ring_len :: "nat \<Rightarrow> nat \<Rightarrow> nat \<Rightarrow> nat" where
  "ring_len n h t = (h + n - t) mod n"

definition ring_list :: "'a list \<Rightarrow> nat \<Rightarrow> nat \<Rightarrow> 'a list" where
  "ring_list buf h t = map (\<lambda>i. buf ! ((t + i) mod length buf)) [0..<ring_len (length buf) h t]"

lemma ring_len_eq: "h < n \<Longrightarrow> t < n \<Longrightarrow> ring_len n h t = (if t \<le> h then h - t else h + n - t)"
proof (cases "t \<le> h")
  case True
  assume "h < n" "t < n"
  have "ring_len n h t = (h - t + n) mod n" using True by (simp add: ring_len_def)
  then show ?thesis using True \<open>h < n\<close> by (simp only: mod_add_self2) simp
qed (simp add: ring_len_def)

lemma ring_succ: "h < n \<Longrightarrow> (h + 1) mod n = (if h + 1 = n then 0 else h + 1)" for h n :: nat
  by (cases "h + 1 = n") auto

lemma ring_pos: "t < n \<Longrightarrow> i < n \<Longrightarrow> (t + i) mod n = (if t + i < n then t + i else t + i - n)" for t n i :: nat
  by (auto simp: mod_if [of "t + i"])

lemma ring_len_bound: "h < n \<Longrightarrow> t < n \<Longrightarrow> ring_len n h t < n"
  by (simp add: ring_len_def)

lemma ring_len_empty: "h < n \<Longrightarrow> t < n \<Longrightarrow> ring_len n h t = 0 \<longleftrightarrow> h = t"
  by (auto simp: ring_len_eq)

lemma ring_head: "h < n \<Longrightarrow> t < n \<Longrightarrow> (t + ring_len n h t) mod n = h"
  using ring_pos [of t n "ring_len n h t"] ring_len_bound [of h n t] by (auto simp: ring_len_eq split: if_splits)

lemma ring_len_put:
  assumes "h < n" "t < n" "(h + 1) mod n \<noteq> t"
  shows "ring_len n ((h + 1) mod n) t = Suc (ring_len n h t)" "Suc (ring_len n h t) < n"
proof -
  have h': "(h + 1) mod n < n" using assms(1) by simp
  have ne: "(if h + 1 = n then 0 else h + 1) \<noteq> t" using assms(3) unfolding ring_succ [OF assms(1)] .
  show "ring_len n ((h + 1) mod n) t = Suc (ring_len n h t)" "Suc (ring_len n h t) < n"
    unfolding ring_len_eq [OF h' assms(2)] ring_len_eq [OF assms(1,2)] unfolding ring_succ [OF assms(1)]
    using ne assms(1,2) by (auto split: if_splits)
qed

lemma ring_put:
  assumes "h < length buf" "t < length buf" "(h + 1) mod length buf \<noteq> t"
  shows "ring_list (buf[h := x]) ((h + 1) mod length buf) t = ring_list buf h t @ [x]"
proof -
  let ?n = "length buf"
  note l = ring_len_put [OF assms]
  have "(t + i) mod ?n \<noteq> h" if "i < ring_len ?n h t" for i
  proof -
    have i: "i < ?n" using that ring_len_bound [OF assms(1,2)] by simp
    show ?thesis
      unfolding ring_pos [OF assms(2) i] using that assms(1,2) unfolding ring_len_eq [OF assms(1,2)] by (auto split: if_splits)
  qed
  then have "buf[h := x] ! ((t + i) mod ?n) = buf ! ((t + i) mod ?n)" if "i < ring_len ?n h t" for i
    using that by (metis nth_list_update_neq)
  then have old: "map (\<lambda>i. buf[h := x] ! ((t + i) mod ?n)) [0..<ring_len ?n h t] = ring_list buf h t"
    by (auto simp: ring_list_def)
  have "ring_list (buf[h := x]) ((h + 1) mod ?n) t = map (\<lambda>i. buf[h := x] ! ((t + i) mod ?n)) [0..<Suc (ring_len ?n h t)]"
    using l(1) by (simp add: ring_list_def)
  also have "\<dots> = ring_list buf h t @ [x]" using old ring_head [OF assms(1,2)] assms(1) by simp
  finally show ?thesis .
qed

lemma ring_full:
  assumes "h < n" "t < n" "(h + 1) mod n = t"
  shows "ring_len n h t = n - 1"
  using assms(3) unfolding ring_len_eq [OF assms(1,2)] ring_succ [OF assms(1)] using assms(1) by (auto split: if_splits)

lemma ring_len_get:
  assumes "h < n" "t < n" "h \<noteq> t"
  shows "ring_len n h t = Suc (ring_len n h ((t + 1) mod n))"
proof -
  have t': "(t + 1) mod n < n" using assms(1) by simp
  show ?thesis
    unfolding ring_len_eq [OF assms(1,2)] ring_len_eq [OF assms(1) t'] unfolding ring_succ [OF assms(2)]
    using assms by auto
qed

lemma ring_get:
  assumes "h < length buf" "t < length buf" "h \<noteq> t"
  shows "ring_list buf h t = buf ! t # ring_list buf h ((t + 1) mod length buf)"
proof -
  let ?n = "length buf" and ?f = "\<lambda>i. buf ! ((t + i) mod length buf)"
  have "(t + Suc i) mod ?n = ((t + 1) mod ?n + i) mod ?n" for i
    using mod_add_left_eq [of "t + 1" ?n i] by simp
  then have tl: "ring_list buf h ((t + 1) mod ?n) = map (?f \<circ> Suc) [0..<ring_len ?n h ((t + 1) mod ?n)]"
    by (simp add: ring_list_def)
  have "ring_list buf h t = map ?f (0 # map Suc [0..<ring_len ?n h ((t + 1) mod ?n)])"
    unfolding ring_list_def ring_len_get [OF assms] by (simp only: map_Suc_upt upt_conv_Cons zero_less_Suc)
  also have "\<dots> = buf ! t # ring_list buf h ((t + 1) mod ?n)" unfolding tl using assms(2) by simp
  finally show ?thesis .
qed

end
