(* ===== verification/Tty.thy ===== *)
theory Tty
  imports Cstring
begin

unbundle bit_operations_syntax

text \<open>
  The text terminal of \<^verbatim>\<open>src/src/kernel/tty.c\<close> with the VGA cell encoding of \<^verbatim>\<open>vga.h\<close> and the display query
  of \<^verbatim>\<open>display.c\<close>. The text buffer is the array of 16-bit cells from \<open>0xB8000\<close> on, indexed without bound, so
  that a write behind the 2000 cells of the screen is visible in the model.
\<close>

section \<open>VGA cells (vga.h)\<close>

datatype vga_color = VGA_COLOR_BLACK | VGA_COLOR_BLUE | VGA_COLOR_GREEN | VGA_COLOR_CYAN | VGA_COLOR_RED
  | VGA_COLOR_MAGENTA | VGA_COLOR_BROWN | VGA_COLOR_LIGHT_GREY | VGA_COLOR_DARK_GREY | VGA_COLOR_LIGHT_BLUE
  | VGA_COLOR_LIGHT_GREEN | VGA_COLOR_LIGHT_CYAN | VGA_COLOR_LIGHT_RED | VGA_COLOR_LIGHT_MAGENTA
  | VGA_COLOR_LIGHT_BROWN | VGA_COLOR_WHITE

primrec color_code :: "vga_color \<Rightarrow> u8" where
  "color_code VGA_COLOR_BLACK = 0" | "color_code VGA_COLOR_BLUE = 1" | "color_code VGA_COLOR_GREEN = 2"
| "color_code VGA_COLOR_CYAN = 3" | "color_code VGA_COLOR_RED = 4" | "color_code VGA_COLOR_MAGENTA = 5"
| "color_code VGA_COLOR_BROWN = 6" | "color_code VGA_COLOR_LIGHT_GREY = 7" | "color_code VGA_COLOR_DARK_GREY = 8"
| "color_code VGA_COLOR_LIGHT_BLUE = 9" | "color_code VGA_COLOR_LIGHT_GREEN = 10" | "color_code VGA_COLOR_LIGHT_CYAN = 11"
| "color_code VGA_COLOR_LIGHT_RED = 12" | "color_code VGA_COLOR_LIGHT_MAGENTA = 13"
| "color_code VGA_COLOR_LIGHT_BROWN = 14" | "color_code VGA_COLOR_WHITE = 15"

definition vga_entry_color :: "vga_color \<Rightarrow> vga_color \<Rightarrow> u8" where
  "vga_entry_color fg bg = color_code fg OR push_bit 4 (color_code bg)"

definition vga_entry :: "char \<Rightarrow> u8 \<Rightarrow> u16" where
  "vga_entry uc color = of_char uc OR push_bit 8 (ucast color)"

section \<open>Terminal (tty.c)\<close>

definition VGA_WIDTH :: nat where "VGA_WIDTH = 80"
definition VGA_HEIGHT :: nat where "VGA_HEIGHT = 25"

record terminal =
  terminal_row :: nat
  terminal_column :: nat
  terminal_color :: u8
  terminal_buffer :: "nat \<Rightarrow> u16"

text \<open>The scroll loops copy each row from the one below, then blank the last row.\<close>

definition scroll_cell :: "nat \<Rightarrow> nat \<Rightarrow> (nat \<Rightarrow> u16) \<Rightarrow> (nat \<Rightarrow> u16)" where
  "scroll_cell y x b = b(y * VGA_WIDTH + x := b ((y + 1) * VGA_WIDTH + x))"

definition terminal_scroll :: "terminal \<Rightarrow> terminal" where
  "terminal_scroll t =
     (let b = fold (\<lambda>y. fold (scroll_cell y) [0..<VGA_WIDTH]) [0..<VGA_HEIGHT - 1] (terminal_buffer t);
          b = fold (\<lambda>x b. b((VGA_HEIGHT - 1) * VGA_WIDTH + x := vga_entry CHR '' '' (terminal_color t))) [0..<VGA_WIDTH] b
      in t\<lparr>terminal_buffer := b\<rparr>)"

definition fill_screen :: "u16 \<Rightarrow> (nat \<Rightarrow> u16) \<Rightarrow> (nat \<Rightarrow> u16)" where
  "fill_screen e b = fold (\<lambda>y. fold (\<lambda>x b. b(y * VGA_WIDTH + x := e)) [0..<VGA_WIDTH]) [0..<VGA_HEIGHT] b"

definition terminal_initialize :: "terminal \<Rightarrow> terminal" where
  "terminal_initialize t =
     (let t = t\<lparr>terminal_row := 0, terminal_column := 0,
                terminal_color := vga_entry_color VGA_COLOR_LIGHT_GREY VGA_COLOR_BLACK\<rparr>
      in terminal_buffer_update (fill_screen (vga_entry CHR '' '' (terminal_color t))) t)"

definition terminal_setcolor :: "u8 \<Rightarrow> terminal \<Rightarrow> terminal" where
  "terminal_setcolor color t = t\<lparr>terminal_color := color\<rparr>"

definition terminal_setpos :: "nat \<Rightarrow> nat \<Rightarrow> terminal \<Rightarrow> terminal" where
  "terminal_setpos x y t = t\<lparr>terminal_column := x, terminal_row := y\<rparr>"

definition terminal_getrow :: "terminal \<Rightarrow> nat" where
  "terminal_getrow t = terminal_row t"

definition terminal_getcolumn :: "terminal \<Rightarrow> nat" where
  "terminal_getcolumn t = terminal_column t"

definition terminal_putentryat :: "char \<Rightarrow> u8 \<Rightarrow> nat \<Rightarrow> nat \<Rightarrow> terminal \<Rightarrow> terminal" where
  "terminal_putentryat c color x y t = terminal_buffer_update (\<lambda>b. b(y * VGA_WIDTH + x := vga_entry c color)) t"

text \<open>The line break that three branches of \<open>terminal_putchar\<close> repeat.\<close>

definition terminal_newline :: "terminal \<Rightarrow> terminal" where
  "terminal_newline t =
     (let t = t\<lparr>terminal_column := 0, terminal_row := terminal_row t + 1\<rparr>
      in if terminal_row t \<ge> VGA_HEIGHT then (terminal_scroll t)\<lparr>terminal_row := VGA_HEIGHT - 1\<rparr> else t)"

primrec tab_loop :: "nat \<Rightarrow> terminal \<Rightarrow> terminal" where
  "tab_loop 0 t = t"
| "tab_loop (Suc n) t =
     (if terminal_column t < VGA_WIDTH then
        tab_loop n (terminal_column_update Suc
          (terminal_putentryat CHR '' '' (terminal_color t) (terminal_column t) (terminal_row t) t))
      else t)"

definition terminal_putchar :: "char \<Rightarrow> terminal \<Rightarrow> terminal" where
  "terminal_putchar c t =
     (if c = CHR 0x0A then terminal_newline t
      else if c = CHR 0x08 then
        (if terminal_column t > 0 then
           let t = t\<lparr>terminal_column := terminal_column t - 1\<rparr>
           in terminal_putentryat CHR '' '' (terminal_color t) (terminal_column t) (terminal_row t) t
         else t)
      else if c = CHR 0x09 then
        let spaces = 8 - terminal_column t mod 8; t = tab_loop spaces t
        in if terminal_column t \<ge> VGA_WIDTH then terminal_newline t else t
      else
        let t = terminal_putentryat c (terminal_color t) (terminal_column t) (terminal_row t) t;
            t = terminal_column_update Suc t
        in if terminal_column t \<ge> VGA_WIDTH then terminal_newline t else t)"

definition terminal_writestring :: "string \<Rightarrow> terminal \<Rightarrow> terminal" where
  "terminal_writestring data t = fold terminal_putchar data t"

primrec write_at_loop :: "string \<Rightarrow> nat \<Rightarrow> nat \<Rightarrow> u8 \<Rightarrow> terminal \<Rightarrow> terminal" where
  "write_at_loop [] x y color t = t"
| "write_at_loop (c # cs) x y color t =
     (if x \<ge> VGA_WIDTH then t else write_at_loop cs (x + 1) y color (terminal_putentryat c color x y t))"

definition terminal_write_at :: "string \<Rightarrow> nat \<Rightarrow> nat \<Rightarrow> u8 \<Rightarrow> terminal \<Rightarrow> terminal" where
  "terminal_write_at text x y color t = write_at_loop text x y color t"

definition terminal_clear :: "terminal \<Rightarrow> terminal" where
  "terminal_clear t =
     (let bg = vga_entry_color VGA_COLOR_LIGHT_GREY VGA_COLOR_BLACK
      in (terminal_buffer_update (fill_screen (vga_entry CHR '' '' bg)) t)\<lparr>terminal_row := 0, terminal_column := 0\<rparr>)"

section \<open>Display query (display.c)\<close>

datatype display_mode = DISPLAY_TEXT | DISPLAY_FRAMEBUFFER

record display_info =
  di_mode :: display_mode
  di_width :: u32
  di_height :: u32
  di_bpp :: u32
  di_pitch :: u32
  di_framebuffer :: u32

definition display_get_info :: display_info where
  "display_get_info = \<lparr>di_mode = DISPLAY_TEXT, di_width = 80, di_height = 25, di_bpp = 4, di_pitch = 160, di_framebuffer = 0xB8000\<rparr>"

definition display_current_mode :: display_mode where
  "display_current_mode = DISPLAY_TEXT"

section \<open>Cells and rows\<close>

lemma cell_inj: "x < VGA_WIDTH \<Longrightarrow> x' < VGA_WIDTH \<Longrightarrow> y * VGA_WIDTH + x = y' * VGA_WIDTH + x' \<longleftrightarrow> y = y' \<and> x = x'"
proof -
  have dm: "(y * VGA_WIDTH + x) div VGA_WIDTH = y" "(y * VGA_WIDTH + x) mod VGA_WIDTH = x" if "x < VGA_WIDTH" for x y
    using that by simp_all
  assume x: "x < VGA_WIDTH" "x' < VGA_WIDTH"
  show ?thesis using dm [OF x(1), of y] dm [OF x(2), of y'] by (metis)
qed

lemma cell_screen: "y < VGA_HEIGHT \<Longrightarrow> x < VGA_WIDTH \<Longrightarrow> y * VGA_WIDTH + x < VGA_HEIGHT * VGA_WIDTH"
  by (simp add: VGA_WIDTH_def VGA_HEIGHT_def)

lemma fold_row:
  "n \<le> VGA_WIDTH \<Longrightarrow> fold (\<lambda>x b. b(y * VGA_WIDTH + x := f x)) [0..<n] b i =
     (if \<exists>x<n. i = y * VGA_WIDTH + x then f (i - y * VGA_WIDTH) else b i)"
  by (induction n) (auto simp: less_Suc_eq)

lemma scroll_row:
  "n \<le> VGA_WIDTH \<Longrightarrow> fold (scroll_cell y) [0..<n] b i =
     (if \<exists>x<n. i = y * VGA_WIDTH + x then b (i + VGA_WIDTH) else b i)"
proof (induction n arbitrary: i)
  case (Suc n)
  let ?b = "fold (scroll_cell y) [0..<n] b"
  have below: "?b ((y + 1) * VGA_WIDTH + n) = b ((y + 1) * VGA_WIDTH + n)"
    using Suc.IH [of "(y + 1) * VGA_WIDTH + n"] Suc.prems by auto
  have "fold (scroll_cell y) [0..<Suc n] b i = (if i = y * VGA_WIDTH + n then ?b ((y + 1) * VGA_WIDTH + n) else ?b i)"
    by (simp add: scroll_cell_def)
  also have "\<dots> = (if i = y * VGA_WIDTH + n then b (i + VGA_WIDTH) else ?b i)"
    using below by (simp add: algebra_simps)
  also have "?b i = (if \<exists>x<n. i = y * VGA_WIDTH + x then b (i + VGA_WIDTH) else b i)" using Suc by simp
  finally show ?case by (auto simp: less_Suc_eq)
qed simp

lemma scroll_rows:
  "fold (\<lambda>y. fold (scroll_cell y) [0..<VGA_WIDTH]) [0..<n] b i = (if i < n * VGA_WIDTH then b (i + VGA_WIDTH) else b i)"
proof (induction n arbitrary: i)
  case (Suc n)
  let ?b = "fold (\<lambda>y. fold (scroll_cell y) [0..<VGA_WIDTH]) [0..<n] b"
  have row: "(\<exists>x<VGA_WIDTH. i = n * VGA_WIDTH + x) \<longleftrightarrow> n * VGA_WIDTH \<le> i \<and> i < Suc n * VGA_WIDTH" for i
    by (auto simp: le_iff_add)
  have "fold (\<lambda>y. fold (scroll_cell y) [0..<VGA_WIDTH]) [0..<Suc n] b i = fold (scroll_cell n) [0..<VGA_WIDTH] ?b i"
    by simp
  also have "\<dots> = (if n * VGA_WIDTH \<le> i \<and> i < Suc n * VGA_WIDTH then ?b (i + VGA_WIDTH) else ?b i)"
    unfolding scroll_row [OF order_refl] row ..
  finally show ?case using Suc.IH [of i] Suc.IH [of "i + VGA_WIDTH"] by auto
qed simp

lemma terminal_scroll_cell:
  "terminal_buffer (terminal_scroll t) i =
     (if i < 24 * VGA_WIDTH then terminal_buffer t (i + VGA_WIDTH)
      else if i < 25 * VGA_WIDTH then vga_entry CHR '' '' (terminal_color t) else terminal_buffer t i)"
proof -
  have row: "(\<exists>x<VGA_WIDTH. i = 24 * VGA_WIDTH + x) \<longleftrightarrow> 24 * VGA_WIDTH \<le> i \<and> i < 25 * VGA_WIDTH"
    by (auto simp: le_iff_add)
  show ?thesis
    using fold_row [of VGA_WIDTH 24 "\<lambda>_. vga_entry CHR '' '' (terminal_color t)"]
      scroll_rows [of 24 "terminal_buffer t" i] row
    by (simp add: terminal_scroll_def Let_def VGA_HEIGHT_def)
qed

lemma terminal_scroll_fields [simp]:
  "terminal_row (terminal_scroll t) = terminal_row t" "terminal_column (terminal_scroll t) = terminal_column t"
  "terminal_color (terminal_scroll t) = terminal_color t"
  by (simp_all add: terminal_scroll_def Let_def)

lemma fill_screen_cell: "fill_screen e b i = (if i < VGA_HEIGHT * VGA_WIDTH then e else b i)"
proof -
  have "fold (\<lambda>y. fold (\<lambda>x b. b(y * VGA_WIDTH + x := e)) [0..<VGA_WIDTH]) [0..<n] b i = (if i < n * VGA_WIDTH then e else b i)" for n
  proof (induction n)
    case (Suc n)
    let ?b = "fold (\<lambda>y. fold (\<lambda>x b. b(y * VGA_WIDTH + x := e)) [0..<VGA_WIDTH]) [0..<n] b"
    have row: "(\<exists>x<VGA_WIDTH. i = n * VGA_WIDTH + x) \<longleftrightarrow> n * VGA_WIDTH \<le> i \<and> i < Suc n * VGA_WIDTH"
      by (auto simp: le_iff_add)
    have "fold (\<lambda>y. fold (\<lambda>x b. b(y * VGA_WIDTH + x := e)) [0..<VGA_WIDTH]) [0..<Suc n] b i
        = fold (\<lambda>x b. b(n * VGA_WIDTH + x := e)) [0..<VGA_WIDTH] ?b i" by (simp del: fun_upd_apply)
    also have "\<dots> = (if n * VGA_WIDTH \<le> i \<and> i < Suc n * VGA_WIDTH then e else ?b i)"
      unfolding fold_row [OF order_refl] row ..
    also have "?b i = (if i < n * VGA_WIDTH then e else b i)" by (rule Suc)
    finally have eq: "fold (\<lambda>y. fold (\<lambda>x b. b(y * VGA_WIDTH + x := e)) [0..<VGA_WIDTH]) [0..<Suc n] b i
        = (if n * VGA_WIDTH \<le> i \<and> i < Suc n * VGA_WIDTH then e else if i < n * VGA_WIDTH then e else b i)" .
    show ?case unfolding eq by auto
  qed simp
  then show ?thesis by (simp add: fill_screen_def)
qed

section \<open>The terminal as a window on a paper roll\<close>

text \<open>
  The specification: characters are written on an endless roll of 80-column lines and never move. A line
  beyond the first 25 is blanked in the current colour when the writer reaches it. The screen shows the
  last 25 lines.
\<close>

record paper =
  pr_line :: nat
  pr_col :: nat
  pr_color :: u8
  pr_cell :: "nat \<Rightarrow> nat \<Rightarrow> u16"

definition paper_put :: "char \<Rightarrow> paper \<Rightarrow> paper" where
  "paper_put c p = p\<lparr>pr_cell := (pr_cell p)(pr_line p := (pr_cell p (pr_line p))(pr_col p := vga_entry c (pr_color p)))\<rparr>"

definition paper_newline :: "paper \<Rightarrow> paper" where
  "paper_newline p = p\<lparr>pr_line := pr_line p + 1, pr_col := 0,
     pr_cell := (if pr_line p + 1 \<ge> VGA_HEIGHT then (pr_cell p)(pr_line p + 1 := (\<lambda>_. vga_entry CHR '' '' (pr_color p))) else pr_cell p)\<rparr>"

definition paper_wrap :: "paper \<Rightarrow> paper" where
  "paper_wrap p = (if pr_col p \<ge> VGA_WIDTH then paper_newline p else p)"

definition paper_type :: "char \<Rightarrow> paper \<Rightarrow> paper" where
  "paper_type c p = (paper_put c p)\<lparr>pr_col := pr_col p + 1\<rparr>"

definition paper_putchar :: "char \<Rightarrow> paper \<Rightarrow> paper" where
  "paper_putchar c p =
     (if c = CHR 0x0A then paper_newline p
      else if c = CHR 0x08 then (if pr_col p > 0 then paper_put CHR '' '' (p\<lparr>pr_col := pr_col p - 1\<rparr>) else p)
      else if c = CHR 0x09 then paper_wrap ((paper_type CHR '' '' ^^ (8 - pr_col p mod 8)) p)
      else paper_wrap (paper_type c p))"

text \<open>The screen \<open>t\<close> shows the roll \<open>p\<close>; the column may be 80 between a character and the line break.\<close>

definition shows_paper :: "terminal \<Rightarrow> paper \<Rightarrow> bool" where
  "shows_paper t p \<longleftrightarrow> terminal_row t = min (pr_line p) 24 \<and> terminal_column t = pr_col p \<and> terminal_color t = pr_color p
     \<and> (\<forall>y<VGA_HEIGHT. \<forall>x<VGA_WIDTH. terminal_buffer t (y * VGA_WIDTH + x) = pr_cell p (pr_line p - min (pr_line p) 24 + y) x)"

definition screen_only :: "terminal \<Rightarrow> terminal \<Rightarrow> bool" where
  "screen_only t t' \<longleftrightarrow> (\<forall>i\<ge>VGA_HEIGHT * VGA_WIDTH. terminal_buffer t' i = terminal_buffer t i)"

lemma screen_only_trans: "screen_only t u \<Longrightarrow> screen_only u v \<Longrightarrow> screen_only t v"
  by (simp add: screen_only_def)

lemma put_shows:
  assumes "shows_paper t p" "pr_col p < VGA_WIDTH"
  shows "shows_paper (terminal_putentryat c (terminal_color t) (terminal_column t) (terminal_row t) t) (paper_put c p)"
    "screen_only t (terminal_putentryat c (terminal_color t) (terminal_column t) (terminal_row t) t)"
proof -
  have row: "terminal_row t < VGA_HEIGHT" "terminal_column t < VGA_WIDTH" "terminal_row t = min (pr_line p) 24"
    "terminal_column t = pr_col p" "terminal_color t = pr_color p"
    using assms by (auto simp: shows_paper_def VGA_HEIGHT_def)
  have line: "pr_line p - min (pr_line p) 24 + y = pr_line p \<longleftrightarrow> y = terminal_row t" if "y < VGA_HEIGHT" for y
    using row(3) that by (auto simp: VGA_HEIGHT_def)
  show "shows_paper (terminal_putentryat c (terminal_color t) (terminal_column t) (terminal_row t) t) (paper_put c p)"
    using assms(1) row line by (auto simp: shows_paper_def terminal_putentryat_def paper_put_def cell_inj)
  show "screen_only t (terminal_putentryat c (terminal_color t) (terminal_column t) (terminal_row t) t)"
    using cell_screen [OF row(1,2)] by (auto simp: screen_only_def terminal_putentryat_def)
qed

lemma newline_shows:
  assumes "shows_paper t p"
  shows "shows_paper (terminal_newline t) (paper_newline p)" "screen_only t (terminal_newline t)"
proof -
  have sp: "terminal_row t = min (pr_line p) 24" "terminal_color t = pr_color p"
    "\<And>y x. y < VGA_HEIGHT \<Longrightarrow> x < VGA_WIDTH \<Longrightarrow> terminal_buffer t (y * VGA_WIDTH + x) = pr_cell p (pr_line p - min (pr_line p) 24 + y) x"
    using assms by (auto simp: shows_paper_def)
  show "screen_only t (terminal_newline t)"
    by (auto simp: screen_only_def terminal_newline_def terminal_scroll_cell Let_def VGA_HEIGHT_def)
  show "shows_paper (terminal_newline t) (paper_newline p)"
  proof (cases "pr_line p < 24")
    case True
    then show ?thesis
      using sp by (auto simp: shows_paper_def terminal_newline_def paper_newline_def Let_def VGA_HEIGHT_def)
  next
    case False
    let ?u = "t\<lparr>terminal_column := 0, terminal_row := terminal_row t + 1\<rparr>"
    have nl: "terminal_newline t = (terminal_scroll ?u)\<lparr>terminal_row := 24\<rparr>"
      using False sp(1) by (simp add: terminal_newline_def Let_def VGA_HEIGHT_def)
    have "terminal_buffer (terminal_scroll ?u) (y * VGA_WIDTH + x) = pr_cell (paper_newline p) (pr_line p - 23 + y) x"
      if y: "y < 25" and x: "x < VGA_WIDTH" for x y
    proof (cases "y = 24")
      case True
      then show ?thesis using False sp(2) x by (simp add: terminal_scroll_cell paper_newline_def VGA_HEIGHT_def)
    next
      case ne: False
      have "y * VGA_WIDTH + x < 24 * VGA_WIDTH" using ne y x by (simp add: VGA_WIDTH_def)
      then have "terminal_buffer (terminal_scroll ?u) (y * VGA_WIDTH + x) = terminal_buffer t (Suc y * VGA_WIDTH + x)"
        by (simp add: terminal_scroll_cell algebra_simps)
      also have "\<dots> = pr_cell p (pr_line p - 24 + Suc y) x" using sp(3) [of "Suc y" x] ne y x False by (simp add: VGA_HEIGHT_def)
      also have "\<dots> = pr_cell (paper_newline p) (pr_line p - 23 + y) x"
      proof -
        obtain d where "pr_line p = d + 24" using False by (metis le_add_diff_inverse2 not_less)
        then show ?thesis using ne y by (simp add: paper_newline_def)
      qed
      finally show ?thesis .
    qed
    then show ?thesis
      using False sp unfolding nl by (simp add: shows_paper_def paper_newline_def VGA_HEIGHT_def)
  qed
qed

lemma type_shows:
  assumes "shows_paper t p" "pr_col p < VGA_WIDTH"
  shows "shows_paper (terminal_column_update Suc (terminal_putentryat c (terminal_color t) (terminal_column t) (terminal_row t) t)) (paper_type c p)"
    "screen_only t (terminal_column_update Suc (terminal_putentryat c (terminal_color t) (terminal_column t) (terminal_row t) t))"
  using put_shows [OF assms, of c] by (auto simp: shows_paper_def paper_type_def paper_put_def screen_only_def)

lemma tab_shows:
  "shows_paper t p \<Longrightarrow> pr_col p + n \<le> VGA_WIDTH \<Longrightarrow>
   shows_paper (tab_loop n t) ((paper_type CHR '' '' ^^ n) p) \<and> screen_only t (tab_loop n t)"
proof (induction n arbitrary: t p)
  case (Suc n)
  let ?t = "terminal_column_update Suc (terminal_putentryat CHR '' '' (terminal_color t) (terminal_column t) (terminal_row t) t)"
  have col: "pr_col p < VGA_WIDTH" "terminal_column t = pr_col p" using Suc.prems by (auto simp: shows_paper_def)
  note st = type_shows [OF Suc.prems(1) col(1), of "CHR '' ''"]
  have c': "pr_col (paper_type CHR '' '' p) + n \<le> VGA_WIDTH" using Suc.prems(2) by (simp add: paper_type_def)
  have "shows_paper (tab_loop n ?t) ((paper_type CHR '' '' ^^ n) (paper_type CHR '' '' p)) \<and> screen_only ?t (tab_loop n ?t)"
    by (rule Suc.IH [OF st(1) c'])
  then show ?case
    using screen_only_trans [OF st(2)] col by (simp add: funpow_swap1)
qed (simp add: screen_only_def)

lemma wrap_shows:
  assumes "shows_paper t p"
  shows "shows_paper (if terminal_column t \<ge> VGA_WIDTH then terminal_newline t else t) (paper_wrap p)"
    "screen_only t (if terminal_column t \<ge> VGA_WIDTH then terminal_newline t else t)"
  using assms newline_shows [OF assms] by (auto simp: paper_wrap_def shows_paper_def screen_only_def)

lemma paper_tab_col: "pr_col ((paper_type c ^^ n) p) = pr_col p + n"
  by (induction n) (auto simp: paper_type_def)

lemma paper_wrap_col: "pr_col p \<le> VGA_WIDTH \<Longrightarrow> pr_col (paper_wrap p) < VGA_WIDTH"
  by (auto simp: paper_wrap_def paper_newline_def VGA_WIDTH_def)

lemma tab_fits: "c < VGA_WIDTH \<Longrightarrow> c + (8 - c mod 8) \<le> VGA_WIDTH"
  unfolding VGA_WIDTH_def by presburger

lemma putchar_shows:
  assumes t: "shows_paper t p" and col: "pr_col p < VGA_WIDTH"
  shows "shows_paper (terminal_putchar c t) (paper_putchar c p)" "pr_col (paper_putchar c p) < VGA_WIDTH"
    "screen_only t (terminal_putchar c t)"
proof -
  have tc: "terminal_column t = pr_col p" using t by (simp add: shows_paper_def)
  consider "c = CHR 0x0A" | "c = CHR 0x08" | "c = CHR 0x09" | "c \<noteq> CHR 0x0A" "c \<noteq> CHR 0x08" "c \<noteq> CHR 0x09" by blast
  then have "shows_paper (terminal_putchar c t) (paper_putchar c p) \<and> pr_col (paper_putchar c p) < VGA_WIDTH
      \<and> screen_only t (terminal_putchar c t)"
  proof cases
    case 1
    then show ?thesis using newline_shows [OF t]
      by (simp add: terminal_putchar_def paper_putchar_def) (simp add: paper_newline_def VGA_WIDTH_def)
  next
    case 2
    have "shows_paper (t\<lparr>terminal_column := terminal_column t - 1\<rparr>) (p\<lparr>pr_col := pr_col p - 1\<rparr>)" "pr_col p - 1 < VGA_WIDTH"
      using t col by (auto simp: shows_paper_def)
    from put_shows [OF this(1), of "CHR '' ''"] this(2) show ?thesis
      using 2 t col tc by (auto simp: terminal_putchar_def paper_putchar_def Let_def screen_only_def paper_put_def)
  next
    case 3
    define u q where "u = tab_loop (8 - pr_col p mod 8) t" and "q = (paper_type CHR '' '' ^^ (8 - pr_col p mod 8)) p"
    have uq: "shows_paper u q" "screen_only t u" using tab_shows [OF t tab_fits [OF col]] by (simp_all add: u_def q_def)
    have "pr_col q \<le> VGA_WIDTH" using tab_fits [OF col] by (simp add: q_def paper_tab_col)
    moreover have "terminal_putchar c t = (if terminal_column u \<ge> VGA_WIDTH then terminal_newline u else u)"
      "paper_putchar c p = paper_wrap q"
      using 3 by (simp_all add: terminal_putchar_def paper_putchar_def Let_def tc u_def q_def)
    ultimately show ?thesis
      using wrap_shows [OF uq(1)] paper_wrap_col screen_only_trans [OF uq(2)] by simp
  next
    case 4
    define u q where "u = terminal_column_update Suc (terminal_putentryat c (terminal_color t) (terminal_column t) (terminal_row t) t)"
      and "q = paper_type c p"
    have uq: "shows_paper u q" "screen_only t u" using type_shows [OF t col, of c] by (simp_all add: u_def q_def)
    have "pr_col q \<le> VGA_WIDTH" using col by (simp add: q_def paper_type_def)
    moreover have "terminal_putchar c t = (if terminal_column u \<ge> VGA_WIDTH then terminal_newline u else u)"
      "paper_putchar c p = paper_wrap q"
      using 4 by (simp_all add: terminal_putchar_def paper_putchar_def Let_def u_def q_def terminal_putentryat_def)
    ultimately show ?thesis
      using wrap_shows [OF uq(1)] paper_wrap_col screen_only_trans [OF uq(2)] by simp
  qed
  then show "shows_paper (terminal_putchar c t) (paper_putchar c p)" "pr_col (paper_putchar c p) < VGA_WIDTH"
    "screen_only t (terminal_putchar c t)" by blast+
qed

section \<open>Properties\<close>

definition paper_write :: "string \<Rightarrow> paper \<Rightarrow> paper" where
  "paper_write cs p = fold paper_putchar cs p"

definition blank_paper :: paper where
  "blank_paper = (let col = vga_entry_color VGA_COLOR_LIGHT_GREY VGA_COLOR_BLACK
     in \<lparr>pr_line = 0, pr_col = 0, pr_color = col, pr_cell = (\<lambda>_ _. vga_entry CHR '' '' col)\<rparr>)"

lemma writestring_shows:
  "shows_paper t p \<Longrightarrow> pr_col p < VGA_WIDTH \<Longrightarrow>
   shows_paper (terminal_writestring cs t) (paper_write cs p) \<and> screen_only t (terminal_writestring cs t)"
proof (induction cs arbitrary: t p)
  case (Cons c cs)
  note pc = putchar_shows [OF Cons.prems, of c]
  show ?case
    using Cons.IH [OF pc(1,2)] screen_only_trans [OF pc(3)] by (simp add: terminal_writestring_def paper_write_def)
qed (simp add: terminal_writestring_def paper_write_def screen_only_def)

lemma initialize_shows: "shows_paper (terminal_initialize t) blank_paper" "screen_only t (terminal_initialize t)"
  by (auto simp: shows_paper_def terminal_initialize_def blank_paper_def Let_def fill_screen_cell cell_screen screen_only_def)

lemma terminal_refines_paper_parts:
  defines "t0 t \<equiv> terminal_initialize t" and "p cs \<equiv> paper_write cs blank_paper"
  shows "terminal_row (terminal_writestring cs (t0 t)) = min (pr_line (p cs)) 24"
    "terminal_column (terminal_writestring cs (t0 t)) = pr_col (p cs)"
    "\<lbrakk>y < VGA_HEIGHT; x < VGA_WIDTH\<rbrakk> \<Longrightarrow> terminal_buffer (terminal_writestring cs (t0 t)) (y * VGA_WIDTH + x)
       = pr_cell (p cs) (pr_line (p cs) - min (pr_line (p cs)) 24 + y) x"
    "VGA_HEIGHT * VGA_WIDTH \<le> i \<Longrightarrow> terminal_buffer (terminal_writestring cs (t0 t)) i = terminal_buffer t i"
proof -
  have "pr_col blank_paper < VGA_WIDTH" by (simp add: blank_paper_def VGA_WIDTH_def Let_def)
  from writestring_shows [OF initialize_shows(1) this, of cs t]
  have s: "shows_paper (terminal_writestring cs (t0 t)) (p cs)" "screen_only (t0 t) (terminal_writestring cs (t0 t))"
    by (simp_all add: t0_def p_def)
  then show "terminal_row (terminal_writestring cs (t0 t)) = min (pr_line (p cs)) 24"
    "terminal_column (terminal_writestring cs (t0 t)) = pr_col (p cs)"
    "\<lbrakk>y < VGA_HEIGHT; x < VGA_WIDTH\<rbrakk> \<Longrightarrow> terminal_buffer (terminal_writestring cs (t0 t)) (y * VGA_WIDTH + x)
       = pr_cell (p cs) (pr_line (p cs) - min (pr_line (p cs)) 24 + y) x"
    by (simp_all add: shows_paper_def)
  show "VGA_HEIGHT * VGA_WIDTH \<le> i \<Longrightarrow> terminal_buffer (terminal_writestring cs (t0 t)) i = terminal_buffer t i"
    using s(2) initialize_shows(2) [of t] by (simp add: screen_only_def t0_def)
qed

text \<open>
  C24: the terminal refines the paper roll. After \<open>terminal_initialize\<close>, whatever string is written, with
  line breaks, tabs, backspaces and scrolling, the screen shows the last 25 lines of the roll the same
  string was written on, at the roll's position, and no cell behind the 80x25 screen is ever written.
\<close>

theorem terminal_refines_paper:
  assumes "t' = terminal_writestring cs (terminal_initialize t)" "p = paper_write cs blank_paper"
  shows "terminal_row t' = min (pr_line p) 24 \<and> terminal_column t' = pr_col p
    \<and> (\<forall>y<VGA_HEIGHT. \<forall>x<VGA_WIDTH. terminal_buffer t' (y * VGA_WIDTH + x) = pr_cell p (pr_line p - min (pr_line p) 24 + y) x)
    \<and> (\<forall>i\<ge>VGA_HEIGHT * VGA_WIDTH. terminal_buffer t' i = terminal_buffer t i)"
  unfolding assms by (intro conjI allI impI terminal_refines_paper_parts)

theorem terminal_refines_paper_witness:
  "terminal_buffer (terminal_writestring ''a'' (terminal_initialize
     \<lparr>terminal_row = 3, terminal_column = 9, terminal_color = 1, terminal_buffer = (\<lambda>_. 0)\<rparr>)) (0 * VGA_WIDTH + 0) = 0x0761"
proof -
  have "0 < VGA_HEIGHT" "0 < VGA_WIDTH" by (simp_all add: VGA_HEIGHT_def VGA_WIDTH_def)
  with terminal_refines_paper [OF refl refl, of "''a''" "\<lparr>terminal_row = 3, terminal_column = 9, terminal_color = 1, terminal_buffer = (\<lambda>_. 0)\<rparr>",
      THEN conjunct2, THEN conjunct2, THEN conjunct1, rule_format, of 0 0]
  show ?thesis
    by (simp add: paper_write_def paper_putchar_def paper_wrap_def paper_type_def paper_put_def VGA_WIDTH_def
      blank_paper_def Let_def vga_entry_def vga_entry_color_def)
qed

lemma write_at_cell:
  "write_at_loop cs x y color t =
     t\<lparr>terminal_buffer := (\<lambda>i. if y * VGA_WIDTH + x \<le> i \<and> i < y * VGA_WIDTH + min (x + length cs) VGA_WIDTH
       then vga_entry (cs ! (i - (y * VGA_WIDTH + x))) color else terminal_buffer t i)\<rparr>"
proof (induction cs arbitrary: x t)
  case (Cons c cs)
  show ?case
  proof (cases "x \<ge> VGA_WIDTH")
    case False
    then show ?thesis
      by (simp add: Cons.IH terminal_putentryat_def) (rule terminal.equality, auto simp: fun_eq_iff nth_Cons' Suc_diff_Suc)
  qed (auto intro!: terminal.equality simp: fun_eq_iff)
qed (auto intro!: terminal.equality simp: fun_eq_iff)

lemma terminal_write_at_clipped_parts:
  "terminal_buffer (terminal_write_at cs x y color t) i =
     (if y * VGA_WIDTH + x \<le> i \<and> i < y * VGA_WIDTH + min (x + length cs) VGA_WIDTH
      then vga_entry (cs ! (i - (y * VGA_WIDTH + x))) color else terminal_buffer t i)"
  "terminal_row (terminal_write_at cs x y color t) = terminal_row t"
  "terminal_column (terminal_write_at cs x y color t) = terminal_column t"
  by (simp_all add: terminal_write_at_def write_at_cell)

text \<open>
  Text placed with \<open>terminal_write_at\<close> is clipped at the right margin: exactly the characters that fit
  the line appear, from the column on, in the given colour; every other cell and the cursor stay.
\<close>

lemma terminal_write_at_clipped:
  "terminal_buffer (terminal_write_at cs x y color t) i =
     (if y * VGA_WIDTH + x \<le> i \<and> i < y * VGA_WIDTH + min (x + length cs) VGA_WIDTH
      then vga_entry (cs ! (i - (y * VGA_WIDTH + x))) color else terminal_buffer t i)
   \<and> terminal_row (terminal_write_at cs x y color t) = terminal_row t
   \<and> terminal_column (terminal_write_at cs x y color t) = terminal_column t"
  by (intro conjI terminal_write_at_clipped_parts)

end
