(* ===== verification/Teclado.thy ===== *)
theory Teclado
  imports Ring Tty
begin

unbundle bit_operations_syntax

text \<open>
  The keyboard driver of \<^verbatim>\<open>src/src/kernel/teclado.c\<close>: translation of scan codes under the shift and caps
  lock state, echo on the terminal, and the ring of 128 characters between the interrupt handler and
  the shell. The byte read from port \<open>0x60\<close> is an argument of the handler.
\<close>

section \<open>State\<close>

definition KB_BUF_SZ :: nat where "KB_BUF_SZ = 128"
definition KB_STATE_SHIFT :: u32 where "KB_STATE_SHIFT = 1"
definition KB_STATE_CTRL :: u32 where "KB_STATE_CTRL = 2"
definition KB_STATE_ALT :: u32 where "KB_STATE_ALT = 4"
definition KB_STATE_CAPS :: u32 where "KB_STATE_CAPS = 8"

record keyboard =
  shift_pressed :: bool
  caps_lock :: bool
  ctrl_pressed :: bool
  alt_pressed :: bool
  kb_buf :: "char list"
  kb_head :: nat
  kb_tail :: nat
  kb_state :: u32

text \<open>The two tables list 89 entries; C fills the rest of the 128 with zeros.\<close>

definition kbdus_lower :: "char list" where
  "kbdus_lower =
    [NUL, CHR 0x1B] @ ''1234567890-='' @ [CHR 0x08, CHR 0x09] @ ''qwertyuiop[]'' @ [CHR 0x0A, NUL] @ ''asdfghjkl;'' @ [CHR 0x27, CHR 0x60, NUL, CHR 0x5C]
     @ ''zxcvbnm,./'' @ [NUL] @ ''*'' @ [NUL] @ '' '' @ [NUL] @ replicate 10 NUL @ replicate 2 NUL @ replicate 3 NUL @ ''-''
     @ replicate 3 NUL @ ''+'' @ replicate 5 NUL @ replicate 3 NUL @ replicate 2 NUL @ replicate 39 NUL"

definition kbdus_upper :: "char list" where
  "kbdus_upper =
    [NUL, CHR 0x1B] @ ''!@#$%^&*()_+'' @ [CHR 0x08, CHR 0x09] @ ''QWERTYUIOP{}'' @ [CHR 0x0A, NUL] @ ''ASDFGHJKL:'' @ [CHR 0x22, CHR ''~'', NUL, CHR ''|'']
     @ ''ZXCVBNM<>?'' @ [NUL] @ ''*'' @ [NUL] @ '' '' @ [NUL] @ replicate 10 NUL @ replicate 2 NUL @ replicate 3 NUL @ ''-''
     @ replicate 3 NUL @ ''+'' @ replicate 5 NUL @ replicate 3 NUL @ replicate 2 NUL @ replicate 39 NUL"

section \<open>Operations\<close>

definition kb_put :: "char \<Rightarrow> keyboard \<Rightarrow> keyboard" where
  "kb_put c k =
     (let nxt = (kb_head k + 1) mod KB_BUF_SZ in
      if nxt \<noteq> kb_tail k then k\<lparr>kb_buf := (kb_buf k)[kb_head k := c], kb_head := nxt\<rparr> else k)"

definition translate :: "u8 \<Rightarrow> keyboard \<Rightarrow> char" where
  "translate scancode k =
     (let use_upper = shift_pressed k;
          use_upper = (if scancode \<ge> 0x10 \<and> scancode \<le> 0x32 then (if caps_lock k then \<not> use_upper else use_upper) else use_upper)
      in if use_upper then kbdus_upper ! unat scancode else kbdus_lower ! unat scancode)"

definition keyboard_irq :: "u8 \<Rightarrow> keyboard \<times> terminal \<Rightarrow> keyboard \<times> terminal" where
  "keyboard_irq scancode s = (case s of (k, t) \<Rightarrow>
     if scancode = 0x2A \<or> scancode = 0x36 then
       (k\<lparr>shift_pressed := True, kb_state := kb_state k OR KB_STATE_SHIFT\<rparr>, t)
     else if scancode = 0xAA \<or> scancode = 0xB6 then
       (k\<lparr>shift_pressed := False, kb_state := kb_state k AND NOT KB_STATE_SHIFT\<rparr>, t)
     else if scancode = 0x1D then
       (k\<lparr>ctrl_pressed := True, kb_state := kb_state k OR KB_STATE_CTRL\<rparr>, t)
     else if scancode = 0x9D then
       (k\<lparr>ctrl_pressed := False, kb_state := kb_state k AND NOT KB_STATE_CTRL\<rparr>, t)
     else if scancode = 0x38 then
       (k\<lparr>alt_pressed := True, kb_state := kb_state k OR KB_STATE_ALT\<rparr>, t)
     else if scancode = 0xB8 then
       (k\<lparr>alt_pressed := False, kb_state := kb_state k AND NOT KB_STATE_ALT\<rparr>, t)
     else if scancode = 0x3A then
       (let k = k\<lparr>caps_lock := \<not> caps_lock k\<rparr>
        in if caps_lock k then (k\<lparr>kb_state := kb_state k OR KB_STATE_CAPS\<rparr>, t)
           else (k\<lparr>kb_state := kb_state k AND NOT KB_STATE_CAPS\<rparr>, t))
     else if scancode = 0xE0 then (k, t)
     else if (scancode AND 0x80) = 0 then
       (let c = translate scancode k in
        if c \<noteq> NUL then
          (let t = (if c \<noteq> CHR 0x0A \<and> c \<noteq> CHR 0x08 then terminal_putchar c t else t)
           in (kb_put c k, t))
        else (k, t))
     else (k, t))"

definition keyboard_getchar :: "keyboard \<Rightarrow> char \<times> keyboard" where
  "keyboard_getchar k =
     (if kb_head k = kb_tail k then (NUL, k)
      else (kb_buf k ! kb_tail k, k\<lparr>kb_tail := (kb_tail k + 1) mod KB_BUF_SZ\<rparr>))"

definition keyboard_available :: "keyboard \<Rightarrow> int" where
  "keyboard_available k = (if kb_head k \<noteq> kb_tail k then 1 else 0)"

definition keyboard_get_state :: "keyboard \<Rightarrow> u32" where
  "keyboard_get_state k = kb_state k"

definition keyboard_clear_buffer :: "keyboard \<Rightarrow> keyboard" where
  "keyboard_clear_buffer k = k\<lparr>kb_head := 0, kb_tail := 0\<rparr>"

section \<open>The buffer as a queue\<close>

definition kb_contents :: "keyboard \<Rightarrow> string" where
  "kb_contents k = ring_list (kb_buf k) (kb_head k) (kb_tail k)"

definition kb_ok :: "keyboard \<Rightarrow> bool" where
  "kb_ok k \<longleftrightarrow> length (kb_buf k) = KB_BUF_SZ \<and> kb_head k < KB_BUF_SZ \<and> kb_tail k < KB_BUF_SZ \<and> NUL \<notin> set (kb_contents k)"

definition kb_get :: "keyboard \<Rightarrow> char option \<times> keyboard" where
  "kb_get k = (case keyboard_getchar k of (c, k') \<Rightarrow> (if c = NUL then None else Some c, k'))"

lemma length_kb_contents: "kb_ok k \<Longrightarrow> length (kb_contents k) = ring_len KB_BUF_SZ (kb_head k) (kb_tail k)"
  by (simp add: kb_contents_def ring_list_def kb_ok_def)

lemma kb_put_contents:
  assumes "kb_ok k"
  shows "kb_contents (kb_put c k) = (if length (kb_contents k) < 127 then kb_contents k @ [c] else kb_contents k)"
proof (cases "(kb_head k + 1) mod KB_BUF_SZ = kb_tail k")
  case True
  then have "length (kb_contents k) = 127"
    using ring_full [of "kb_head k" KB_BUF_SZ "kb_tail k"] assms length_kb_contents [OF assms] by (simp add: kb_ok_def KB_BUF_SZ_def)
  then show ?thesis using True by (simp add: kb_put_def Let_def)
next
  case False
  have "ring_len KB_BUF_SZ (kb_head k) (kb_tail k) < 127"
    using ring_len_put(2) [of "kb_head k" KB_BUF_SZ "kb_tail k"] False assms by (simp add: kb_ok_def KB_BUF_SZ_def)
  then show ?thesis
    using ring_put [of "kb_head k" "kb_buf k" "kb_tail k" c] False assms length_kb_contents [OF assms]
    by (simp add: kb_put_def Let_def kb_contents_def kb_ok_def)
qed

lemma kb_put_ok: "kb_ok k \<Longrightarrow> c \<noteq> NUL \<Longrightarrow> kb_ok (kb_put c k)"
  using kb_put_contents [of k c] by (auto simp: kb_ok_def kb_put_def Let_def KB_BUF_SZ_def split: if_splits)

lemma kb_get_head:
  assumes ok: "kb_ok k" and c: "kb_contents k = x # xs"
  shows "kb_get k = (Some x, k\<lparr>kb_tail := (kb_tail k + 1) mod KB_BUF_SZ\<rparr>)"
    "kb_contents (k\<lparr>kb_tail := (kb_tail k + 1) mod KB_BUF_SZ\<rparr>) = xs" "kb_ok (k\<lparr>kb_tail := (kb_tail k + 1) mod KB_BUF_SZ\<rparr>)"
proof -
  have ht: "kb_head k \<noteq> kb_tail k"
    using c length_kb_contents [OF ok] ring_len_empty [of "kb_head k" KB_BUF_SZ "kb_tail k"] ok by (auto simp: kb_ok_def)
  have "kb_contents k = kb_buf k ! kb_tail k # kb_contents (k\<lparr>kb_tail := (kb_tail k + 1) mod KB_BUF_SZ\<rparr>)"
    using ring_get [of "kb_head k" "kb_buf k" "kb_tail k"] ht ok by (simp add: kb_contents_def kb_ok_def)
  then have x: "x = kb_buf k ! kb_tail k" "kb_contents (k\<lparr>kb_tail := (kb_tail k + 1) mod KB_BUF_SZ\<rparr>) = xs" using c by simp_all
  moreover have "x \<noteq> NUL" using ok c by (auto simp: kb_ok_def)
  ultimately show "kb_get k = (Some x, k\<lparr>kb_tail := (kb_tail k + 1) mod KB_BUF_SZ\<rparr>)"
    using ht by (simp add: kb_get_def keyboard_getchar_def)
  show "kb_contents (k\<lparr>kb_tail := (kb_tail k + 1) mod KB_BUF_SZ\<rparr>) = xs" by (fact x)
  then show "kb_ok (k\<lparr>kb_tail := (kb_tail k + 1) mod KB_BUF_SZ\<rparr>)" using ok c by (auto simp: kb_ok_def KB_BUF_SZ_def)
qed

interpretation kbq: bounded_queue kb_contents kb_put kb_get kb_ok "\<lambda>c. c \<noteq> NUL" 127
proof unfold_locales
  fix k c
  assume k: "kb_ok k"
  show "c \<noteq> NUL \<Longrightarrow> kb_ok (kb_put c k)" using k by (rule kb_put_ok)
  show "kb_contents (kb_put c k) = (if length (kb_contents k) < 127 then kb_contents k @ [c] else kb_contents k)"
    using k by (rule kb_put_contents)
  show "length (kb_contents k) \<le> 127"
    using length_kb_contents [OF k] ring_len_bound [of "kb_head k" KB_BUF_SZ "kb_tail k"] k by (simp add: kb_ok_def KB_BUF_SZ_def)
  show "kb_get k = (None, k)" if "kb_contents k = []"
    using that length_kb_contents [OF k] ring_len_empty [of "kb_head k" KB_BUF_SZ "kb_tail k"] k
    by (simp add: kb_get_def keyboard_getchar_def kb_ok_def)
  show "fst (kb_get k) = Some x \<and> kb_contents (snd (kb_get k)) = xs \<and> kb_ok (snd (kb_get k))" if "kb_contents k = x # xs" for x xs
    using kb_get_head [OF k that] by simp
qed

section \<open>Typing\<close>

text \<open>
  The specification of typing: the shift and caps lock state after a scan code, the character of a key
  press, and the characters a sequence of scan codes types.
\<close>

definition shift_after :: "u8 \<Rightarrow> bool \<Rightarrow> bool" where
  "shift_after sc sh = (if sc \<in> {0x2A, 0x36} then True else if sc \<in> {0xAA, 0xB6} then False else sh)"

definition caps_after :: "u8 \<Rightarrow> bool \<Rightarrow> bool" where
  "caps_after sc caps = (if sc = 0x3A then \<not> caps else caps)"

definition is_modifier :: "u8 \<Rightarrow> bool" where
  "is_modifier sc \<longleftrightarrow> sc \<in> {0x2A, 0x36, 0x1D, 0x38, 0x3A}"

definition key_char :: "bool \<Rightarrow> bool \<Rightarrow> u8 \<Rightarrow> char option" where
  "key_char sh caps sc =
     (if is_modifier sc \<or> 0x80 \<le> sc then None
      else let upper = (sh \<noteq> (caps \<and> 0x10 \<le> sc \<and> sc \<le> 0x32)); c = (if upper then kbdus_upper else kbdus_lower) ! unat sc
           in if c = NUL then None else Some c)"

fun typed :: "bool \<Rightarrow> bool \<Rightarrow> u8 list \<Rightarrow> string" where
  "typed sh caps [] = []"
| "typed sh caps (sc # scs) =
     (case key_char sh caps sc of None \<Rightarrow> [] | Some c \<Rightarrow> [c]) @ typed (shift_after sc sh) (caps_after sc caps) scs"

definition echoed :: "string \<Rightarrow> string" where
  "echoed cs = filter (\<lambda>c. c \<noteq> CHR 0x0A \<and> c \<noteq> CHR 0x08) cs"

lemma kb_put_mods [simp]: "shift_pressed (kb_put c k) = shift_pressed k" "caps_lock (kb_put c k) = caps_lock k"
  "ctrl_pressed (kb_put c k) = ctrl_pressed k" "alt_pressed (kb_put c k) = alt_pressed k" "kb_state (kb_put c k) = kb_state k"
  by (simp_all add: kb_put_def Let_def)

lemma high_bit: "(sc AND 0x80) = 0 \<longleftrightarrow> sc < 0x80" for sc :: u8
proof -
  have "(sc AND 0x80) = 0 \<longleftrightarrow> \<not> bit sc 7"
    using and_exp_eq_0_iff_not_bit [of sc 7] by simp
  also have "\<dots> \<longleftrightarrow> \<not> bit (unat sc) 7" by (simp add: bit_unsigned_iff)
  also have "\<dots> \<longleftrightarrow> unat sc < 128"
  proof -
    have "unat sc < 256" using unsigned_less [of sc, where 'a = nat] by simp
    then have "unat sc div 128 = (if unat sc < 128 then 0 else 1)" by auto
    then show ?thesis by (simp add: bit_iff_odd)
  qed
  finally show ?thesis by (simp add: word_less_nat_alt)
qed

lemma translate_key: "sc < 0x80 \<Longrightarrow> \<not> is_modifier sc \<Longrightarrow>
    key_char (shift_pressed k) (caps_lock k) sc = (if translate sc k = NUL then None else Some (translate sc k))"
  by (auto simp: key_char_def translate_def Let_def not_le)

lemma keyboard_irq_step:
  fixes sc :: u8 and t :: terminal
  assumes ok: "kb_ok k"
  defines "ch \<equiv> key_char (shift_pressed k) (caps_lock k) sc" and "s' \<equiv> keyboard_irq sc (k, t)"
  shows "kb_ok (fst s')" "kb_contents (fst s') = take 127 (kb_contents k @ (case ch of None \<Rightarrow> [] | Some c \<Rightarrow> [c]))"
    "snd s' = fold terminal_putchar (echoed (case ch of None \<Rightarrow> [] | Some c \<Rightarrow> [c])) t"
    "shift_pressed (fst s') = shift_after sc (shift_pressed k)" "caps_lock (fst s') = caps_after sc (caps_lock k)"
proof -
  have cap: "take 127 (kb_contents k) = kb_contents k" using kbq.bounded [OF ok] by simp
  have upd: "kb_ok (k\<lparr>shift_pressed := a, kb_state := b\<rparr>) = kb_ok k" "kb_ok (k\<lparr>ctrl_pressed := a, kb_state := b\<rparr>) = kb_ok k"
    "kb_ok (k\<lparr>alt_pressed := a, kb_state := b\<rparr>) = kb_ok k" "kb_ok (k\<lparr>caps_lock := a, kb_state := b\<rparr>) = kb_ok k"
    "kb_contents (k\<lparr>shift_pressed := a, kb_state := b\<rparr>) = kb_contents k" "kb_contents (k\<lparr>ctrl_pressed := a, kb_state := b\<rparr>) = kb_contents k"
    "kb_contents (k\<lparr>alt_pressed := a, kb_state := b\<rparr>) = kb_contents k" "kb_contents (k\<lparr>caps_lock := a, kb_state := b\<rparr>) = kb_contents k"
    for a b by (simp_all add: kb_ok_def kb_contents_def)
  consider (mod) "sc \<in> {0x2A, 0x36, 0xAA, 0xB6, 0x1D, 0x9D, 0x38, 0xB8, 0x3A, 0xE0}"
    | (rel) "sc \<notin> {0x2A, 0x36, 0xAA, 0xB6, 0x1D, 0x9D, 0x38, 0xB8, 0x3A, 0xE0}" "0x80 \<le> sc"
    | (key) "sc \<notin> {0x2A, 0x36, 0xAA, 0xB6, 0x1D, 0x9D, 0x38, 0xB8, 0x3A, 0xE0}" "sc < 0x80" by force
  then have "kb_ok (fst s') \<and> kb_contents (fst s') = take 127 (kb_contents k @ (case ch of None \<Rightarrow> [] | Some c \<Rightarrow> [c]))
    \<and> snd s' = fold terminal_putchar (echoed (case ch of None \<Rightarrow> [] | Some c \<Rightarrow> [c])) t
    \<and> shift_pressed (fst s') = shift_after sc (shift_pressed k) \<and> caps_lock (fst s') = caps_after sc (caps_lock k)"
  proof cases
    case mod
    have "ch = None" using mod by (auto simp: ch_def key_char_def is_modifier_def)
    then show ?thesis
      using mod ok cap by (auto simp: s'_def keyboard_irq_def upd Let_def echoed_def shift_after_def caps_after_def)
  next
    case rel
    have "ch = None" "\<not> sc < 0x80" using rel by (simp_all add: ch_def key_char_def not_less)
    then show ?thesis
      using rel ok cap by (simp add: s'_def keyboard_irq_def high_bit echoed_def shift_after_def caps_after_def)
  next
    case key
    have ch: "ch = (if translate sc k = NUL then None else Some (translate sc k))"
      unfolding ch_def using key by (intro translate_key) (auto simp: is_modifier_def)
    have s': "s' = (if translate sc k = NUL then (k, t) else (kb_put (translate sc k) k,
        if translate sc k \<noteq> CHR 0x0A \<and> translate sc k \<noteq> CHR 0x08 then terminal_putchar (translate sc k) t else t))"
      using key by (simp add: s'_def keyboard_irq_def high_bit Let_def)
    have mods: "shift_after sc sh = sh" "caps_after sc sh = sh" for sh using key by (auto simp: shift_after_def caps_after_def)
    show ?thesis
      using ch s' mods ok cap kb_put_ok [OF ok, of "translate sc k"] kb_put_contents [OF ok, of "translate sc k"] kbq.bounded [OF ok]
      by (auto simp: echoed_def)
  qed
  then show "kb_ok (fst s')" "kb_contents (fst s') = take 127 (kb_contents k @ (case ch of None \<Rightarrow> [] | Some c \<Rightarrow> [c]))"
    "snd s' = fold terminal_putchar (echoed (case ch of None \<Rightarrow> [] | Some c \<Rightarrow> [c])) t"
    "shift_pressed (fst s') = shift_after sc (shift_pressed k)" "caps_lock (fst s') = caps_after sc (caps_lock k)" by blast+
qed

definition keyboard_irqs :: "u8 list \<Rightarrow> keyboard \<times> terminal \<Rightarrow> keyboard \<times> terminal" where
  "keyboard_irqs scs s = fold keyboard_irq scs s"

lemma echoed_append: "echoed (xs @ ys) = echoed xs @ echoed ys"
  by (simp add: echoed_def)

lemma take_take_append: "take n (take n xs @ ys) = take n (xs @ ys)"
  by (cases "length xs \<le> n") auto

lemma keyboard_irqs_typed:
  "kb_ok k \<Longrightarrow> kb_ok (fst (keyboard_irqs scs (k, t)))
   \<and> kb_contents (fst (keyboard_irqs scs (k, t))) = take 127 (kb_contents k @ typed (shift_pressed k) (caps_lock k) scs)
   \<and> snd (keyboard_irqs scs (k, t)) = fold terminal_putchar (echoed (typed (shift_pressed k) (caps_lock k) scs)) t"
proof (induction scs arbitrary: k t)
  case Nil
  then show ?case using kbq.bounded [OF Nil] by (simp add: keyboard_irqs_def echoed_def)
next
  case (Cons sc scs)
  note st = keyboard_irq_step [OF Cons.prems, of sc t]
  obtain k' t' where s': "keyboard_irq sc (k, t) = (k', t')" by fastforce
  have IH: "kb_ok (fst (keyboard_irqs scs (k', t')))"
    "kb_contents (fst (keyboard_irqs scs (k', t'))) = take 127 (kb_contents k' @ typed (shift_pressed k') (caps_lock k') scs)"
    "snd (keyboard_irqs scs (k', t')) = fold terminal_putchar (echoed (typed (shift_pressed k') (caps_lock k') scs)) t'"
    using Cons.IH [of k' t'] st(1) s' by simp_all
  have "keyboard_irqs (sc # scs) (k, t) = keyboard_irqs scs (k', t')" by (simp add: keyboard_irqs_def s')
  then show ?case
    using IH st(2-5) s' by (simp add: echoed_append take_take_append del: take_append)
qed

text \<open>Reading as the kernel's main loop does, until the buffer is empty or \<open>n\<close> characters are taken.\<close>

primrec kb_read :: "nat \<Rightarrow> keyboard \<Rightarrow> string" where
  "kb_read 0 k = []"
| "kb_read (Suc n) k = (case keyboard_getchar k of (c, k') \<Rightarrow> if c = NUL then [] else c # kb_read n k')"

lemma kb_read_drain: "kb_read n k = fst (kbq.drain n k)"
  by (induction n arbitrary: k) (auto simp: kb_get_def split: prod.splits)

section \<open>Properties\<close>

lemma keyboard_typing_parts:
  assumes "kb_ok k" "kb_head k = kb_tail k"
  shows "kb_read n (fst (keyboard_irqs scs (k, t))) = take n (take 127 (typed (shift_pressed k) (caps_lock k) scs))"
    "snd (keyboard_irqs scs (k, t)) = terminal_writestring (echoed (typed (shift_pressed k) (caps_lock k) scs)) t"
proof -
  have "kb_contents k = []"
    using length_kb_contents [OF assms(1)] ring_len_empty [of "kb_head k" KB_BUF_SZ "kb_tail k"] assms by (simp add: kb_ok_def)
  then show "kb_read n (fst (keyboard_irqs scs (k, t))) = take n (take 127 (typed (shift_pressed k) (caps_lock k) scs))"
    "snd (keyboard_irqs scs (k, t)) = terminal_writestring (echoed (typed (shift_pressed k) (caps_lock k) scs)) t"
    using keyboard_irqs_typed [OF assms(1), of scs t] kbq.drain_contents [of "fst (keyboard_irqs scs (k, t))" n]
    by (simp_all add: kb_read_drain terminal_writestring_def)
qed

text \<open>
  C25: typing is first in, first out. Whatever scan codes arrive, with shift, caps lock and releases among
  them, the characters read afterwards are those the keys mean under the modifiers in force, in order, up
  to the 127 that the ring holds; all of them but line breaks and backspaces are echoed to the terminal.
\<close>

theorem keyboard_typing:
  assumes "kb_ok k" "kb_head k = kb_tail k"
  shows "kb_read n (fst (keyboard_irqs scs (k, t))) = take n (take 127 (typed (shift_pressed k) (caps_lock k) scs))
    \<and> snd (keyboard_irqs scs (k, t)) = terminal_writestring (echoed (typed (shift_pressed k) (caps_lock k) scs)) t"
  by (intro conjI keyboard_typing_parts [OF assms])

definition blank_keyboard :: keyboard where
  "blank_keyboard = \<lparr>shift_pressed = False, caps_lock = False, ctrl_pressed = False, alt_pressed = False,
     kb_buf = replicate KB_BUF_SZ NUL, kb_head = 0, kb_tail = 0, kb_state = 0\<rparr>"

lemma blank_keyboard_ok: "kb_ok blank_keyboard"
  by (simp add: blank_keyboard_def kb_ok_def kb_contents_def ring_list_def ring_len_def KB_BUF_SZ_def)

text \<open>Shift down, H, shift up, I.\<close>

theorem keyboard_typing_witness:
  "\<forall>t. kb_read 5 (fst (keyboard_irqs [0x2A, 0x23, 0xA3, 0xAA, 0x17, 0x97] (blank_keyboard, t))) = ''Hi''"
proof
  fix t
  have "typed False False [0x2A, 0x23, 0xA3, 0xAA, 0x17, 0x97] = ''Hi''"
    by (simp add: key_char_def is_modifier_def shift_after_def caps_after_def kbdus_lower_def kbdus_upper_def Let_def)
  then show "kb_read 5 (fst (keyboard_irqs [0x2A, 0x23, 0xA3, 0xAA, 0x17, 0x97] (blank_keyboard, t))) = ''Hi''"
    using keyboard_typing [OF blank_keyboard_ok, of 5 "[0x2A, 0x23, 0xA3, 0xAA, 0x17, 0x97]" t]
    by (simp add: blank_keyboard_def)
qed

end
