(* ===== verification/Descriptors.thy ===== *)
theory Descriptors
  imports Eron_Prelude
begin

unbundle bit_operations_syntax

text \<open>
  The CPU tables: the segment descriptors of \<^verbatim>\<open>src/src/kernel/gdt.c\<close>, the interrupt gates of \<^verbatim>\<open>idt.c\<close>
  and the task state segment of \<^verbatim>\<open>tss.c\<close>. The loads done by the assembly stubs \<open>gdt_flush\<close>, \<open>idt_load\<close>
  and \<open>tss_flush\<close> (\<^verbatim>\<open>boot.S\<close>) set the register fields of the state. The addresses the linker gives
  the static objects are fields of the state too.
\<close>

section \<open>Segment descriptors (gdt.c)\<close>

definition GDT_ENTRIES :: nat where "GDT_ENTRIES = 6"
definition SEG_KCODE :: u32 where "SEG_KCODE = 0x08"
definition SEG_KDATA :: u32 where "SEG_KDATA = 0x10"
definition SEG_UCODE :: u32 where "SEG_UCODE = 0x18"
definition SEG_UDATA :: u32 where "SEG_UDATA = 0x20"
definition SEG_TSS :: u32 where "SEG_TSS = 0x28"

record gdt_entry =
  ge_limit_low :: u16
  ge_base_low :: u16
  ge_base_middle :: u8
  ge_access :: u8
  ge_granularity :: u8
  ge_base_high :: u8

record table_ptr =
  tp_limit :: u16
  tp_base :: u32

record idt_entry =
  ie_base_low :: u16
  ie_sel :: u16
  ie_zero :: u8
  ie_flags :: u8
  ie_base_high :: u16

record tss_entry =
  prev_tss :: u32
  esp0 :: u32
  ss0 :: u32
  esp1 :: u32
  ss1 :: u32
  esp2 :: u32
  ss2 :: u32
  tss_cr3 :: u32
  tss_eip :: u32
  tss_eflags :: u32
  tss_eax :: u32
  tss_ecx :: u32
  tss_edx :: u32
  tss_ebx :: u32
  tss_esp :: u32
  tss_ebp :: u32
  tss_esi :: u32
  tss_edi :: u32
  tss_es :: u32
  tss_cs :: u32
  tss_ss :: u32
  tss_ds :: u32
  tss_fs :: u32
  tss_gs :: u32
  tss_ldt :: u32
  tss_trap :: u16
  iomap_base :: u16

record cpu_tables =
  gdt :: "gdt_entry list"
  gp :: table_ptr
  idt :: "idt_entry list"
  idtp :: table_ptr
  tss :: tss_entry
  gdt_addr :: u32
  idt_addr :: u32
  tss_addr :: u32
  reg_gdtr :: table_ptr
  reg_idtr :: table_ptr
  reg_tr :: u16
  reg_cs :: u16
  reg_data :: u16

definition gdt_set_gate :: "nat \<Rightarrow> u32 \<Rightarrow> u32 \<Rightarrow> u8 \<Rightarrow> u8 \<Rightarrow> cpu_tables \<Rightarrow> cpu_tables" where
  "gdt_set_gate num base limit access gran s = s\<lparr>gdt := (gdt s)[num :=
     \<lparr>ge_limit_low = ucast (limit AND 0xFFFF), ge_base_low = ucast (base AND 0xFFFF),
      ge_base_middle = ucast (drop_bit 16 base AND 0xFF), ge_access = access,
      ge_granularity = ucast ((drop_bit 16 limit AND 0x0F) OR ucast (gran AND 0xF0)),
      ge_base_high = ucast (drop_bit 24 base AND 0xFF)\<rparr>]\<rparr>"

text \<open>The stub \<open>gdt_flush\<close> loads the table register, the data segments and the code segment.\<close>

definition gdt_flush :: "table_ptr \<Rightarrow> cpu_tables \<Rightarrow> cpu_tables" where
  "gdt_flush p s = s\<lparr>reg_gdtr := p, reg_data := 0x10, reg_cs := 0x08\<rparr>"

definition sizeof_gdt_entry :: nat where "sizeof_gdt_entry = 8"

definition gdt_init :: "cpu_tables \<Rightarrow> cpu_tables" where
  "gdt_init s =
     (let s = s\<lparr>gp := \<lparr>tp_limit = word_of_nat (sizeof_gdt_entry * GDT_ENTRIES - 1), tp_base = gdt_addr s\<rparr>\<rparr>;
          s = gdt_set_gate 0 0 0 0 0 s;
          s = gdt_set_gate 1 0 0xFFFFF 0x9A 0xCF s;
          s = gdt_set_gate 2 0 0xFFFFF 0x92 0xCF s;
          s = gdt_set_gate 3 0 0xFFFFF 0xFA 0xCF s;
          s = gdt_set_gate 4 0 0xFFFFF 0xF2 0xCF s
      in gdt_flush (gp s) s)"

section \<open>Interrupt gates (idt.c)\<close>

definition sizeof_idt_entry :: nat where "sizeof_idt_entry = 8"

definition idt_set_gate :: "u8 \<Rightarrow> u32 \<Rightarrow> u16 \<Rightarrow> u8 \<Rightarrow> cpu_tables \<Rightarrow> cpu_tables" where
  "idt_set_gate num base sel flags s = s\<lparr>idt := (idt s)[unat num :=
     \<lparr>ie_base_low = ucast (base AND 0xFFFF), ie_sel = sel, ie_zero = 0, ie_flags = flags,
      ie_base_high = ucast (drop_bit 16 base AND 0xFFFF)\<rparr>]\<rparr>"

definition zero_idt_entry :: idt_entry where
  "zero_idt_entry = \<lparr>ie_base_low = 0, ie_sel = 0, ie_zero = 0, ie_flags = 0, ie_base_high = 0\<rparr>"

text \<open>The \<open>memset\<close> over the whole table zeroes every gate; \<open>idt_load\<close> loads the register.\<close>

definition idt_install :: "cpu_tables \<Rightarrow> cpu_tables" where
  "idt_install s =
     (let s = s\<lparr>idtp := \<lparr>tp_limit = word_of_nat (sizeof_idt_entry * 256 - 1), tp_base = idt_addr s\<rparr>\<rparr>;
          s = s\<lparr>idt := replicate 256 zero_idt_entry\<rparr>
      in s\<lparr>reg_idtr := idtp s\<rparr>)"

section \<open>Task state segment (tss.c)\<close>

definition sizeof_tss :: nat where "sizeof_tss = 104"

definition zero_tss :: tss_entry where
  "zero_tss = \<lparr>prev_tss = 0, esp0 = 0, ss0 = 0, esp1 = 0, ss1 = 0, esp2 = 0, ss2 = 0, tss_cr3 = 0, tss_eip = 0,
     tss_eflags = 0, tss_eax = 0, tss_ecx = 0, tss_edx = 0, tss_ebx = 0, tss_esp = 0, tss_ebp = 0, tss_esi = 0,
     tss_edi = 0, tss_es = 0, tss_cs = 0, tss_ss = 0, tss_ds = 0, tss_fs = 0, tss_gs = 0, tss_ldt = 0,
     tss_trap = 0, iomap_base = 0\<rparr>"

definition tss_flush :: "cpu_tables \<Rightarrow> cpu_tables" where
  "tss_flush s = s\<lparr>reg_tr := 0x28\<rparr>"

definition tss_init :: "u32 \<Rightarrow> u32 \<Rightarrow> cpu_tables \<Rightarrow> cpu_tables" where
  "tss_init a_ss0 a_esp0 s =
     (let base = tss_addr s; limit = word_of_nat sizeof_tss - 1;
          s = gdt_set_gate 5 base limit 0x89 0x00 s;
          s = s\<lparr>tss := zero_tss\<rparr>;
          s = s\<lparr>tss := (tss s)\<lparr>ss0 := a_ss0, esp0 := a_esp0, iomap_base := word_of_nat sizeof_tss\<rparr>\<rparr>
      in tss_flush s)"

definition tss_set_kernel_stack :: "u32 \<Rightarrow> cpu_tables \<Rightarrow> cpu_tables" where
  "tss_set_kernel_stack a_esp0 s = s\<lparr>tss := (tss s)\<lparr>esp0 := a_esp0\<rparr>\<rparr>"

section \<open>How the CPU reads the tables\<close>

text \<open>The base and limit that the processor assembles from a descriptor (Intel SDM, volume 3).\<close>

definition seg_base :: "gdt_entry \<Rightarrow> u32" where
  "seg_base e = ucast (ge_base_low e) OR push_bit 16 (ucast (ge_base_middle e)) OR push_bit 24 (ucast (ge_base_high e))"

definition seg_raw_limit :: "gdt_entry \<Rightarrow> u32" where
  "seg_raw_limit e = ucast (ge_limit_low e) OR push_bit 16 (ucast (ge_granularity e AND 0x0F))"

definition seg_limit :: "gdt_entry \<Rightarrow> u32" where
  "seg_limit e = (if bit (ge_granularity e) 7 then push_bit 12 (seg_raw_limit e) OR mask 12 else seg_raw_limit e)"

definition seg_dpl :: "gdt_entry \<Rightarrow> u8" where
  "seg_dpl e = drop_bit 5 (ge_access e) AND 3"

definition gate_offset :: "idt_entry \<Rightarrow> u32" where
  "gate_offset e = ucast (ie_base_low e) OR push_bit 16 (ucast (ie_base_high e))"

definition segment :: "u32 \<Rightarrow> cpu_tables \<Rightarrow> gdt_entry" where
  "segment sel s = gdt s ! unat (drop_bit 3 sel)"

lemma u8_bound: "unat x < 256" for x :: u8
  using unsigned_less [of x, where 'a = nat] by simp

lemma literal_masks:
  "(0xFFFF :: u32) = mask 16" "(0xFF :: u32) = mask 8" "(0x0F :: u32) = mask 4" "(0x0F :: u8) = mask 4"
  "(0xF0 :: u8) = push_bit 4 (mask 4)"
  by (simp_all add: mask_eq_exp_minus_1)

lemma word_split16: "ucast (ucast (x AND 0xFFFF) :: u16) OR push_bit 16 (ucast (ucast (drop_bit 16 x AND 0xFFFF) :: u16)) = x"
  for x :: u32
  unfolding literal_masks by (rule bit_word_eqI) (auto simp: bit_simps)

lemma word_split_base: "ucast (ucast (x AND 0xFFFF) :: u16) OR push_bit 16 (ucast (ucast (drop_bit 16 x AND 0xFF) :: u8))
    OR push_bit 24 (ucast (ucast (drop_bit 24 x AND 0xFF) :: u8)) = x" for x :: u32
  unfolding literal_masks
proof (rule bit_word_eqI)
  fix n assume "n < LENGTH(32)"
  then consider "n < 16" | "16 \<le> n" "n < 24" | "24 \<le> n" "n < 32" by fastforce
  then show "bit ((ucast (ucast (x AND mask 16) :: u16) :: u32) OR push_bit 16 (ucast (ucast (drop_bit 16 x AND mask 8) :: u8))
    OR push_bit 24 (ucast (ucast (drop_bit 24 x AND mask 8) :: u8))) n = bit x n"
    by cases (auto simp: bit_simps)
qed

lemma word_split_limit:
  "ucast (ucast (x AND 0xFFFF) :: u16)
     OR push_bit 16 (ucast ((ucast ((drop_bit 16 x AND 0x0F) OR ucast (g AND 0xF0)) :: u8) AND 0x0F)) = take_bit 20 x"
  for x :: u32 and g :: u8
  unfolding literal_masks by (rule bit_word_eqI) (auto simp: bit_simps)

lemma gate_nth [simp]: "num < length (gdt s) \<Longrightarrow> gdt (gdt_set_gate num b l a g s) ! k =
    (if k = num then \<lparr>ge_limit_low = ucast (l AND 0xFFFF), ge_base_low = ucast (b AND 0xFFFF),
      ge_base_middle = ucast (drop_bit 16 b AND 0xFF), ge_access = a,
      ge_granularity = ucast ((drop_bit 16 l AND 0x0F) OR ucast (g AND 0xF0)),
      ge_base_high = ucast (drop_bit 24 b AND 0xFF)\<rparr> else gdt s ! k)"
  "length (gdt (gdt_set_gate num b l a g s)) = length (gdt s)"
  by (auto simp: gdt_set_gate_def)

section \<open>Properties\<close>

lemma gdt_gate_roundtrip_parts:
  fixes base limit :: u32 and access gran :: u8
  assumes "num < length (gdt s)"
  defines "e \<equiv> gdt (gdt_set_gate num base limit access gran s) ! num"
  shows "seg_base e = base" "seg_raw_limit e = take_bit 20 limit" "ge_access e = access"
    "drop_bit 4 (ge_granularity e) = drop_bit 4 gran"
    "k \<noteq> num \<Longrightarrow> gdt (gdt_set_gate num base limit access gran s) ! k = gdt s ! k"
proof -
  show "seg_base e = base" "seg_raw_limit e = take_bit 20 limit" "ge_access e = access"
    using assms(1) unfolding e_def by (simp_all add: seg_base_def seg_raw_limit_def word_split_base word_split_limit)
  show "drop_bit 4 (ge_granularity e) = drop_bit 4 gran"
    using assms(1) unfolding e_def
    by (simp add: literal_masks) (rule bit_word_eqI, auto simp: bit_simps dest: bit_imp_le_length)
  show "k \<noteq> num \<Longrightarrow> gdt (gdt_set_gate num base limit access gran s) ! k = gdt s ! k"
    using assms(1) by simp
qed

text \<open>
  What \<open>gdt_set_gate\<close> stores is what the processor reads back: the full 32-bit base, the low 20 bits
  of the limit, the access byte and the flag nibble; no other descriptor changes.
\<close>

lemma gdt_gate_roundtrip:
  fixes base limit :: u32 and access gran :: u8
  assumes "num < length (gdt s)"
  shows "seg_base (gdt (gdt_set_gate num base limit access gran s) ! num) = base
    \<and> seg_raw_limit (gdt (gdt_set_gate num base limit access gran s) ! num) = take_bit 20 limit
    \<and> ge_access (gdt (gdt_set_gate num base limit access gran s) ! num) = access
    \<and> drop_bit 4 (ge_granularity (gdt (gdt_set_gate num base limit access gran s) ! num)) = drop_bit 4 gran
    \<and> (\<forall>k. k \<noteq> num \<longrightarrow> gdt (gdt_set_gate num base limit access gran s) ! k = gdt s ! k)"
  by (intro conjI allI impI gdt_gate_roundtrip_parts [OF assms])

text \<open>The tables as they are before boot, for the witnesses.\<close>

definition blank_tables :: cpu_tables where
  "blank_tables = \<lparr>gdt = replicate GDT_ENTRIES \<lparr>ge_limit_low = 0, ge_base_low = 0, ge_base_middle = 0, ge_access = 0,
       ge_granularity = 0, ge_base_high = 0\<rparr>, gp = \<lparr>tp_limit = 0, tp_base = 0\<rparr>, idt = replicate 256 zero_idt_entry,
     idtp = \<lparr>tp_limit = 0, tp_base = 0\<rparr>, tss = zero_tss, gdt_addr = 0x110000, idt_addr = 0x111000, tss_addr = 0x112000,
     reg_gdtr = \<lparr>tp_limit = 0, tp_base = 0\<rparr>, reg_idtr = \<lparr>tp_limit = 0, tp_base = 0\<rparr>, reg_tr = 0, reg_cs = 0, reg_data = 0\<rparr>"

lemma boot_segments_parts:
  fixes a_ss0 a_esp0 :: u32
  assumes "length (gdt s) = GDT_ENTRIES"
  defines "t \<equiv> tss_init a_ss0 a_esp0 (gdt_init s)"
  shows "\<forall>sel\<in>{SEG_KCODE, SEG_KDATA, SEG_UCODE, SEG_UDATA}. seg_base (segment sel t) = 0 \<and> seg_limit (segment sel t) = 0xFFFFFFFF"
    "\<forall>sel\<in>{SEG_KCODE, SEG_KDATA}. seg_dpl (segment sel t) = 0" "\<forall>sel\<in>{SEG_UCODE, SEG_UDATA}. seg_dpl (segment sel t) = 3"
    "seg_base (segment (ucast (reg_tr t)) t) = tss_addr s" "seg_limit (segment (ucast (reg_tr t)) t) = 103"
    "esp0 (tss t) = a_esp0" "ss0 (tss t) = a_ss0" "unat (iomap_base (tss t)) > 103"
    "reg_gdtr t = \<lparr>tp_limit = 47, tp_base = gdt_addr s\<rparr>"
proof -
  have len: "length (gdt s) = 6" using assms(1) by (simp add: GDT_ENTRIES_def)
  have addr: "tss_addr (gdt_init s) = tss_addr s" "gdt_addr (gdt_init s) = gdt_addr s"
    by (simp_all add: gdt_init_def gdt_set_gate_def gdt_flush_def Let_def)
  note g = t_def tss_init_def gdt_init_def gdt_flush_def tss_flush_def Let_def
  have t5: "gdt t ! 5 = gdt (gdt_set_gate 5 (tss_addr s) 103 0x89 0 (gdt_init s)) ! 5"
    by (simp add: t_def tss_init_def tss_flush_def Let_def addr sizeof_tss_def gdt_set_gate_def)
  have t14: "k < 5 \<Longrightarrow> gdt t ! k = gdt (gdt_init s) ! k" for k
    by (simp add: t_def tss_init_def tss_flush_def Let_def gdt_set_gate_def)
  show "esp0 (tss t) = a_esp0" "ss0 (tss t) = a_ss0" "unat (iomap_base (tss t)) > 103" 
    by (simp_all add: g sizeof_tss_def)
  show "reg_gdtr t = \<lparr>tp_limit = 47, tp_base = gdt_addr s\<rparr>"
    by (simp add: g gdt_set_gate_def sizeof_gdt_entry_def GDT_ENTRIES_def)
  have len': "length (gdt (gdt_init s)) = 6" using len by (simp add: gdt_init_def gdt_flush_def Let_def)
  have tr: "segment (ucast (reg_tr t)) t = gdt t ! 5"
    by (simp add: segment_def g drop_bit_eq_div)
  show "seg_base (segment (ucast (reg_tr t)) t) = tss_addr s"
    using len' unfolding tr t5 by (simp add: seg_base_def word_split_base)
  show "seg_limit (segment (ucast (reg_tr t)) t) = 103"
    using len' unfolding tr t5 by (simp add: seg_limit_def seg_raw_limit_def)
  show "\<forall>sel\<in>{SEG_KCODE, SEG_KDATA, SEG_UCODE, SEG_UDATA}. seg_base (segment sel t) = 0 \<and> seg_limit (segment sel t) = 0xFFFFFFFF"
    using len by (simp add: SEG_KCODE_def SEG_KDATA_def SEG_UCODE_def SEG_UDATA_def segment_def t14 gdt_init_def Let_def gdt_flush_def
      seg_base_def seg_limit_def seg_raw_limit_def mask_eq_exp_minus_1)
  show "\<forall>sel\<in>{SEG_KCODE, SEG_KDATA}. seg_dpl (segment sel t) = 0" "\<forall>sel\<in>{SEG_UCODE, SEG_UDATA}. seg_dpl (segment sel t) = 3"
    using len by (simp_all add: SEG_KCODE_def SEG_KDATA_def SEG_UCODE_def SEG_UDATA_def segment_def t14 gdt_init_def Let_def gdt_flush_def
      seg_dpl_def)
qed

text \<open>
  C26: after \<open>gdt_init\<close> and \<open>tss_init\<close> the selectors of \<^verbatim>\<open>gdt.h\<close> name flat 4 GiB segments with base 0, kernel
  ones at privilege level 0 and user ones at level 3, the task register names a descriptor whose base and
  limit are the task state segment, its ring-0 stack is the one given, and the I/O map lies beyond the limit.
\<close>

theorem boot_segments:
  assumes "length (gdt s) = GDT_ENTRIES" "t = tss_init a_ss0 a_esp0 (gdt_init s)"
  shows "(\<forall>sel\<in>{SEG_KCODE, SEG_KDATA, SEG_UCODE, SEG_UDATA}. seg_base (segment sel t) = 0 \<and> seg_limit (segment sel t) = 0xFFFFFFFF)
    \<and> (\<forall>sel\<in>{SEG_KCODE, SEG_KDATA}. seg_dpl (segment sel t) = 0) \<and> (\<forall>sel\<in>{SEG_UCODE, SEG_UDATA}. seg_dpl (segment sel t) = 3)
    \<and> seg_base (segment (ucast (reg_tr t)) t) = tss_addr s \<and> seg_limit (segment (ucast (reg_tr t)) t) = 103
    \<and> esp0 (tss t) = a_esp0 \<and> ss0 (tss t) = a_ss0 \<and> unat (iomap_base (tss t)) > 103
    \<and> reg_gdtr t = \<lparr>tp_limit = 47, tp_base = gdt_addr s\<rparr>"
  unfolding assms(2) by (intro conjI boot_segments_parts [OF assms(1)])

theorem boot_segments_witness:
  "seg_limit (segment SEG_UCODE (tss_init 0x10 0x90000 (gdt_init blank_tables))) = 0xFFFFFFFF
   \<and> esp0 (tss (tss_init 0x10 0x90000 (gdt_init blank_tables))) = 0x90000"
  using boot_segments [of blank_tables _ "0x10" "0x90000", OF _ refl] by (simp add: blank_tables_def)

definition gate_calls :: "(u8 \<times> u32 \<times> u16 \<times> u8) list \<Rightarrow> cpu_tables \<Rightarrow> cpu_tables" where
  "gate_calls xs s = fold (\<lambda>(num, base, sel, flags). idt_set_gate num base sel flags) xs s"

lemma idt_set_gate_nth: "length (idt s) = 256 \<Longrightarrow> idt (idt_set_gate num base sel flags s) ! unat k =
    (if k = num then \<lparr>ie_base_low = ucast (base AND 0xFFFF), ie_sel = sel, ie_zero = 0, ie_flags = flags,
      ie_base_high = ucast (drop_bit 16 base AND 0xFFFF)\<rparr> else idt s ! unat k)"
  using u8_bound [of k] by (auto simp: idt_set_gate_def nth_list_update word_unat_eq_iff)

lemma gate_calls_state:
  "length (idt s) = 256 \<Longrightarrow> length (idt (gate_calls xs s)) = 256 \<and> reg_idtr (gate_calls xs s) = reg_idtr s"
  by (induction xs arbitrary: s) (auto simp: gate_calls_def idt_set_gate_def)

lemma idt_gates_installed_parts:
  defines "t xs s \<equiv> gate_calls xs (idt_install s)"
  shows "let e = idt (t xs s) ! unat k in
     case map_of (rev xs) k of None \<Rightarrow> ie_flags e = 0
     | Some (base, sel, flags) \<Rightarrow> gate_offset e = base \<and> ie_sel e = sel \<and> ie_flags e = flags"
    "length (idt (t xs s)) = 256" "unat (tp_limit (reg_idtr (t xs s))) + 1 = 8 * 256" "tp_base (reg_idtr (t xs s)) = idt_addr s"
proof -
  have i: "length (idt (idt_install s)) = 256" "reg_idtr (idt_install s) = \<lparr>tp_limit = 2047, tp_base = idt_addr s\<rparr>"
    by (simp_all add: idt_install_def Let_def sizeof_idt_entry_def)
  show "length (idt (t xs s)) = 256" "unat (tp_limit (reg_idtr (t xs s))) + 1 = 8 * 256" "tp_base (reg_idtr (t xs s)) = idt_addr s"
    using gate_calls_state [OF i(1), of xs] i(2) by (simp_all add: t_def)
  show "let e = idt (t xs s) ! unat k in case map_of (rev xs) k of None \<Rightarrow> ie_flags e = 0
     | Some (base, sel, flags) \<Rightarrow> gate_offset e = base \<and> ie_sel e = sel \<and> ie_flags e = flags"
    unfolding t_def
  proof (induction xs rule: rev_induct)
    case Nil
    show ?case using u8_bound [of k]
      by (simp add: gate_calls_def idt_install_def Let_def zero_idt_entry_def)
  next
    case (snoc x xs)
    obtain num base sel flags where x: "x = (num, base, sel, flags)" by (cases x)
    have step: "gate_calls (xs @ [x]) (idt_install s) = idt_set_gate num base sel flags (gate_calls xs (idt_install s))"
      by (simp add: gate_calls_def x)
    have len: "length (idt (gate_calls xs (idt_install s))) = 256" using gate_calls_state [OF i(1)] by blast
    show ?case
      using snoc unfolding step idt_set_gate_nth [OF len]
      by (simp add: x Let_def gate_offset_def word_split16 split: option.splits prod.splits)
  qed
qed

text \<open>
  After \<open>idt_install\<close> and any list of \<open>idt_set_gate\<close> calls, each gate holds what the last call for its
  number stored, as the processor reads it; numbers never set hold an absent gate (flags 0), and the
  loaded table covers all 256 vectors.
\<close>

lemma idt_gates_installed:
  "(case map_of (rev xs) k of
      None \<Rightarrow> ie_flags (idt (gate_calls xs (idt_install s)) ! unat k) = 0
    | Some (base, sel, flags) \<Rightarrow> gate_offset (idt (gate_calls xs (idt_install s)) ! unat k) = base
        \<and> ie_sel (idt (gate_calls xs (idt_install s)) ! unat k) = sel
        \<and> ie_flags (idt (gate_calls xs (idt_install s)) ! unat k) = flags)
   \<and> length (idt (gate_calls xs (idt_install s))) = 256
   \<and> unat (tp_limit (reg_idtr (gate_calls xs (idt_install s)))) + 1 = 8 * 256
   \<and> tp_base (reg_idtr (gate_calls xs (idt_install s))) = idt_addr s"
  using idt_gates_installed_parts(1) [of xs s k] idt_gates_installed_parts(2-4) [of xs s] by (simp add: Let_def)

end
