(* ===== verification/Process.thy ===== *)
theory Process
  imports Descriptors Cstring
begin

text \<open>
  Processes and the scheduler of \<^verbatim>\<open>src/src/kernel/process.c\<close>, with the context switch of \<^verbatim>\<open>boot.S\<close>. A
  pointer into the table \<open>procs\<close> is a slot index. The two stacks inside each \<open>struct process\<close> are bytes
  of the memory, at the offsets of the structure's layout, so that the frames \<open>proc_create\<close> builds are
  the words that \<open>swtch\<close> and \<open>trapret\<close> pop.
\<close>

section \<open>State\<close>

definition PROC_MAX :: nat where "PROC_MAX = 16"
definition PROC_KSTACK_SZ :: u32 where "PROC_KSTACK_SZ = 4096"
definition PROC_USTACK_SZ :: u32 where "PROC_USTACK_SZ = 4096"
definition PROC_NAME_LEN :: nat where "PROC_NAME_LEN = 16"

datatype proc_state = PROC_UNUSED | PROC_READY | PROC_RUNNING | PROC_ZOMBIE

record trapframe =
  tf_gs :: u32
  tf_fs :: u32
  tf_es :: u32
  tf_ds :: u32
  tf_edi :: u32
  tf_esi :: u32
  tf_ebp :: u32
  tf_esp :: u32
  tf_ebx :: u32
  tf_edx :: u32
  tf_ecx :: u32
  tf_eax :: u32
  tf_int_no :: u32
  tf_err_code :: u32
  tf_eip :: u32
  tf_cs :: u32
  tf_eflags :: u32
  tf_user_esp :: u32
  tf_user_ss :: u32

record proc_context =
  cx_edi :: u32
  cx_esi :: u32
  cx_ebx :: u32
  cx_ebp :: u32
  cx_eip :: u32

record process =
  p_pid :: u32
  p_name :: string
  p_state :: proc_state
  p_ctx :: u32
  p_tf :: u32
  p_exit_code :: int
  p_pdir :: u32

text \<open>The callee-saved registers, the stack pointer and the program counter that \<open>swtch\<close> works on.\<close>

record cpu_regs =
  r_edi :: u32
  r_esi :: u32
  r_ebx :: u32
  r_ebp :: u32
  r_esp :: u32
  r_eip :: u32

record sched =
  procs :: "process list"
  current_proc :: "nat option"
  next_pid :: u32
  child_parent :: "u32 list"
  pmem :: memory
  procs_addr :: u32
  tables :: cpu_tables
  regs :: cpu_regs

abbreviation upd_proc :: "nat \<Rightarrow> (process \<Rightarrow> process) \<Rightarrow> sched \<Rightarrow> sched" where
  "upd_proc i f s \<equiv> procs_update (\<lambda>ps. ps[i := f (ps ! i)]) s"

section \<open>Layout\<close>

definition sizeof_process :: nat where "sizeof_process = 8240"
definition sizeof_trapframe :: nat where "sizeof_trapframe = 76"
definition sizeof_context :: nat where "sizeof_context = 20"

definition kernel_stack :: "sched \<Rightarrow> nat \<Rightarrow> u32" where
  "kernel_stack s i = procs_addr s + word_of_nat (sizeof_process * i + 32)"

definition user_stack :: "sched \<Rightarrow> nat \<Rightarrow> u32" where
  "user_stack s i = procs_addr s + word_of_nat (sizeof_process * i + 4128)"

text \<open>Consecutive words stored and loaded upwards from an address.\<close>

primrec store_words :: "u32 \<Rightarrow> u32 list \<Rightarrow> memory \<Rightarrow> memory" where
  "store_words a [] m = m"
| "store_words a (w # ws) m = store_words (a + 4) ws (store32 m a w)"

definition trapframe_words :: "trapframe \<Rightarrow> u32 list" where
  "trapframe_words tf = [tf_gs tf, tf_fs tf, tf_es tf, tf_ds tf, tf_edi tf, tf_esi tf, tf_ebp tf, tf_esp tf, tf_ebx tf,
     tf_edx tf, tf_ecx tf, tf_eax tf, tf_int_no tf, tf_err_code tf, tf_eip tf, tf_cs tf, tf_eflags tf,
     tf_user_esp tf, tf_user_ss tf]"

definition context_words :: "proc_context \<Rightarrow> u32 list" where
  "context_words c = [cx_edi c, cx_esi c, cx_ebx c, cx_ebp c, cx_eip c]"

definition load_trapframe :: "memory \<Rightarrow> u32 \<Rightarrow> trapframe" where
  "load_trapframe m a = \<lparr>tf_gs = load32 m a, tf_fs = load32 m (a + 4), tf_es = load32 m (a + 8), tf_ds = load32 m (a + 12),
     tf_edi = load32 m (a + 16), tf_esi = load32 m (a + 20), tf_ebp = load32 m (a + 24), tf_esp = load32 m (a + 28),
     tf_ebx = load32 m (a + 32), tf_edx = load32 m (a + 36), tf_ecx = load32 m (a + 40), tf_eax = load32 m (a + 44),
     tf_int_no = load32 m (a + 48), tf_err_code = load32 m (a + 52), tf_eip = load32 m (a + 56), tf_cs = load32 m (a + 60),
     tf_eflags = load32 m (a + 64), tf_user_esp = load32 m (a + 68), tf_user_ss = load32 m (a + 72)\<rparr>"

definition load_context :: "memory \<Rightarrow> u32 \<Rightarrow> proc_context" where
  "load_context m a = \<lparr>cx_edi = load32 m a, cx_esi = load32 m (a + 4), cx_ebx = load32 m (a + 8),
     cx_ebp = load32 m (a + 12), cx_eip = load32 m (a + 16)\<rparr>"

section \<open>Operations\<close>

definition p_strcpy :: "string \<Rightarrow> nat \<Rightarrow> string" where
  "p_strcpy src n = c_strcpy src n"

definition proc_init :: "sched \<Rightarrow> sched" where
  "proc_init s =
     (let s = s\<lparr>procs := map (\<lambda>p. p\<lparr>p_state := PROC_UNUSED, p_pid := 0\<rparr>) (procs s),
                child_parent := map (\<lambda>_. 0) (child_parent s)\<rparr>;
          s = upd_proc 0 (\<lambda>p. p\<lparr>p_pid := 0, p_name := p_strcpy ''kernel'' PROC_NAME_LEN,
                p_state := PROC_RUNNING, p_ctx := 0\<rparr>) s
      in s\<lparr>current_proc := Some 0\<rparr>)"

definition user_frame :: "u32 \<Rightarrow> u32 \<Rightarrow> trapframe" where
  "user_frame entry usp = \<lparr>tf_gs = SEG_UDATA OR 3, tf_fs = SEG_UDATA OR 3, tf_es = SEG_UDATA OR 3, tf_ds = SEG_UDATA OR 3,
     tf_edi = 0, tf_esi = 0, tf_ebp = 0, tf_esp = 0, tf_ebx = 0, tf_edx = 0, tf_ecx = 0, tf_eax = 0, tf_int_no = 0,
     tf_err_code = 0, tf_eip = entry, tf_cs = SEG_UCODE OR 3, tf_eflags = 0x202, tf_user_esp = usp,
     tf_user_ss = SEG_UDATA OR 3\<rparr>"

definition proc_create :: "u32 \<Rightarrow> string \<Rightarrow> u32 \<Rightarrow> sched \<Rightarrow> sched \<times> int" where
  "proc_create trapret nm entry s =
     (if entry = 0 then (s, -1)
      else if entry < 0x08000000 \<or> entry \<ge> 0xC0000000 then (s, -1)
      else (case List.find (\<lambda>i. p_state (procs s ! i) = PROC_UNUSED) [1..<PROC_MAX] of
        None \<Rightarrow> (s, -1)
      | Some i \<Rightarrow>
          let pid = next_pid s;
              s = next_pid_update (\<lambda>n. n + 1) s;
              s = upd_proc i (\<lambda>p. p\<lparr>p_pid := pid, p_name := p_strcpy nm PROC_NAME_LEN, p_exit_code := 0\<rparr>) s;
              sp = kernel_stack s i + PROC_KSTACK_SZ;
              sp = sp - word_of_nat sizeof_trapframe;
              s = upd_proc i (\<lambda>p. p\<lparr>p_tf := sp\<rparr>) s;
              usp = user_stack s i + PROC_USTACK_SZ;
              s = pmem_update (store_words sp (trapframe_words (user_frame entry usp))) s;
              sp = sp - word_of_nat sizeof_context;
              s = upd_proc i (\<lambda>p. p\<lparr>p_ctx := sp\<rparr>) s;
              s = pmem_update (store_words sp (context_words
                      \<lparr>cx_edi = 0, cx_esi = 0, cx_ebx = 0, cx_ebp = 0, cx_eip = trapret\<rparr>)) s;
              s = (case current_proc s of
                     Some c \<Rightarrow> let ppid = p_pid (procs s ! c) in
                               if ppid > 0 then child_parent_update (\<lambda>cp. cp[i := ppid]) s else s
                   | None \<Rightarrow> s);
              s = upd_proc i (\<lambda>p. p\<lparr>p_state := PROC_READY\<rparr>) s
          in (s, sint (p_pid (procs s ! i)))))"

text \<open>
  The assembly routine \<open>swtch(&old->ctx, ctx)\<close>: push the callee-saved registers on the current stack,
  store the stack pointer in \<open>old->ctx\<close>, take \<open>ctx\<close> as the stack pointer, pop the registers and return.
\<close>

definition swtch :: "nat \<Rightarrow> u32 \<Rightarrow> sched \<Rightarrow> sched" where
  "swtch old ctx s =
     (let r = regs s; sp = r_esp r - 16;
          s = s\<lparr>pmem := store_words sp [r_edi r, r_esi r, r_ebx r, r_ebp r] (pmem s)\<rparr>;
          s = upd_proc old (\<lambda>p. p\<lparr>p_ctx := sp\<rparr>) s;
          c = load_context (pmem s) ctx
      in s\<lparr>regs := \<lparr>r_edi = cx_edi c, r_esi = cx_esi c, r_ebx = cx_ebx c, r_ebp = cx_ebp c,
                    r_esp = ctx + 20, r_eip = cx_eip c\<rparr>\<rparr>)"

definition schedule :: "sched \<Rightarrow> sched" where
  "schedule s =
     (case current_proc s of None \<Rightarrow> s
      | Some prev \<Rightarrow>
        let cur = (case List.find (\<lambda>i. i = prev) [0..<PROC_MAX] of Some i \<Rightarrow> i | None \<Rightarrow> 0);
            ready = List.find (\<lambda>idx. p_state (procs s ! idx) = PROC_READY)
                      (map (\<lambda>i. (cur + i) mod PROC_MAX) [1..<PROC_MAX + 1]);
            next_slot = (case ready of
                Some idx \<Rightarrow> Some idx
              | None \<Rightarrow>
                  if p_state (procs s ! prev) \<noteq> PROC_RUNNING \<and> cur \<noteq> 0 then
                    if p_state (procs s ! 0) \<noteq> PROC_READY \<and> p_state (procs s ! 0) \<noteq> PROC_RUNNING then None
                    else Some 0
                  else None)
        in (case next_slot of None \<Rightarrow> s
            | Some nxt \<Rightarrow>
                if nxt = prev then s
                else let s = (if p_state (procs s ! prev) = PROC_RUNNING
                              then upd_proc prev (\<lambda>p. p\<lparr>p_state := PROC_READY\<rparr>) s else s);
                         s = upd_proc nxt (\<lambda>p. p\<lparr>p_state := PROC_RUNNING\<rparr>) s;
                         s = (if nxt \<noteq> 0 then s\<lparr>tables := tss_set_kernel_stack (kernel_stack s nxt + PROC_KSTACK_SZ) (tables s)\<rparr> else s);
                         s = s\<lparr>current_proc := Some nxt\<rparr>
                     in swtch prev (p_ctx (procs s ! nxt)) s))"

definition proc_current :: "sched \<Rightarrow> nat option" where
  "proc_current s = current_proc s"

definition proc_exit :: "int \<Rightarrow> sched \<Rightarrow> sched" where
  "proc_exit code s =
     (case current_proc s of None \<Rightarrow> s
      | Some c \<Rightarrow>
          if p_pid (procs s ! c) = 0 then s
          else schedule (upd_proc c (\<lambda>p. p\<lparr>p_state := PROC_ZOMBIE, p_exit_code := code\<rparr>) s))"

definition proc_yield :: "sched \<Rightarrow> sched" where
  "proc_yield s = schedule s"

definition proc_active_count :: "sched \<Rightarrow> nat" where
  "proc_active_count s = length (filter (\<lambda>p. p_state p \<noteq> PROC_UNUSED) (procs s))"

definition proc_table_ptr :: "sched \<Rightarrow> process list" where
  "proc_table_ptr s = procs s"

end
