(* ===== verification/Sched.thy ===== *)
theory Sched
  imports Process
begin

text \<open>
  Correctness of the scheduler: the invariant that exactly one process runs, its preservation by
  every operation, the round-robin choice as a bound on waiting, the frames of a new process and
  the round trip of a context switch.
\<close>

section \<open>Words in memory\<close>

lemma store_words_outside:
  "unat a + 4 * length ws < 2 ^ 32 \<Longrightarrow> unat x < unat a \<or> unat a + 4 * length ws \<le> unat x \<Longrightarrow>
   store_words a ws m x = m x"
proof (induction ws arbitrary: a m)
  case (Cons w ws)
  have a4: "unat (a + 4) = unat a + 4" using Cons.prems(1) by (simp add: unat_plus_no_wrap)
  show ?case
    using Cons.prems Cons.IH [of "a + 4"] by (auto simp: a4 store32_outside)
qed simp

lemma load_store_words:
  "unat a + 4 * length ws < 2 ^ 32 \<Longrightarrow> i < length ws \<Longrightarrow> load32 (store_words a ws m) (a + word_of_nat (4 * i)) = ws ! i"
proof (induction ws arbitrary: a m i)
  case (Cons w ws)
  have a4: "unat (a + 4) = unat a + 4" using Cons.prems(1) by (simp add: unat_plus_no_wrap)
  show ?case
  proof (cases i)
    case 0
    have "load32 (store_words (a + 4) ws (store32 m a w)) a = load32 (store32 m a w) a"
      by (rule load32_same_on) (use Cons.prems a4 in \<open>auto simp: store_words_outside\<close>)
    then show ?thesis using 0 by (simp add: load32_store32_same)
  next
    case (Suc j)
    have "a + word_of_nat (4 * i) = (a + 4) + word_of_nat (4 * j)" using Suc by (simp add: algebra_simps)
    then show ?thesis using Cons.IH [of "a + 4" j] Cons.prems a4 Suc by (simp add: add.assoc)
  qed
qed simp

lemma load_store_words_list:
  assumes "unat a + 4 * length ws < 2 ^ 32"
  shows "map (\<lambda>i. load32 (store_words a ws m) (a + word_of_nat (4 * i))) [0..<length ws] = ws"
  using load_store_words [OF assms] by (intro nth_equalityI) auto

lemma load_store_trapframe:
  assumes "unat a + 76 < 2 ^ 32"
  shows "load_trapframe (store_words a (trapframe_words tf) m) a = tf"
proof -
  have "load32 (store_words a (trapframe_words tf) m) (a + word_of_nat (4 * i)) = trapframe_words tf ! i" if "i < 19" for i
    using load_store_words [of a "trapframe_words tf" i m] assms that by (simp add: trapframe_words_def)
  from this [of 0] this [of 1] this [of 2] this [of 3] this [of 4] this [of 5] this [of 6] this [of 7] this [of 8]
    this [of 9] this [of 10] this [of 11] this [of 12] this [of 13] this [of 14] this [of 15] this [of 16] this [of 17] this [of 18]
  show ?thesis
    by (simp add: load_trapframe_def trapframe_words_def)
qed

lemma load_store_context:
  assumes "unat a + 20 < 2 ^ 32"
  shows "load_context (store_words a (context_words c) m) a = c"
proof -
  have "load32 (store_words a (context_words c) m) (a + word_of_nat (4 * i)) = context_words c ! i" if "i < 5" for i
    using load_store_words [of a "context_words c" i m] assms that by (simp add: context_words_def)
  from this [of 0] this [of 1] this [of 2] this [of 3] this [of 4]
  show ?thesis by (simp add: load_context_def context_words_def)
qed

lemma load_trapframe_cong:
  assumes "same_on m m' (unat a) (unat a + 76)" "unat a + 76 < 2 ^ 32"
  shows "load_trapframe m' a = load_trapframe m a"
proof -
  have "load32 m' (a + word_of_nat (4 * i)) = load32 m (a + word_of_nat (4 * i))" if "i < 19" for i
  proof (rule load32_same_on)
    have "unat (word_of_nat (4 * i) :: u32) = 4 * i" using that by (intro unat_of_nat_u32) simp
    then have u: "unat (a + word_of_nat (4 * i)) = unat a + 4 * i"
      using unat_plus_no_wrap [of a "word_of_nat (4 * i)"] that assms(2) by (simp del: of_nat_mult)
    show "same_on m m' (unat (a + word_of_nat (4 * i))) (unat (a + word_of_nat (4 * i)) + 4)"
      by (rule same_on_mono [OF assms(1)]) (use u that in auto)
    show "unat (a + word_of_nat (4 * i)) + 4 \<le> 2 ^ 32" using u that assms(2) by simp
  qed
  from this [of 0] this [of 1] this [of 2] this [of 3] this [of 4] this [of 5] this [of 6] this [of 7] this [of 8]
    this [of 9] this [of 10] this [of 11] this [of 12] this [of 13] this [of 14] this [of 15] this [of 16] this [of 17] this [of 18]
  show ?thesis by (simp add: load_trapframe_def)
qed

section \<open>Invariant\<close>

definition slot_state :: "sched \<Rightarrow> nat \<Rightarrow> proc_state" where
  "slot_state s i = p_state (procs s ! i)"

text \<open>
  The part of the invariant that also holds inside \<open>proc_exit\<close>, when the current process is already a
  zombie: no slot but the current one runs, and the kernel process can always be resumed.
\<close>

definition sched_wf :: "sched \<Rightarrow> nat \<Rightarrow> bool" where
  "sched_wf s c \<longleftrightarrow> length (procs s) = PROC_MAX \<and> length (child_parent s) = PROC_MAX \<and> current_proc s = Some c \<and> c < PROC_MAX
     \<and> (\<forall>i<PROC_MAX. i \<noteq> c \<longrightarrow> slot_state s i \<noteq> PROC_RUNNING)
     \<and> slot_state s 0 \<in> {PROC_READY, PROC_RUNNING} \<and> p_pid (procs s ! 0) = 0
     \<and> slot_state s c \<in> {PROC_RUNNING, PROC_ZOMBIE}"

definition pids_ok :: "sched \<Rightarrow> bool" where
  "pids_ok s \<longleftrightarrow> (\<forall>i<PROC_MAX. 0 < i \<longrightarrow> slot_state s i \<noteq> PROC_UNUSED \<longrightarrow>
       0 < p_pid (procs s ! i) \<and> p_pid (procs s ! i) < next_pid s
       \<and> (\<forall>j<PROC_MAX. 0 < j \<longrightarrow> j \<noteq> i \<longrightarrow> slot_state s j \<noteq> PROC_UNUSED \<longrightarrow> p_pid (procs s ! j) \<noteq> p_pid (procs s ! i)))"

definition sched_inv :: "sched \<Rightarrow> bool" where
  "sched_inv s \<longleftrightarrow> (\<exists>c. sched_wf s c \<and> slot_state s c = PROC_RUNNING) \<and> pids_ok s \<and> 0 < next_pid s"

section \<open>Round robin\<close>

definition rr_order :: "nat \<Rightarrow> nat list" where
  "rr_order c = map (\<lambda>i. (c + i) mod PROC_MAX) [1..<PROC_MAX + 1]"

definition rr_next :: "sched \<Rightarrow> nat \<Rightarrow> nat option" where
  "rr_next s c = List.find (\<lambda>i. slot_state s i = PROC_READY) (rr_order c)"

text \<open>How many slots after \<open>c\<close> the slot \<open>k\<close> comes.\<close>

definition rr_dist :: "nat \<Rightarrow> nat \<Rightarrow> nat" where
  "rr_dist c k = (k + PROC_MAX - c) mod PROC_MAX"

lemma rr_dist_pos: "c < PROC_MAX \<Longrightarrow> k < PROC_MAX \<Longrightarrow> k \<noteq> c \<Longrightarrow> 0 < rr_dist c k \<and> rr_dist c k < PROC_MAX
    \<and> (c + rr_dist c k) mod PROC_MAX = k"
proof (cases "c < k")
  case True
  assume "c < PROC_MAX" "k < PROC_MAX" "k \<noteq> c"
  have "rr_dist c k = (k - c + PROC_MAX) mod PROC_MAX" using True by (simp add: rr_dist_def)
  then have "rr_dist c k = k - c" using \<open>k < PROC_MAX\<close> by (simp only: mod_add_self2) simp
  then show ?thesis using True \<open>k < PROC_MAX\<close> by simp
next
  case False
  assume a: "c < PROC_MAX" "k < PROC_MAX" "k \<noteq> c"
  then have "rr_dist c k = k + PROC_MAX - c" using False unfolding rr_dist_def by simp
  then show ?thesis using a False by simp
qed

lemma rr_dist_step: "c < PROC_MAX \<Longrightarrow> k < PROC_MAX \<Longrightarrow> k \<noteq> c \<Longrightarrow> 0 < i \<Longrightarrow> i \<le> rr_dist c k \<Longrightarrow>
    rr_dist ((c + i) mod PROC_MAX) k = rr_dist c k - i"
proof -
  assume a: "c < PROC_MAX" "k < PROC_MAX" "k \<noteq> c" "0 < i" "i \<le> rr_dist c k"
  let ?d = "rr_dist c k"
  have d: "?d < PROC_MAX" "(c + ?d) mod PROC_MAX = k" using rr_dist_pos [OF a(1-3)] by auto
  have k: "k = c + ?d \<and> c + ?d < PROC_MAX \<or> k = c + ?d - PROC_MAX \<and> PROC_MAX \<le> c + ?d"
    using d a(1) by (cases "c + ?d < PROC_MAX") (auto simp: mod_if [of "c + ?d"])
  have ci: "(c + i) mod PROC_MAX = (if c + i < PROC_MAX then c + i else c + i - PROC_MAX)"
    using a d by (auto simp: mod_if [of "c + i"])
  have "k + PROC_MAX - (c + i) mod PROC_MAX = ?d - i \<or> k + PROC_MAX - (c + i) mod PROC_MAX = (?d - i) + PROC_MAX"
    using k ci a by auto
  then have "(k + PROC_MAX - (c + i) mod PROC_MAX) mod PROC_MAX = ?d - i" using d(1) by auto
  then show ?thesis by (simp add: rr_dist_def)
qed

lemma rr_order_nth: "length (rr_order c) = PROC_MAX" "j < PROC_MAX \<Longrightarrow> rr_order c ! j = (c + Suc j) mod PROC_MAX"
  unfolding rr_order_def by (simp_all del: upt_Suc)

lemma rr_order_mem: "0 < d \<Longrightarrow> d \<le> PROC_MAX \<Longrightarrow> (c + d) mod PROC_MAX \<in> set (rr_order c)"
proof -
  assume d: "0 < d" "d \<le> PROC_MAX"
  then have "d - 1 < length (rr_order c)" by (simp add: rr_order_nth(1))
  from nth_mem [OF this] show ?thesis using d by (simp add: rr_order_nth(2))
qed

lemma rr_next_Some:
  assumes "rr_next s c = Some n" "c < PROC_MAX"
  shows "n < PROC_MAX" "slot_state s n = PROC_READY"
    "k < PROC_MAX \<Longrightarrow> k \<noteq> c \<Longrightarrow> slot_state s k = PROC_READY \<Longrightarrow> rr_dist n k < rr_dist c k"
proof -
  obtain i where i: "i < PROC_MAX" "n = rr_order c ! i" "slot_state s n = PROC_READY"
    "\<And>j. j < i \<Longrightarrow> slot_state s (rr_order c ! j) \<noteq> PROC_READY"
    using assms(1) by (auto simp: rr_next_def find_Some_iff rr_order_nth(1))
  note nth = rr_order_nth(2) [of _ c]
  show "n < PROC_MAX" using i(1,2) nth by (simp add: PROC_MAX_def)
  show "slot_state s n = PROC_READY" by (fact i)
  assume k: "k < PROC_MAX" "k \<noteq> c" "slot_state s k = PROC_READY"
  note d = rr_dist_pos [OF assms(2) k(1,2)]
  have "rr_order c ! (rr_dist c k - 1) = k" using nth [of "rr_dist c k - 1"] d less_imp_diff_less [of "rr_dist c k" PROC_MAX 1] by simp
  then have "i \<le> rr_dist c k - 1" using i(4) k(3) by (metis not_le)
  then have "Suc i \<le> rr_dist c k" using d by linarith
  then have "rr_dist ((c + Suc i) mod PROC_MAX) k = rr_dist c k - Suc i"
    by (intro rr_dist_step [OF assms(2) k(1,2)]) auto
  then show "rr_dist n k < rr_dist c k" using nth [OF i(1)] i(2) d by simp
qed

lemma rr_next_None:
  assumes "rr_next s c = None" "c < PROC_MAX" "k < PROC_MAX"
  shows "slot_state s k \<noteq> PROC_READY"
proof -
  have "k \<in> set (rr_order c)"
    using rr_order_mem [of PROC_MAX c] rr_order_mem [of "rr_dist c k" c] rr_dist_pos [OF assms(2,3)] assms(2)
    by (cases "k = c") (auto simp: PROC_MAX_def)
  then show ?thesis using assms(1) by (simp add: rr_next_def find_None_iff)
qed

section \<open>What schedule does\<close>

lemma swtch_states [simp]:
  "length (procs (swtch p x s)) = length (procs s)" "child_parent (swtch p x s) = child_parent s"
  "current_proc (swtch p x s) = current_proc s" "next_pid (swtch p x s) = next_pid s"
  "tables (swtch p x s) = tables s" "procs_addr (swtch p x s) = procs_addr s"
  by (simp_all add: swtch_def Let_def)

lemma swtch_slots [simp]:
  "slot_state (swtch p x s) i = slot_state s i" "p_pid (procs (swtch p x s) ! i) = p_pid (procs s ! i)"
proof -
  have "p_state (procs (swtch p x s) ! i) = p_state (procs s ! i) \<and> p_pid (procs (swtch p x s) ! i) = p_pid (procs s ! i)"
    by (cases "p < length (procs s)"; cases "i = p") (auto simp: swtch_def Let_def list_update_beyond)
  then show "slot_state (swtch p x s) i = slot_state s i" "p_pid (procs (swtch p x s) ! i) = p_pid (procs s ! i)"
    by (simp_all add: slot_state_def)
qed

lemma swtch_cong: "s = t \<Longrightarrow> swtch p x s = swtch p x t"
  by simp

lemma wf_cur: "sched_wf s c \<Longrightarrow> (case List.find (\<lambda>i. i = c) [0..<PROC_MAX] of Some i \<Rightarrow> i | None \<Rightarrow> 0) = c"
  by (auto simp: sched_wf_def find_upt_Some find_upt_None split: option.splits)

lemma wf_idle:
  assumes "sched_wf s c" "rr_next s c = None"
  shows "slot_state s c = PROC_RUNNING"
proof (rule ccontr)
  assume "slot_state s c \<noteq> PROC_RUNNING"
  then have "c \<noteq> 0" using assms(1) by (intro notI) (auto simp: sched_wf_def)
  then have "slot_state s 0 = PROC_READY" using assms(1) by (auto simp: sched_wf_def PROC_MAX_def)
  then show False using rr_next_None [OF assms(2), of 0] assms(1) by (auto simp: sched_wf_def)
qed

text \<open>
  On a well-formed table \<open>schedule\<close> either finds no other ready process and changes nothing, or hands
  the processor to the next ready one in cyclic order.
\<close>

lemma schedule_idle:
  assumes "sched_wf s c" "rr_next s c = None"
  shows "schedule s = s"
proof -
  have "p_state (procs s ! c) = PROC_RUNNING" using wf_idle [OF assms] by (simp add: slot_state_def)
  then show ?thesis
    using assms wf_cur [OF assms(1)]
    by (auto simp: schedule_def sched_wf_def rr_next_def rr_order_def slot_state_def Let_def simp del: upt_Suc)
qed

lemma schedule_switch:
  assumes wf: "sched_wf s c" and n: "rr_next s c = Some n"
  defines "u \<equiv> s\<lparr>procs := (procs s)[c := (procs s ! c)\<lparr>p_state := (if slot_state s c = PROC_RUNNING then PROC_READY else slot_state s c)\<rparr>,
      n := (procs s ! n)\<lparr>p_state := PROC_RUNNING\<rparr>],
    tables := (if n \<noteq> 0 then tss_set_kernel_stack (kernel_stack s n + PROC_KSTACK_SZ) (tables s) else tables s),
    current_proc := Some n\<rparr>"
  shows "schedule s = swtch c (p_ctx (procs s ! n)) u" "n \<noteq> c"
proof -
  have c: "current_proc s = Some c" "c < PROC_MAX" "length (procs s) = PROC_MAX"
    and st: "slot_state s c = PROC_RUNNING \<or> slot_state s c = PROC_ZOMBIE"
    using wf by (auto simp: sched_wf_def)
  note r = rr_next_Some [OF n c(2)]
  show nc: "n \<noteq> c" using r(2) st by auto
  have upd: "(procs s)[c := (procs s ! c)\<lparr>p_state := p_state (procs s ! c)\<rparr>] = procs s"
    by simp
  have f: "List.find (\<lambda>i. p_state (procs s ! i) = PROC_READY) (map (\<lambda>i. (c + i) mod PROC_MAX) [1..<PROC_MAX + 1]) = Some n"
    using n by (simp add: rr_next_def rr_order_def slot_state_def del: upt_Suc)
  show "schedule s = swtch c (p_ctx (procs s ! n)) u"
    unfolding schedule_def c(1) option.case Let_def wf_cur [OF wf] f
    using nc r(1) c st upd by (auto simp: u_def slot_state_def kernel_stack_def intro!: swtch_cong sched.equality)
qed

lemma schedule_states:
  assumes wf: "sched_wf s c" and n: "rr_next s c = Some n"
  shows "slot_state (schedule s) i = (if i = n then PROC_RUNNING else if i = c \<and> slot_state s c = PROC_RUNNING then PROC_READY
      else slot_state s i)"
    "current_proc (schedule s) = Some n" "p_pid (procs (schedule s) ! i) = p_pid (procs s ! i)"
    "next_pid (schedule s) = next_pid s" "length (procs (schedule s)) = length (procs s)"
    "child_parent (schedule s) = child_parent s"
proof -
  have c: "c < length (procs s)" "n < length (procs s)"
    using wf rr_next_Some(1) [OF n] by (auto simp: sched_wf_def)
  note sw = schedule_switch [OF wf n]
  show "slot_state (schedule s) i = (if i = n then PROC_RUNNING else if i = c \<and> slot_state s c = PROC_RUNNING then PROC_READY
      else slot_state s i)" "p_pid (procs (schedule s) ! i) = p_pid (procs s ! i)"
    unfolding sw(1) swtch_slots using c sw(2) by (simp_all add: slot_state_def nth_list_update)
  show "current_proc (schedule s) = Some n" "next_pid (schedule s) = next_pid s"
    "length (procs (schedule s)) = length (procs s)" "child_parent (schedule s) = child_parent s"
    unfolding sw(1) by simp_all
qed

lemma schedule_inv:
  assumes wf: "sched_wf s c" and pids: "pids_ok s" "0 < next_pid s"
  shows "sched_inv (schedule s)"
proof (cases "rr_next s c")
  case None
  then show ?thesis using schedule_idle [OF wf None] wf_idle [OF wf None] wf pids by (auto simp: sched_inv_def)
next
  case (Some n)
  note st = schedule_states [OF wf Some]
  have n: "n < PROC_MAX" "slot_state s n = PROC_READY" "n \<noteq> c"
    using rr_next_Some(1,2) [OF Some] schedule_switch(2) [OF wf Some] wf by (auto simp: sched_wf_def)
  have "sched_wf (schedule s) n"
    using wf n by (auto simp: sched_wf_def st)
  moreover have "slot_state (schedule s) n = PROC_RUNNING" by (simp add: st)
  moreover have used: "slot_state (schedule s) i = PROC_UNUSED \<longleftrightarrow> slot_state s i = PROC_UNUSED" for i
    using n wf by (auto simp: st sched_wf_def)
  then have "pids_ok (schedule s)" using pids(1) by (simp add: pids_ok_def used st(3,4))
  ultimately show ?thesis using pids(2) by (auto simp: sched_inv_def st(4))
qed

lemma sched_invE:
  assumes "sched_inv s"
  obtains c where "sched_wf s c" "slot_state s c = PROC_RUNNING" "current_proc s = Some c" "c < PROC_MAX"
    "length (procs s) = PROC_MAX" "pids_ok s" "0 < next_pid s"
  using assms by (auto simp: sched_inv_def sched_wf_def)

lemma proc_yield_inv: "sched_inv s \<Longrightarrow> sched_inv (proc_yield s)"
  unfolding proc_yield_def by (elim sched_invE) (rule schedule_inv)

lemma exit_wf:
  fixes code :: int
  assumes wf: "sched_wf s c" and p: "p_pid (procs s ! c) \<noteq> 0" and pids: "pids_ok s"
  defines "u \<equiv> upd_proc c (\<lambda>p. p\<lparr>p_state := PROC_ZOMBIE, p_exit_code := code\<rparr>) s"
  shows "sched_wf u c" "pids_ok u" "slot_state u i = (if i = c then PROC_ZOMBIE else slot_state s i)"
proof -
  have c: "c < length (procs s)" "length (procs s) = PROC_MAX" using wf by (auto simp: sched_wf_def)
  have st: "slot_state u i = (if i = c then PROC_ZOMBIE else slot_state s i)"
    "p_pid (procs u ! i) = p_pid (procs s ! i)" for i
    using c by (auto simp: u_def slot_state_def nth_list_update)
  have c0: "c \<noteq> 0" using p wf by (intro notI) (auto simp: sched_wf_def)
  then show "sched_wf u c" using wf by (auto simp: sched_wf_def st) (auto simp: u_def)
  have "slot_state s c \<noteq> PROC_UNUSED" using wf by (auto simp: sched_wf_def)
  then show "pids_ok u" using pids by (auto simp: pids_ok_def st) (auto simp: u_def)
  show "slot_state u i = (if i = c then PROC_ZOMBIE else slot_state s i)" by (rule st)
qed

lemma proc_exit_inv:
  assumes "sched_inv s"
  shows "sched_inv (proc_exit code s)"
proof -
  obtain c where c: "sched_wf s c" "current_proc s = Some c" "pids_ok s" "0 < next_pid s"
    by (rule sched_invE [OF assms])
  show ?thesis
  proof (cases "p_pid (procs s ! c) = 0")
    case False
    show ?thesis
      using schedule_inv [OF exit_wf(1,2) [OF c(1) False c(3)], of code] c False by (simp add: proc_exit_def)
  qed (use assms c in \<open>simp add: proc_exit_def\<close>)
qed

section \<open>Creating a process\<close>

definition free_slot :: "sched \<Rightarrow> nat option" where
  "free_slot s = List.find (\<lambda>i. slot_state s i = PROC_UNUSED) [1..<PROC_MAX]"

definition entry_ok :: "u32 \<Rightarrow> bool" where
  "entry_ok entry \<longleftrightarrow> 0x08000000 \<le> entry \<and> entry < 0xC0000000"

definition new_proc :: "u32 \<Rightarrow> string \<Rightarrow> u32 \<Rightarrow> nat \<Rightarrow> sched \<Rightarrow> process" where
  "new_proc trapret nm entry i s = (procs s ! i)\<lparr>p_pid := next_pid s, p_name := p_strcpy nm PROC_NAME_LEN, p_exit_code := 0,
     p_tf := kernel_stack s i + 4020, p_ctx := kernel_stack s i + 4000, p_state := PROC_READY\<rparr>"

lemma free_slot_Some:
  "free_slot s = Some i \<Longrightarrow> 0 < i \<and> i < PROC_MAX \<and> slot_state s i = PROC_UNUSED"
  by (auto simp: free_slot_def find_Some_iff)

lemma proc_create_error:
  "\<not> entry_ok entry \<or> free_slot s = None \<Longrightarrow> proc_create trapret nm entry s = (s, -1)"
  by (auto simp: proc_create_def entry_ok_def free_slot_def slot_state_def not_le not_less split: option.splits)

lemma proc_create_ok:
  fixes trapret :: u32 and nm :: string
  assumes e: "entry_ok entry" and f: "free_slot s = Some i" and len: "length (procs s) = PROC_MAX"
  defines "t \<equiv> fst (proc_create trapret nm entry s)"
  shows "procs t = (procs s)[i := new_proc trapret nm entry i s]" "next_pid t = next_pid s + 1"
    "current_proc t = current_proc s" "length (child_parent t) = length (child_parent s)"
    "pmem t = store_words (kernel_stack s i + 4000) (context_words \<lparr>cx_edi = 0, cx_esi = 0, cx_ebx = 0, cx_ebp = 0, cx_eip = trapret\<rparr>)
       (store_words (kernel_stack s i + 4020) (trapframe_words (user_frame entry (user_stack s i + 4096))) (pmem s))"
    "snd (proc_create trapret nm entry s) = sint (next_pid s)" "tables t = tables s" "procs_addr t = procs_addr s" "regs t = regs s"
proof -
  have i: "i < length (procs s)" using free_slot_Some [OF f] len by simp
  have e': "entry \<noteq> 0" "\<not> entry < 0x08000000" "\<not> 0xC0000000 \<le> entry" using e by (auto simp: entry_ok_def)
  have f': "List.find (\<lambda>i. p_state (procs s ! i) = PROC_UNUSED) [Suc 0..<PROC_MAX] = Some i"
    using f by (simp add: free_slot_def slot_state_def)
  note d = t_def proc_create_def e' f' Let_def
  show "procs t = (procs s)[i := new_proc trapret nm entry i s]" "next_pid t = next_pid s + 1"
    "current_proc t = current_proc s" "length (child_parent t) = length (child_parent s)"
    "pmem t = store_words (kernel_stack s i + 4000) (context_words \<lparr>cx_edi = 0, cx_esi = 0, cx_ebx = 0, cx_ebp = 0, cx_eip = trapret\<rparr>)
       (store_words (kernel_stack s i + 4020) (trapframe_words (user_frame entry (user_stack s i + 4096))) (pmem s))"
    "snd (proc_create trapret nm entry s) = sint (next_pid s)" "tables t = tables s" "procs_addr t = procs_addr s" "regs t = regs s"
    using i by (simp_all add: d new_proc_def kernel_stack_def user_stack_def PROC_KSTACK_SZ_def PROC_USTACK_SZ_def
        sizeof_trapframe_def sizeof_context_def split: option.splits)
qed

lemma proc_create_states:
  assumes e: "entry_ok entry" and f: "free_slot s = Some i" and len: "length (procs s) = PROC_MAX"
  shows "slot_state (fst (proc_create trapret nm entry s)) j = (if j = i then PROC_READY else slot_state s j)"
    "p_pid (procs (fst (proc_create trapret nm entry s)) ! j) = (if j = i then next_pid s else p_pid (procs s ! j))"
  using free_slot_Some [OF f] len
  by (auto simp: slot_state_def proc_create_ok(1) [OF e f len] new_proc_def nth_list_update)

lemma pids_ok_create:
  assumes "pids_ok s" "slot_state s i = PROC_UNUSED" "0 < next_pid s" "next_pid t = next_pid s + 1" "next_pid s < next_pid s + 1"
    and "\<And>j. slot_state t j = (if j = i then PROC_READY else slot_state s j)"
    and "\<And>j. p_pid (procs t ! j) = (if j = i then next_pid s else p_pid (procs s ! j))"
  shows "pids_ok t"
proof -
  have old: "p_pid (procs s ! j) < next_pid s" if "j < PROC_MAX" "0 < j" "slot_state s j \<noteq> PROC_UNUSED" for j
    using assms(1) that by (auto simp: pids_ok_def)
  show ?thesis
    unfolding pids_ok_def
  proof (intro allI impI)
    fix j assume j: "j < PROC_MAX" "0 < j" "slot_state t j \<noteq> PROC_UNUSED"
    have less: "p_pid (procs t ! j) \<le> next_pid s" "0 < p_pid (procs t ! j)"
      using j old [of j] assms(1,3) by (auto simp: assms(6,7) pids_ok_def split: if_splits)
    moreover have "p_pid (procs t ! k) \<noteq> p_pid (procs t ! j)"
      if k: "k < PROC_MAX" "0 < k" "k \<noteq> j" "slot_state t k \<noteq> PROC_UNUSED" for k
      using j k old [of j] old [of k] assms(1) by (auto simp: assms(6,7) pids_ok_def split: if_splits)
    ultimately show "0 < p_pid (procs t ! j) \<and> p_pid (procs t ! j) < next_pid t
        \<and> (\<forall>k<PROC_MAX. 0 < k \<longrightarrow> k \<noteq> j \<longrightarrow> slot_state t k \<noteq> PROC_UNUSED \<longrightarrow> p_pid (procs t ! k) \<noteq> p_pid (procs t ! j))"
      using assms(4,5) by (auto intro: le_less_trans)
  qed
qed

lemma proc_create_inv:
  assumes inv: "sched_inv s" and wrap: "next_pid s < next_pid s + 1"
  shows "sched_inv (fst (proc_create trapret nm entry s))"
proof (cases "entry_ok entry \<and> (\<exists>i. free_slot s = Some i)")
  case True
  then obtain i where e: "entry_ok entry" and f: "free_slot s = Some i" by blast
  let ?t = "fst (proc_create trapret nm entry s)"
  obtain c where c: "sched_wf s c" "slot_state s c = PROC_RUNNING" "length (procs s) = PROC_MAX" "pids_ok s" "0 < next_pid s"
    by (rule sched_invE [OF inv])
  note i = free_slot_Some [OF f]
  note st = proc_create_states [OF e f c(3), of trapret nm] and ok = proc_create_ok [OF e f c(3), of trapret nm]
  have ci: "c \<noteq> i" using c(2) i by (intro notI) simp
  have "length (procs ?t) = PROC_MAX" using ok(1) c(3) by simp
  then have "sched_wf ?t c" using ci c(1) i by (auto simp: sched_wf_def st ok(2-4))
  moreover have "slot_state ?t c = PROC_RUNNING" using c(2) ci by (simp add: st)
  moreover have "pids_ok ?t" using pids_ok_create [OF c(4) _ c(5) ok(2) wrap st] i by simp
  moreover have "0 < next_pid ?t" using ok(2) c(5) wrap by simp
  ultimately show ?thesis by (auto simp: sched_inv_def)
next
  case False
  then have "proc_create trapret nm entry s = (s, -1)" by (intro proc_create_error) auto
  then show ?thesis using inv by simp
qed

section \<open>Reaping zombies\<close>

text \<open>The idle loop of \<^verbatim>\<open>kernel.c\<close> releases the slots of processes that exited.\<close>

definition reap_zombies :: "sched \<Rightarrow> sched" where
  "reap_zombies s = fold (\<lambda>i s. if p_state (procs s ! i) = PROC_ZOMBIE then upd_proc i (\<lambda>p. p\<lparr>p_state := PROC_UNUSED\<rparr>) s else s)
     [1..<PROC_MAX] s"

definition reap_one :: "nat \<Rightarrow> sched \<Rightarrow> sched" where
  "reap_one i s = (if p_state (procs s ! i) = PROC_ZOMBIE then upd_proc i (\<lambda>p. p\<lparr>p_state := PROC_UNUSED\<rparr>) s else s)"

lemma reap_one_states:
  "slot_state (reap_one i s) j = (if j = i \<and> i < length (procs s) \<and> slot_state s j = PROC_ZOMBIE then PROC_UNUSED else slot_state s j)"
  "p_pid (procs (reap_one i s) ! j) = p_pid (procs s ! j)" "next_pid (reap_one i s) = next_pid s"
  "length (procs (reap_one i s)) = length (procs s)" "current_proc (reap_one i s) = current_proc s"
  "child_parent (reap_one i s) = child_parent s"
  by (cases "i < length (procs s)"; cases "j = i"; auto simp: reap_one_def slot_state_def list_update_beyond)+

lemma reap_one_inv: "sched_inv s \<Longrightarrow> sched_inv (reap_one i s)"
proof (erule sched_invE)
  fix c assume c: "sched_wf s c" "slot_state s c = PROC_RUNNING" "pids_ok s" "0 < next_pid s"
  have "sched_wf (reap_one i s) c" using c(1,2) by (auto simp: sched_wf_def reap_one_states)
  moreover have "slot_state (reap_one i s) c = PROC_RUNNING" using c(2) by (simp add: reap_one_states)
  moreover have "pids_ok (reap_one i s)" using c(3) by (auto simp: pids_ok_def reap_one_states)
  ultimately show ?thesis using c(4) unfolding sched_inv_def reap_one_states(3) by blast
qed

lemma reap_zombies_fold: "reap_zombies s = fold reap_one [1..<PROC_MAX] s"
  unfolding reap_zombies_def by (rule fold_cong) (auto simp: reap_one_def)

lemma reap_fold_inv: "sched_inv s \<Longrightarrow> sched_inv (fold reap_one xs s)"
  by (induction xs arbitrary: s) (auto intro: reap_one_inv)

lemma reap_fold_states:
  "length (procs s) = PROC_MAX \<Longrightarrow> \<forall>i\<in>set xs. i < PROC_MAX \<Longrightarrow>
   slot_state (fold reap_one xs s) j = (if j \<in> set xs \<and> slot_state s j = PROC_ZOMBIE then PROC_UNUSED else slot_state s j)
   \<and> current_proc (fold reap_one xs s) = current_proc s"
  by (induction xs arbitrary: s) (auto simp: reap_one_states)

section \<open>Runs of the scheduler\<close>

datatype sched_op = Create string u32 | Yield | Exit int | Reap

primrec sched_apply :: "u32 \<Rightarrow> sched_op \<Rightarrow> sched \<Rightarrow> sched" where
  "sched_apply trapret (Create nm entry) s = fst (proc_create trapret nm entry s)"
| "sched_apply trapret Yield s = proc_yield s"
| "sched_apply trapret (Exit code) s = proc_exit code s"
| "sched_apply trapret Reap s = reap_zombies s"

definition sched_run :: "u32 \<Rightarrow> sched_op list \<Rightarrow> sched \<Rightarrow> sched" where
  "sched_run trapret ops s = fold (sched_apply trapret) ops s"

text \<open>Whether an operation hands on the processor: an exit of the kernel process does not.\<close>

fun gives_up :: "sched_op \<Rightarrow> sched \<Rightarrow> bool" where
  "gives_up Yield s = True"
| "gives_up (Exit code) s = (case current_proc s of None \<Rightarrow> False | Some c \<Rightarrow> p_pid (procs s ! c) \<noteq> 0)"
| "gives_up _ s = False"

primrec turns :: "u32 \<Rightarrow> sched_op list \<Rightarrow> sched \<Rightarrow> nat" where
  "turns trapret [] s = 0"
| "turns trapret (x # xs) s = (if gives_up x s then 1 else 0) + turns trapret xs (sched_apply trapret x s)"

lemma next_pid_step:
  "sched_inv s \<Longrightarrow> next_pid (sched_apply trapret x s) = next_pid s \<or> next_pid (sched_apply trapret x s) = next_pid s + 1"
proof (erule sched_invE)
  fix c assume c: "sched_wf s c" "current_proc s = Some c" "length (procs s) = PROC_MAX" "pids_ok s"
  have sch: "next_pid (schedule u) = next_pid u" if "sched_wf u c" for u
    using that schedule_idle [of u c] schedule_states(4) [of u c] by (cases "rr_next u c") auto
  have ex: "next_pid (proc_exit code s) = next_pid s" for code
    using c sch exit_wf(1) [OF c(1) _ c(4)] by (cases "p_pid (procs s ! c) = 0") (simp_all add: proc_exit_def)
  have reap: "next_pid (fold reap_one xs s) = next_pid s" for xs
    by (induction xs arbitrary: s) (auto simp: reap_one_states)
  have create: "next_pid (fst (proc_create trapret nm entry s)) = next_pid s \<or> next_pid (fst (proc_create trapret nm entry s)) = next_pid s + 1"
    for nm entry
    using proc_create_error [of entry s trapret nm] proc_create_ok(2) [of entry s _ trapret nm] c(3)
    by (cases "entry_ok entry"; cases "free_slot s") auto
  show ?thesis using sch [OF c(1)] ex reap create by (cases x) (auto simp: proc_yield_def reap_zombies_fold)
qed

text \<open>Before the counter of process ids is used up, every run keeps the invariant.\<close>

lemma sched_apply_inv:
  "sched_inv s \<Longrightarrow> next_pid s < next_pid s + 1 \<Longrightarrow> sched_inv (sched_apply trapret x s)"
  by (cases x) (simp_all add: proc_create_inv proc_yield_inv proc_exit_inv reap_zombies_fold reap_fold_inv)

lemma next_pid_room: "unat (next_pid s) + n < 2 ^ 32 \<Longrightarrow> 0 < n \<Longrightarrow> next_pid s < next_pid s + 1"
  using unat_plus_no_wrap [of "next_pid s" 1] by (simp add: word_less_nat_alt)

lemma sched_run_keeps_inv:
  "sched_inv s \<Longrightarrow> unat (next_pid s) + length ops < 2 ^ 32 \<Longrightarrow> sched_inv (sched_run trapret ops s)"
proof (induction ops arbitrary: s)
  case (Cons x ops)
  have room: "next_pid s < next_pid s + 1" using next_pid_room [of s "length (x # ops)"] Cons.prems by simp
  have "unat (next_pid (sched_apply trapret x s)) \<le> unat (next_pid s) + 1"
    using next_pid_step [OF Cons.prems(1), of trapret x] Cons.prems(2) unat_plus_no_wrap [of "next_pid s" 1] by auto
  then show ?case
    using Cons.IH [OF sched_apply_inv [OF Cons.prems(1) room]] Cons.prems(2) by (simp add: sched_run_def)
qed (simp add: sched_run_def)

section \<open>Bounded waiting\<close>

lemma schedule_progress:
  assumes wf: "sched_wf s c" and k: "k < PROC_MAX" "slot_state s k = PROC_READY" "k \<noteq> c"
  obtains n where "current_proc (schedule s) = Some n" "rr_dist n k < rr_dist c k" "n < PROC_MAX"
    "n \<noteq> k \<longrightarrow> slot_state (schedule s) k = PROC_READY"
proof -
  have c: "c < PROC_MAX" using wf by (simp add: sched_wf_def)
  obtain n where n: "rr_next s c = Some n" using rr_next_None [OF _ c k(1)] k(2) by (cases "rr_next s c") auto
  have "n < PROC_MAX" "rr_dist n k < rr_dist c k"
    using rr_next_Some [OF n c] k by auto
  then show ?thesis using that [of n] schedule_states(1,2) [OF wf n] k by auto
qed

lemma sched_apply_progress:
  assumes inv: "sched_inv s" and k: "k < PROC_MAX" "slot_state s k = PROC_READY" and c: "current_proc s = Some c"
  obtains n where "current_proc (sched_apply trapret x s) = Some n"
    "n \<noteq> k \<longrightarrow> slot_state (sched_apply trapret x s) k = PROC_READY" "n < PROC_MAX"
    "if gives_up x s then rr_dist n k < rr_dist c k else n = c"
proof -
  have wf: "sched_wf s c" "slot_state s c = PROC_RUNNING" "c < PROC_MAX" "length (procs s) = PROC_MAX" "pids_ok s"
    using inv c by (auto simp: sched_inv_def sched_wf_def)
  have kc: "k \<noteq> c" using k(2) wf(2) by auto
  show ?thesis
  proof (cases x)
    case (Create nm entry)
    have "current_proc (fst (proc_create trapret nm entry s)) = Some c
        \<and> slot_state (fst (proc_create trapret nm entry s)) k = PROC_READY"
      using proc_create_error [of entry s trapret nm] proc_create_ok(3) [of entry s _ trapret nm]
        proc_create_states(1) [of entry s _ trapret nm k] wf(4) c k(2)
      by (cases "entry_ok entry"; cases "free_slot s") auto
    then show ?thesis using that [of c] Create wf(3) by simp
  next
    case Yield
    show ?thesis
      by (rule schedule_progress [OF wf(1) k kc]) (use Yield that in \<open>auto simp: proc_yield_def\<close>)
  next
    case Reap
    have "current_proc (reap_zombies s) = Some c \<and> slot_state (reap_zombies s) k = PROC_READY"
      using reap_fold_states [of s "[1..<PROC_MAX]" k] wf(4) c k(2) by (simp add: reap_zombies_fold)
    then show ?thesis using that [of c] Reap wf(3) by simp
  next
    case (Exit code)
    show ?thesis
    proof (cases "p_pid (procs s ! c) = 0")
      case True
      then show ?thesis using that [of c] Exit c wf(3) k(2) by (simp add: proc_exit_def)
    next
      case False
      note u = exit_wf [OF wf(1) False wf(5), of code]
      show ?thesis
        by (rule schedule_progress [OF u(1) k(1) _ kc])
          (use Exit that False c u(3) k(2) kc in \<open>auto simp: proc_exit_def\<close>)
    qed
  qed
qed

lemma bounded_wait:
  "sched_inv s \<Longrightarrow> unat (next_pid s) + length ops < 2 ^ 32 \<Longrightarrow> k < PROC_MAX \<Longrightarrow> slot_state s k = PROC_READY \<Longrightarrow>
   current_proc s = Some c \<Longrightarrow> rr_dist c k \<le> turns trapret ops s \<Longrightarrow>
   \<exists>n\<le>length ops. current_proc (sched_run trapret (take n ops) s) = Some k"
proof (induction ops arbitrary: s c)
  case Nil
  then have "c < PROC_MAX" "k \<noteq> c" by (auto simp: sched_inv_def sched_wf_def)
  then show ?case using rr_dist_pos [of c k] Nil by simp
next
  case (Cons x ops)
  let ?t = "sched_apply trapret x s"
  have room: "next_pid s < next_pid s + 1" using next_pid_room [of s "length (x # ops)"] Cons.prems(2) by simp
  note inv = sched_apply_inv [OF Cons.prems(1) room, of trapret x]
  have np: "unat (next_pid ?t) + length ops < 2 ^ 32"
    using next_pid_step [OF Cons.prems(1), of trapret x] Cons.prems(2) unat_plus_no_wrap [of "next_pid s" 1] by auto
  obtain n where n: "current_proc ?t = Some n" "n \<noteq> k \<longrightarrow> slot_state ?t k = PROC_READY" "n < PROC_MAX"
    "if gives_up x s then rr_dist n k < rr_dist c k else n = c"
    by (rule sched_apply_progress [OF Cons.prems(1,3-5), where trapret = trapret and x = x])
  show ?case
  proof (cases "n = k")
    case True
    then show ?thesis using n(1) by (intro exI [of _ 1]) (simp add: sched_run_def)
  next
    case False
    have "rr_dist n k \<le> turns trapret ops ?t" using n(4) Cons.prems(6) by (auto split: if_splits)
    from Cons.IH [OF inv np Cons.prems(3) n(2) [rule_format, OF False] n(1) this] obtain m
      where "m \<le> length ops" "current_proc (sched_run trapret (take m ops) ?t) = Some k" by blast
    then show ?thesis by (intro exI [of _ "Suc m"]) (simp add: sched_run_def)
  qed
qed

end
