(* ===== verification/Sched_Props.thy ===== *)
theory Sched_Props
  imports Sched
begin

text \<open>
  The properties of processes and the scheduler, with a booted process table for the witnesses.
\<close>

section \<open>The table after boot\<close>

definition blank_proc :: process where
  "blank_proc = \<lparr>p_pid = 0, p_name = '''', p_state = PROC_UNUSED, p_ctx = 0, p_tf = 0, p_exit_code = 0, p_pdir = 0\<rparr>"

definition blank_sched :: sched where
  "blank_sched = \<lparr>procs = replicate PROC_MAX blank_proc, current_proc = None, next_pid = 1,
     child_parent = replicate PROC_MAX 0, pmem = (\<lambda>_. 0), procs_addr = 0x120000, tables = blank_tables,
     regs = \<lparr>r_edi = 1, r_esi = 2, r_ebx = 3, r_ebp = 4, r_esp = 0x90000, r_eip = 0x100000\<rparr>\<rparr>"

lemma proc_init_inv:
  assumes "length (procs s) = PROC_MAX" "length (child_parent s) = PROC_MAX" "0 < next_pid s"
  shows "sched_inv (proc_init s)"
proof -
  let ?t = "proc_init s"
  have len: "0 < length (procs s)" using assms by (simp add: PROC_MAX_def)
  have st: "slot_state ?t i = (if i = 0 then PROC_RUNNING else PROC_UNUSED)" if "i < PROC_MAX" for i
    using that len assms by (cases i) (auto simp: proc_init_def slot_state_def Let_def)
  have "p_pid (procs ?t ! 0) = 0" using len by (simp add: proc_init_def Let_def)
  then have "sched_wf ?t 0" "slot_state ?t 0 = PROC_RUNNING"
    using st assms by (auto simp: sched_wf_def PROC_MAX_def) (auto simp: proc_init_def Let_def)
  moreover have "pids_ok ?t" using st by (auto simp: pids_ok_def)
  moreover have "next_pid ?t = next_pid s" by (simp add: proc_init_def Let_def)
  ultimately show ?thesis using assms(3) by (auto simp: sched_inv_def)
qed

lemma blank_sched_inv: "sched_inv (proc_init blank_sched)" "next_pid (proc_init blank_sched) = 1"
proof -
  show "sched_inv (proc_init blank_sched)" by (rule proc_init_inv) (simp_all add: blank_sched_def)
  show "next_pid (proc_init blank_sched) = 1" by (simp add: proc_init_def blank_sched_def Let_def)
qed

section \<open>Properties\<close>

lemma sched_run_inv_parts:
  assumes "length (procs s) = PROC_MAX" "length (child_parent s) = PROC_MAX" "0 < next_pid s"
    and "unat (next_pid s) + length ops < 2 ^ 32"
  shows "\<exists>c. current_proc (sched_run trapret ops (proc_init s)) = Some c
      \<and> (\<forall>i<PROC_MAX. slot_state (sched_run trapret ops (proc_init s)) i = PROC_RUNNING \<longleftrightarrow> i = c)"
    "slot_state (sched_run trapret ops (proc_init s)) 0 \<in> {PROC_READY, PROC_RUNNING}"
    "pids_ok (sched_run trapret ops (proc_init s))"
proof -
  have "next_pid (proc_init s) = next_pid s" by (simp add: proc_init_def Let_def)
  then have inv: "sched_inv (sched_run trapret ops (proc_init s))"
    using sched_run_keeps_inv [OF proc_init_inv [OF assms(1-3)]] assms(4) by simp
  then show "\<exists>c. current_proc (sched_run trapret ops (proc_init s)) = Some c
      \<and> (\<forall>i<PROC_MAX. slot_state (sched_run trapret ops (proc_init s)) i = PROC_RUNNING \<longleftrightarrow> i = c)"
    "slot_state (sched_run trapret ops (proc_init s)) 0 \<in> {PROC_READY, PROC_RUNNING}"
    "pids_ok (sched_run trapret ops (proc_init s))"
    unfolding sched_inv_def sched_wf_def by auto
qed

text \<open>
  C14: starting from \<open>proc_init\<close>, any sequence of \<open>proc_create\<close>, \<open>proc_yield\<close>, \<open>proc_exit\<close> and the idle
  loop's reaping keeps the table consistent, as long as the 32-bit process id counter is not used up:
  exactly one process is running and it is the current one, the kernel process is always runnable, and
  live processes have distinct positive ids below the counter.
\<close>

theorem sched_run_inv:
  assumes "length (procs s) = PROC_MAX" "length (child_parent s) = PROC_MAX" "0 < next_pid s"
    and "unat (next_pid s) + length ops < 2 ^ 32" "t = sched_run trapret ops (proc_init s)"
  shows "(\<exists>c. current_proc t = Some c \<and> (\<forall>i<PROC_MAX. slot_state t i = PROC_RUNNING \<longleftrightarrow> i = c))
    \<and> slot_state t 0 \<in> {PROC_READY, PROC_RUNNING} \<and> pids_ok t"
  unfolding assms(5) by (intro conjI sched_run_inv_parts [OF assms(1-4)])

theorem sched_run_inv_witness:
  "pids_ok (sched_run 0x100200 [Create ''init'' 0x08000000, Yield, Exit 0, Reap] (proc_init blank_sched))"
  using sched_run_inv [of blank_sched "[Create ''init'' 0x08000000, Yield, Exit 0, Reap]", OF _ _ _ _ refl, of "0x100200"]
  by (simp add: blank_sched_def)

text \<open>
  C3: bounded waiting. A process that is ready runs after at most as many turns as its slot lies behind
  the current one, never more than fifteen: whatever the other processes create, exit or yield, a run
  with that many turns reaches a state where it is the current process, as long as the 32-bit process id counter is not used up.
\<close>

theorem round_robin_bounded_wait:
  assumes "sched_inv s" "k < PROC_MAX" "slot_state s k = PROC_READY" "unat (next_pid s) + length ops < 2 ^ 32"
    and "15 \<le> turns trapret ops s"
  shows "\<exists>n\<le>length ops. current_proc (sched_run trapret (take n ops) s) = Some k"
proof -
  obtain c where c: "current_proc s = Some c" "c < PROC_MAX" "slot_state s c = PROC_RUNNING"
    by (rule sched_invE [OF assms(1)])
  then have "k \<noteq> c" using assms(3) by auto
  then have "rr_dist c k < PROC_MAX" using rr_dist_pos [OF c(2) assms(2)] by simp
  then have "rr_dist c k \<le> turns trapret ops s" using assms(5) by (simp add: PROC_MAX_def)
  then show ?thesis by (rule bounded_wait [OF assms(1,4,2,3) c(1)])
qed

lemma turns_yields: "turns trapret (replicate n Yield) s = n"
  by (induction n arbitrary: s) auto

lemma proc_init_free: "length (procs s) = PROC_MAX \<Longrightarrow> free_slot (proc_init s) = Some 1"
  by (simp add: free_slot_def upt_conv_Cons proc_init_def slot_state_def Let_def PROC_MAX_def)

lemma blank_sched_layout: "length (procs (proc_init blank_sched)) = PROC_MAX"
  "unat (procs_addr (proc_init blank_sched)) + sizeof_process * PROC_MAX < 2 ^ 32"
  "free_slot (proc_init blank_sched) = Some 1"
  by (simp add: proc_init_def blank_sched_def Let_def)
    (simp add: proc_init_def blank_sched_def Let_def sizeof_process_def PROC_MAX_def,
      rule proc_init_free, simp add: blank_sched_def)

definition two_procs :: sched where
  "two_procs = fst (proc_create 0x100200 ''init'' 0x08000000 (proc_init blank_sched))"

lemma two_procs_facts: "sched_inv two_procs" "slot_state two_procs 1 = PROC_READY" "next_pid two_procs = 2"
proof -
  have len: "length (procs (proc_init blank_sched)) = PROC_MAX" by (simp add: proc_init_def blank_sched_def Let_def)
  have f: "free_slot (proc_init blank_sched) = Some 1" by (rule proc_init_free) (simp add: blank_sched_def)
  have e: "entry_ok 0x08000000" by (simp add: entry_ok_def)
  show "sched_inv two_procs"
    unfolding two_procs_def by (rule proc_create_inv) (simp_all add: blank_sched_inv)
  show "slot_state two_procs 1 = PROC_READY" "next_pid two_procs = 2"
    unfolding two_procs_def using proc_create_states(1) [OF e f len] proc_create_ok(2) [OF e f len]
    by (simp_all add: blank_sched_inv)
qed

theorem round_robin_bounded_wait_witness:
  "\<exists>n\<le>15. current_proc (sched_run 0x100200 (take n (replicate 15 Yield)) two_procs) = Some 1"
  using round_robin_bounded_wait [of two_procs 1 "replicate 15 Yield" "0x100200"] two_procs_facts
  by (simp add: turns_yields PROC_MAX_def del: replicate.simps take_replicate)

lemma proc_create_frames_parts:
  fixes trapret entry :: u32 and nm :: string
  assumes "length (procs s) = PROC_MAX" "unat (procs_addr s) + sizeof_process * PROC_MAX < 2 ^ 32"
  defines "t \<equiv> fst (proc_create trapret nm entry s)"
  shows "\<not> (0x08000000 \<le> entry \<and> entry < 0xC0000000) \<Longrightarrow> proc_create trapret nm entry s = (s, -1)"
    "\<forall>i\<in>{1..<PROC_MAX}. slot_state s i \<noteq> PROC_UNUSED \<Longrightarrow> proc_create trapret nm entry s = (s, -1)"
    "0x08000000 \<le> entry \<Longrightarrow> entry < 0xC0000000 \<Longrightarrow> free_slot s = Some i \<Longrightarrow>
       snd (proc_create trapret nm entry s) = sint (next_pid s) \<and> slot_state t i = PROC_READY
       \<and> p_ctx (procs t ! i) + 20 = p_tf (procs t ! i)
       \<and> p_tf (procs t ! i) + 76 = kernel_stack s i + 4096
       \<and> cx_eip (load_context (pmem t) (p_ctx (procs t ! i))) = trapret
       \<and> load_trapframe (pmem t) (p_tf (procs t ! i)) = user_frame entry (user_stack s i + 4096)
       \<and> (\<forall>x. unat x < unat (kernel_stack s i) + 4000 \<or> unat (kernel_stack s i) + 4096 \<le> unat x \<longrightarrow> pmem t x = pmem s x)"
proof -
  show "\<not> (0x08000000 \<le> entry \<and> entry < 0xC0000000) \<Longrightarrow> proc_create trapret nm entry s = (s, -1)"
    by (rule proc_create_error) (simp add: entry_ok_def)
  show "\<forall>i\<in>{1..<PROC_MAX}. slot_state s i \<noteq> PROC_UNUSED \<Longrightarrow> proc_create trapret nm entry s = (s, -1)"
    by (rule proc_create_error) (simp add: free_slot_def find_None_iff)
  assume e: "0x08000000 \<le> entry" "entry < 0xC0000000" and f: "free_slot s = Some i"
  have e': "entry_ok entry" using e by (simp add: entry_ok_def)
  let ?k = "kernel_stack s i"
  let ?tf = "trapframe_words (user_frame entry (user_stack s i + 4096))"
  let ?cx = "\<lparr>cx_edi = 0, cx_esi = 0, cx_ebx = 0, cx_ebp = 0, cx_eip = trapret\<rparr>"
  note ok = proc_create_ok [OF e' f assms(1), of trapret nm, folded t_def]
  have i: "i < PROC_MAX" using free_slot_Some [OF f] by simp
  have off: "sizeof_process * i + 32 + 4096 \<le> sizeof_process * PROC_MAX"
    using i by (simp add: sizeof_process_def PROC_MAX_def)
  have "unat (word_of_nat (sizeof_process * i + 32) :: u32) = sizeof_process * i + 32"
    by (rule unat_of_nat_u32) (use off in \<open>simp add: sizeof_process_def PROC_MAX_def\<close>)
  then have k: "unat ?k = unat (procs_addr s) + (sizeof_process * i + 32)"
    unfolding kernel_stack_def using assms(2) off by (subst unat_plus_no_wrap) auto
  then have kb: "unat ?k + 4096 < 2 ^ 32" using assms(2) off by simp
  have k0: "unat (?k + 4000) = unat ?k + 4000" "unat (?k + 4020) = unat ?k + 4020"
    using kb by (simp_all add: unat_plus_no_wrap)
  have proc: "procs t ! i = new_proc trapret nm entry i s" using ok(1) i assms(1) by simp
  have m: "pmem t = store_words (?k + 4000) (context_words ?cx) (store_words (?k + 4020) ?tf (pmem s))" by (rule ok(5))
  have len: "length (context_words ?cx) = 5" "length ?tf = 19" by (simp_all add: context_words_def trapframe_words_def)
  have "load_trapframe (pmem t) (?k + 4020) = load_trapframe (store_words (?k + 4020) ?tf (pmem s)) (?k + 4020)"
    unfolding m by (rule load_trapframe_cong) (use k0 kb len in \<open>auto simp: store_words_outside\<close>)
  then have tf: "load_trapframe (pmem t) (?k + 4020) = user_frame entry (user_stack s i + 4096)"
    using k0 kb by (simp add: load_store_trapframe)
  have cx: "load_context (pmem t) (?k + 4000) = ?cx" unfolding m using k0 kb by (simp add: load_store_context)
  have frame: "pmem t x = pmem s x" if "unat x < unat ?k + 4000 \<or> unat ?k + 4096 \<le> unat x" for x
    unfolding m using that k0 kb len by (auto simp: store_words_outside)
  have st: "slot_state t i = PROC_READY" using proc by (simp add: slot_state_def new_proc_def)
  show "snd (proc_create trapret nm entry s) = sint (next_pid s) \<and> slot_state t i = PROC_READY
       \<and> p_ctx (procs t ! i) + 20 = p_tf (procs t ! i)
       \<and> p_tf (procs t ! i) + 76 = kernel_stack s i + 4096
       \<and> cx_eip (load_context (pmem t) (p_ctx (procs t ! i))) = trapret
       \<and> load_trapframe (pmem t) (p_tf (procs t ! i)) = user_frame entry (user_stack s i + 4096)
       \<and> (\<forall>x. unat x < unat (kernel_stack s i) + 4000 \<or> unat (kernel_stack s i) + 4096 \<le> unat x \<longrightarrow> pmem t x = pmem s x)"
    using ok(6) st proc tf cx frame by (simp add: new_proc_def add.assoc)
qed

text \<open>
  \<open>proc_create\<close> refuses an entry point outside \<open>0x08000000\<close>..\<open>0xBFFFFFFF\<close> and a full table, changing
  nothing; otherwise it takes the first unused slot behind the kernel's, returns the next process id, and
  builds on top of the slot's kernel stack the context that \<open>swtch\<close> pops and directly above it the trap
  frame that \<open>trapret\<close> pops: execution continues at the entry point, in the user segments with privilege
  level 3, with interrupts enabled, on the top of the slot's user stack. No byte outside these 96 is written.
\<close>

lemma proc_create_frames:
  assumes "length (procs s) = PROC_MAX" "unat (procs_addr s) + sizeof_process * PROC_MAX < 2 ^ 32"
  shows "(\<not> (0x08000000 \<le> entry \<and> entry < 0xC0000000) \<longrightarrow> proc_create trapret nm entry s = (s, -1))
    \<and> ((\<forall>i\<in>{1..<PROC_MAX}. slot_state s i \<noteq> PROC_UNUSED) \<longrightarrow> proc_create trapret nm entry s = (s, -1))
    \<and> (\<forall>i t r. 0x08000000 \<le> entry \<longrightarrow> entry < 0xC0000000 \<longrightarrow> free_slot s = Some i \<longrightarrow> proc_create trapret nm entry s = (t, r) \<longrightarrow>
       r = sint (next_pid s) \<and> slot_state t i = PROC_READY
       \<and> p_ctx (procs t ! i) + 20 = p_tf (procs t ! i)
       \<and> p_tf (procs t ! i) + 76 = kernel_stack s i + 4096
       \<and> cx_eip (load_context (pmem t) (p_ctx (procs t ! i))) = trapret
       \<and> load_trapframe (pmem t) (p_tf (procs t ! i)) = user_frame entry (user_stack s i + 4096)
       \<and> (\<forall>x. unat x < unat (kernel_stack s i) + 4000 \<or> unat (kernel_stack s i) + 4096 \<le> unat x \<longrightarrow> pmem t x = pmem s x))"
proof (intro conjI [OF impI conjI [OF impI]] allI impI)
  note parts = proc_create_frames_parts [OF assms, where entry = entry and trapret = trapret and nm = nm]
  show "proc_create trapret nm entry s = (s, -1)" if "\<not> (0x08000000 \<le> entry \<and> entry < 0xC0000000)"
    using that by (rule parts(1))
  show "proc_create trapret nm entry s = (s, -1)" if "\<forall>i\<in>{1..<PROC_MAX}. slot_state s i \<noteq> PROC_UNUSED"
    using that by (rule parts(2))
  fix i t r
  assume h: "0x08000000 \<le> entry" "entry < 0xC0000000" "free_slot s = Some i" "proc_create trapret nm entry s = (t, r)"
  show "r = sint (next_pid s) \<and> slot_state t i = PROC_READY \<and> p_ctx (procs t ! i) + 20 = p_tf (procs t ! i)
       \<and> p_tf (procs t ! i) + 76 = kernel_stack s i + 4096
       \<and> cx_eip (load_context (pmem t) (p_ctx (procs t ! i))) = trapret
       \<and> load_trapframe (pmem t) (p_tf (procs t ! i)) = user_frame entry (user_stack s i + 4096)
       \<and> (\<forall>x. unat x < unat (kernel_stack s i) + 4000 \<or> unat (kernel_stack s i) + 4096 \<le> unat x \<longrightarrow> pmem t x = pmem s x)"
    using parts(3) [OF h(1-3)] unfolding h(4) fst_conv snd_conv .
qed

text \<open>
  C38: a context switch is a round trip. When the current process \<open>a\<close> is switched away from, and later,
  after any steps that leave the 20 bytes at its saved stack pointer alone, \<open>swtch\<close> is called on a stack that does not
  overlap them and given the context saved for \<open>a\<close>, the callee-saved registers and the stack pointer are what they were and
  execution continues behind the first call.
\<close>

theorem swtch_roundtrip:
  assumes "a < length (procs s)" "20 \<le> unat (r_esp (regs s))" "unat (r_esp (regs s)) + 4 < 2 ^ 32"
    and "c = p_ctx (procs (swtch a x s) ! a)"
    and "same_on (pmem (swtch a x s)) (pmem u) (unat c) (unat c + 20)"
    and "unat (r_esp (regs u)) < unat c \<or> unat c + 20 + 16 \<le> unat (r_esp (regs u))"
    and "16 \<le> unat (r_esp (regs u))"
  shows "regs (swtch b c u) = (regs s)\<lparr>r_esp := r_esp (regs s) + 4, r_eip := load32 (pmem s) (r_esp (regs s))\<rparr>"
proof -
  let ?e = "r_esp (regs s)" and ?f = "r_esp (regs u)"
  let ?ws = "[r_edi (regs s), r_esi (regs s), r_ebx (regs s), r_ebp (regs s)]"
  have c: "c = ?e - 16" using assms(1,4) by (simp add: swtch_def Let_def)
  have e16: "unat (?e - 16) = unat ?e - 16" using assms(2) by (simp add: unat_sub word_le_nat_alt)
  have f16: "unat (?f - 16) = unat ?f - 16" using assms(7) by (simp add: unat_sub word_le_nat_alt)
  have cu: "unat c + 20 < 2 ^ 32" using c e16 assms(2,3) by simp
  define m where "m = store_words (?e - 16) ?ws (pmem s)"
  have m: "pmem (swtch a x s) = m" by (simp add: swtch_def Let_def m_def)
  define v where "v = store_words (?f - 16) [r_edi (regs u), r_esi (regs u), r_ebx (regs u), r_ebp (regs u)] (pmem u)"
  have vu: "v y = pmem u y" if "unat c \<le> unat y" "unat y < unat c + 20" for y
    unfolding v_def by (rule store_words_outside) (use that assms(6,7) f16 u32_bound [of ?f] in auto)
  then have same: "same_on m v (unat c) (unat c + 20)" using assms(5) m by (auto simp: same_on_def)
  have ld: "load32 v (c + word_of_nat (4 * i)) = load32 m (c + word_of_nat (4 * i))" if "i < 5" for i
  proof (rule load32_same_on)
    have "unat (word_of_nat (4 * i) :: u32) = 4 * i" using that by (intro unat_of_nat_u32) simp
    then have u: "unat (c + word_of_nat (4 * i)) = unat c + 4 * i"
      using unat_plus_no_wrap [of c "word_of_nat (4 * i)"] that cu by (simp del: of_nat_mult)
    show "same_on m v (unat (c + word_of_nat (4 * i))) (unat (c + word_of_nat (4 * i)) + 4)"
      by (rule same_on_mono [OF same]) (use u that in auto)
    show "unat (c + word_of_nat (4 * i)) + 4 \<le> 2 ^ 32" using u that cu by simp
  qed
  have st: "load32 m (c + word_of_nat (4 * i)) = ?ws ! i" if "i < 4" for i
    unfolding m_def c using load_store_words [of "?e - 16" ?ws i "pmem s"] that e16 assms(2) u32_bound [of ?e] by simp
  have "m y = pmem s y" if "unat ?e \<le> unat y" for y
    unfolding m_def by (rule store_words_outside) (use that e16 assms(2,3) in auto)
  then have "load32 m ?e = load32 (pmem s) ?e" using assms(3) by (intro load32_same_on) auto
  moreover have "c + 16 = ?e" "c + 20 = ?e + 4" using c by simp_all
  ultimately have ctx: "load_context v c = \<lparr>cx_edi = r_edi (regs s), cx_esi = r_esi (regs s), cx_ebx = r_ebx (regs s),
      cx_ebp = r_ebp (regs s), cx_eip = load32 (pmem s) ?e\<rparr>"
    using ld [of 0] ld [of 1] ld [of 2] ld [of 3] ld [of 4] st [of 0] st [of 1] st [of 2] st [of 3]
    by (simp add: load_context_def)
  have "regs (swtch b c u) = \<lparr>r_edi = cx_edi (load_context v c), r_esi = cx_esi (load_context v c),
      r_ebx = cx_ebx (load_context v c), r_ebp = cx_ebp (load_context v c), r_esp = c + 20, r_eip = cx_eip (load_context v c)\<rparr>"
    by (simp add: swtch_def Let_def v_def)
  then show ?thesis using ctx \<open>c + 20 = ?e + 4\<close> by simp
qed

theorem swtch_roundtrip_witness:
  "regs (swtch 1 0x8FFF0 (swtch 0 0x120FF0 two_procs)) = (regs two_procs)\<lparr>r_esp := 0x90004, r_eip := 0\<rparr>"
proof -
  have e: "entry_ok 0x08000000" by (simp add: entry_ok_def)
  note ok = proc_create_ok [OF e blank_sched_layout(3,1), of "0x100200" "''init''", folded two_procs_def]
  have r: "regs two_procs = \<lparr>r_edi = 1, r_esi = 2, r_ebx = 3, r_ebp = 4, r_esp = 0x90000, r_eip = 0x100000\<rparr>" "length (procs two_procs) = PROC_MAX"
    using ok(1,9) blank_sched_layout(1) by (simp_all add: proc_init_def blank_sched_def Let_def)
  have c: "0x8FFF0 = p_ctx (procs (swtch 0 0x120FF0 two_procs) ! 0)" "r_esp (regs (swtch 0 0x120FF0 two_procs)) = 0x121004"
    using r by (simp_all add: swtch_def PROC_MAX_def Let_def)
  have k: "kernel_stack (proc_init blank_sched) 1 = 0x122050" by (simp add: kernel_stack_def proc_init_def blank_sched_def sizeof_process_def Let_def)
  have m: "pmem (proc_init blank_sched) = (\<lambda>_. 0)" by (simp add: proc_init_def blank_sched_def Let_def)
  have z: "pmem two_procs x = 0" if "unat x < 0x100000" for x
    unfolding ok(5) k m using that
    by (simp add: store_words_outside context_words_def trapframe_words_def del: store_words.simps)
  have "load32 (pmem two_procs) 0x90000 = 0" by (simp add: load32_def z)
  then show ?thesis
    using swtch_roundtrip [OF _ _ _ c(1) same_on_refl, of 1] r c(2) by (simp add: PROC_MAX_def)
qed

end
