(* ===== verification/Timer.thy ===== *)
theory Timer
  imports Sched_Props
begin

unbundle bit_operations_syntax

text \<open>
  The timer of \<^verbatim>\<open>src/src/kernel/timer.c\<close>: the tick counter, the programming of the interval timer, and
  preemption of user code every tenth tick. Writes to I/O ports (\<open>outb\<close> of \<^verbatim>\<open>io.h\<close>) are appended to a
  trace of port and byte.
\<close>

type_synonym port_trace = "(u16 \<times> u8) list"

definition outb :: "u16 \<Rightarrow> u8 \<Rightarrow> port_trace \<Rightarrow> port_trace" where
  "outb port val tr = tr @ [(port, val)]"

definition PIT_FREQ :: u32 where "PIT_FREQ = 100"

record timer =
  ticks :: u32
  frequency :: u32
  ports :: port_trace

text \<open>A frequency of 0 makes the division fault; \<open>None\<close> stands for the fault.\<close>

definition timer_init :: "u32 \<Rightarrow> timer \<Rightarrow> timer option" where
  "timer_init freq t =
     (let t = t\<lparr>frequency := freq\<rparr> in
      if freq = 0 then None
      else let divisor = 1193182 div freq;
               t = ports_update (outb 0x43 0x36) t;
               t = ports_update (outb 0x40 (ucast (divisor AND 0xFF))) t;
               t = ports_update (outb 0x40 (ucast (drop_bit 8 divisor AND 0xFF))) t
           in Some t)"

definition timer_tick :: "trapframe \<Rightarrow> timer \<times> sched \<Rightarrow> timer \<times> sched" where
  "timer_tick tf s = (case s of (t, sch) \<Rightarrow>
     let t = ticks_update (\<lambda>n. n + 1) t;
         t = ports_update (outb 0x20 0x20) t
     in if (tf_cs tf AND 3) = 3 \<and> ticks t mod 10 = 0 then (t, schedule sch) else (t, sch))"

definition timer_ticks :: "timer \<Rightarrow> u32" where
  "timer_ticks t = ticks t"

definition timer_seconds :: "timer \<Rightarrow> u32" where
  "timer_seconds t = ticks t div frequency t"

definition timer_uptime_hours :: "timer \<Rightarrow> u32" where
  "timer_uptime_hours t = timer_seconds t div 3600"

definition timer_uptime_minutes :: "timer \<Rightarrow> u32" where
  "timer_uptime_minutes t = (timer_seconds t mod 3600) div 60"

definition timer_uptime_seconds :: "timer \<Rightarrow> u32" where
  "timer_uptime_seconds t = timer_seconds t mod 60"

section \<open>Properties\<close>

lemma unat_clock:
  "unat (timer_uptime_hours t) = unat (timer_seconds t) div 3600"
  "unat (timer_uptime_minutes t) = unat (timer_seconds t) mod 3600 div 60"
  "unat (timer_uptime_seconds t) = unat (timer_seconds t) mod 60"
  by (simp_all add: timer_uptime_hours_def timer_uptime_minutes_def timer_uptime_seconds_def unat_div unat_mod)

lemma clock_split: "n div 3600 * 3600 + n mod 3600 div 60 * 60 + n mod 60 = n" "n mod 3600 div 60 < 60" for n :: nat
proof -
  have "n mod 3600 mod 60 = n mod 60" by (simp add: mod_mod_cancel)
  moreover have "n mod 3600 div 60 * 60 + n mod 3600 mod 60 = n mod 3600" by (rule div_mult_mod_eq)
  moreover have "n div 3600 * 3600 + n mod 3600 = n" by (rule div_mult_mod_eq)
  ultimately show "n div 3600 * 3600 + n mod 3600 div 60 * 60 + n mod 60 = n" by linarith
  have "n mod 3600 < 3600" by simp
  then show "n mod 3600 div 60 < 60" by linarith
qed

text \<open>
  The uptime display is exact: hours, minutes and seconds recombine to the seconds counted, with minutes and seconds
  below 60.
\<close>

lemma uptime_clock:
  "unat (timer_uptime_hours t) * 3600 + unat (timer_uptime_minutes t) * 60 + unat (timer_uptime_seconds t) = unat (timer_seconds t)
   \<and> unat (timer_uptime_minutes t) < 60 \<and> unat (timer_uptime_seconds t) < 60"
  using clock_split [of "unat (timer_seconds t)"] by (simp add: unat_clock)

primrec user_ticks :: "nat \<Rightarrow> trapframe \<Rightarrow> timer \<times> sched \<Rightarrow> timer \<times> sched" where
  "user_ticks 0 tf s = s"
| "user_ticks (Suc n) tf s = timer_tick tf (user_ticks n tf s)"

lemma tick_mod: "unat (ticks t) + 1 < 2 ^ 32 \<Longrightarrow> (ticks t + 1) mod 10 = 0 \<longleftrightarrow> (unat (ticks t) + 1) mod 10 = 0"
  using unat_plus_no_wrap [of "ticks t" 1] by (simp add: word_unat_eq_iff unat_mod)

text \<open>The multiples of ten among the \<open>n\<close> tick counts after \<open>b\<close>.\<close>

definition tens :: "nat \<Rightarrow> nat \<Rightarrow> nat" where
  "tens b n = (b + n) div 10 - b div 10"

lemma tens_Suc: "tens b (Suc n) = (if (b + Suc n) mod 10 = 0 then Suc (tens b n) else tens b n)"
proof -
  have "(b + Suc n) div 10 = (if (b + Suc n) mod 10 = 0 then Suc ((b + n) div 10) else (b + n) div 10)"
    by (simp add: div_Suc)
  moreover have "b div 10 \<le> (b + n) div 10" by (rule div_le_mono) simp
  ultimately show ?thesis by (simp add: tens_def Suc_diff_le)
qed

lemma user_ticks_count:
  assumes "(tf_cs tf AND 3) = 3"
  shows "unat (ticks t) + n < 2 ^ 32 \<Longrightarrow> unat (ticks (fst (user_ticks n tf (t, s)))) = unat (ticks t) + n
    \<and> snd (user_ticks n tf (t, s)) = (schedule ^^ tens (unat (ticks t)) n) s
    \<and> ports (fst (user_ticks n tf (t, s))) = ports t @ replicate n (0x20, 0x20)"
proof (induction n)
  case 0
  then show ?case by (simp add: tens_def)
next
  case (Suc n)
  obtain u v where uv: "user_ticks n tf (t, s) = (u, v)" by fastforce
  have IH: "unat (ticks u) = unat (ticks t) + n" "v = (schedule ^^ tens (unat (ticks t)) n) s" "ports u = ports t @ replicate n (0x20, 0x20)"
    using Suc uv by simp_all
  have u1: "unat (ticks u + 1) = unat (ticks t) + Suc n"
    using unat_plus_no_wrap [of "ticks u" 1] IH(1) Suc.prems by simp
  have m: "(ticks u + 1) mod 10 = 0 \<longleftrightarrow> (unat (ticks t) + Suc n) mod 10 = 0"
    using tick_mod [of u] IH(1) Suc.prems by simp
  show ?case
    using u1 m tens_Suc [of "unat (ticks t)" n] IH assms(1) by (simp add: uv timer_tick_def Let_def outb_def replicate_append_same)
qed

text \<open>
  C27: preemption. A timer interrupt never preempts kernel code. Over \<open>n\<close> interrupts from user code that do not wrap the 32-bit
  tick counter, the scheduler is called once for every multiple of ten the counter reaches, and every interrupt
  is acknowledged once.
\<close>

theorem timer_preemption:
  assumes "(tf_cs tf AND 3) = 3" "unat (ticks t) + n < 2 ^ 32" "(tf_cs ktf AND 3) \<noteq> 3"
  shows "snd (user_ticks n tf (t, s)) = (schedule ^^ ((unat (ticks t) + n) div 10 - unat (ticks t) div 10)) s
    \<and> ports (fst (user_ticks n tf (t, s))) = ports t @ replicate n (0x20, 0x20)
    \<and> snd (timer_tick ktf (t, s)) = s"
  using user_ticks_count [OF assms(1), of t n s] assms(2,3) by (simp add: timer_tick_def tens_def Let_def)

theorem timer_preemption_witness:
  "snd (user_ticks 25 (user_frame 0x08000000 0) (\<lparr>ticks = 9, frequency = 100, ports = []\<rparr>, two_procs)) = (schedule ^^ 3) two_procs"
proof -
  have u: "(tf_cs (user_frame 0x08000000 0) AND 3) = 3" by (simp add: user_frame_def SEG_UCODE_def)
  have k: "(tf_cs ((user_frame 0x08000000 0)\<lparr>tf_cs := 0x08\<rparr>) AND 3) \<noteq> 3" by simp
  have n: "unat (ticks \<lparr>ticks = 9, frequency = 100, ports = []\<rparr>) + 25 < 2 ^ 32" by simp
  have d: "(unat (ticks \<lparr>ticks = 9, frequency = 100, ports = []\<rparr>) + 25) div 10 - unat (ticks \<lparr>ticks = 9, frequency = 100, ports = []\<rparr>) div 10 = 3"
    by simp
  show ?thesis using timer_preemption [OF u n k, of two_procs] unfolding d by (rule conjunct1)
qed

end
