(* ===== verification/Kernel_State.thy ===== *)
theory Kernel_State
  imports Virtual_mm Task Vfs_Props Teclado Timer
begin

unbundle bit_operations_syntax

text \<open>
  The state of the whole kernel: the state of every component, the static variables of the shell, and what the
  code takes from outside the C sources. Port writes of every component go to one trace, the one of the timer.
  The static data of the kernel (heap, process stacks) occupies disjoint regions, so the heap's memory and the
  memory of the process table are kept apart; the bytes user programs pass to the kernel are read in the former.
\<close>

section \<open>Programs and readers\<close>

text \<open>The function pointers of the program table and of the \<^verbatim>\<open>/proc\<close> nodes, by name.\<close>

datatype program_entry = Prog_help | Prog_about | Prog_fastfetch | Prog_roadmap | Prog_service | Prog_touch | Prog_write
  | Prog_rm | Prog_mv | Prog_mkdir | Prog_chmod | Prog_stat | Prog_cp | Prog_append | Prog_clear | Prog_uname
  | Prog_uptime | Prog_date | Prog_free | Prog_cpuid | Prog_whoami | Prog_hostname | Prog_pwd | Prog_ls | Prog_cat
  | Prog_echo | Prog_ps | Prog_id | Prog_arch | Prog_exec | Prog_display | Prog_malloc_test | Prog_reboot | Prog_halt

datatype proc_reader = Cpuinfo_read | Meminfo_read | Uptime_read

section \<open>Kernel state\<close>

record service_entry =
  sv_name :: string
  sv_description :: string
  sv_enabled :: bool
  sv_running :: bool

record shell =
  cmd_buffer :: "char list"
  cmd_index :: nat
  shell_batch_mode :: bool
  services :: "service_entry list"

record kernel =
  k_mm :: mm_state
  k_vfs :: "proc_reader vfs"
  k_sched :: sched
  k_term :: terminal
  k_timer :: timer
  k_kbd :: keyboard
  k_progs :: "program_entry programs"
  k_shell :: shell
  k_vmm :: vmm
  k_cr0 :: u32

text \<open>
  What the kernel is linked with and runs on: the addresses of the assembly entry points, of the embedded user
  programs, of the linker symbols and of the buffer on the stack of \<open>prog_exec\<close>, the \<open>cpuid\<close> instruction, the registers of the real-time clock, and the bytes the
  keyboard controller gives on successive reads of its status port.
\<close>

record machine =
  m_isr0 :: u32
  m_isr6 :: u32
  m_isr13 :: u32
  m_isr14 :: u32
  m_timer_handler_asm :: u32
  m_keyboard_handler_asm :: u32
  m_syscall_handler_asm :: u32
  m_trapret :: u32
  m_kernel_end :: u32
  m_stack_top :: u32
  m_user_hello :: u32
  m_user_loop :: u32
  m_user_crash :: u32
  m_exec_buf :: u32
  m_cpuid :: "u32 \<Rightarrow> u32 \<times> u32 \<times> u32 \<times> u32"
  m_cmos :: "u8 \<Rightarrow> u8"
  m_kbc_status :: "nat \<Rightarrow> u8"

section \<open>Calls on components\<close>

definition k_outb :: "u16 \<Rightarrow> u8 \<Rightarrow> kernel \<Rightarrow> kernel" where
  "k_outb port val k = k_timer_update (ports_update (outb port val)) k"

text \<open>A sequence of calls to the terminal.\<close>

datatype console_call = W string | C u8

primrec console_do :: "console_call \<Rightarrow> kernel \<Rightarrow> kernel" where
  "console_do (W s) k = k_term_update (terminal_writestring s) k"
| "console_do (C c) k = k_term_update (terminal_setcolor c) k"

definition emit :: "console_call list \<Rightarrow> kernel \<Rightarrow> kernel" where
  "emit cs k = fold console_do cs k"

abbreviation NL :: string where "NL \<equiv> [CHR 0x0A]"

section \<open>Invariant\<close>

definition cursor_ok :: "terminal \<Rightarrow> bool" where
  "cursor_ok t \<longleftrightarrow> terminal_row t < VGA_HEIGHT \<and> terminal_column t < VGA_WIDTH"

lemma cursor_shows: "cursor_ok t \<Longrightarrow> \<exists>p. shows_paper t p \<and> pr_col p < VGA_WIDTH"
  by (rule exI [of _ "\<lparr>pr_line = terminal_row t, pr_col = terminal_column t, pr_color = terminal_color t,
      pr_cell = (\<lambda>y x. terminal_buffer t (y * VGA_WIDTH + x))\<rparr>"])
    (auto simp: shows_paper_def cursor_ok_def VGA_HEIGHT_def)

lemma shows_cursor: "shows_paper t p \<Longrightarrow> pr_col p < VGA_WIDTH \<Longrightarrow> cursor_ok t"
  by (auto simp: shows_paper_def cursor_ok_def VGA_HEIGHT_def)

lemma cursor_putchar: "cursor_ok t \<Longrightarrow> cursor_ok (terminal_putchar c t) \<and> screen_only t (terminal_putchar c t)"
  by (meson cursor_shows putchar_shows shows_cursor)

lemma cursor_writestring:
  "cursor_ok t \<Longrightarrow> cursor_ok (terminal_writestring s t) \<and> screen_only t (terminal_writestring s t)"
proof (induction s arbitrary: t)
  case (Cons c s)
  show ?case
    using Cons.IH [of "terminal_putchar c t"] cursor_putchar [OF Cons.prems, of c]
    by (auto simp: terminal_writestring_def intro: screen_only_trans)
qed (simp add: terminal_writestring_def screen_only_def)

lemma cursor_setcolor [simp]: "cursor_ok (terminal_setcolor c t) = cursor_ok t" "screen_only t (terminal_setcolor c t)"
  by (simp_all add: cursor_ok_def terminal_setcolor_def screen_only_def)

lemma cursor_clear [simp]: "cursor_ok (terminal_clear t)"
  by (simp add: terminal_clear_def cursor_ok_def VGA_HEIGHT_def VGA_WIDTH_def)

definition shell_ok :: "shell \<Rightarrow> bool" where
  "shell_ok s \<longleftrightarrow> length (cmd_buffer s) = 128 \<and> cmd_index s < 128"

text \<open>The invariants of the components together.\<close>

definition kernel_inv :: "kernel \<Rightarrow> bool" where
  "kernel_inv k \<longleftrightarrow> (\<exists>bs. heap_inv (k_mm k) bs) \<and> vfs_inv (k_vfs k) \<and> sched_inv (k_sched k) \<and> cursor_ok (k_term k)
     \<and> kb_ok (k_kbd k) \<and> programs_inv (k_progs k) \<and> shell_ok (k_shell k)"

lemma kernel_invD:
  assumes "kernel_inv k"
  shows "\<exists>bs. heap_inv (k_mm k) bs" "vfs_inv (k_vfs k)" "sched_inv (k_sched k)" "cursor_ok (k_term k)" "kb_ok (k_kbd k)"
    "programs_inv (k_progs k)" "shell_ok (k_shell k)"
  using assms by (simp_all add: kernel_inv_def)

lemma kernel_inv_update [intro]:
  "kernel_inv k \<Longrightarrow> heap_inv mm bs \<Longrightarrow> kernel_inv (k\<lparr>k_mm := mm\<rparr>)"
  "kernel_inv k \<Longrightarrow> vfs_inv v \<Longrightarrow> kernel_inv (k\<lparr>k_vfs := v\<rparr>)"
  "kernel_inv k \<Longrightarrow> sched_inv s \<Longrightarrow> kernel_inv (k\<lparr>k_sched := s\<rparr>)"
  "kernel_inv k \<Longrightarrow> cursor_ok t \<Longrightarrow> kernel_inv (k\<lparr>k_term := t\<rparr>)"
  "kernel_inv k \<Longrightarrow> kb_ok b \<Longrightarrow> kernel_inv (k\<lparr>k_kbd := b\<rparr>)"
  "kernel_inv k \<Longrightarrow> shell_ok h \<Longrightarrow> kernel_inv (k\<lparr>k_shell := h\<rparr>)"
  "kernel_inv k \<Longrightarrow> kernel_inv (k\<lparr>k_timer := m\<rparr>)"
  by (auto simp: kernel_inv_def)

text \<open>Output only changes the terminal, and keeps it on the screen.\<close>

lemma emit_term: "emit cs k = k\<lparr>k_term := k_term (emit cs k)\<rparr>"
proof -
  have step: "console_do c k = k\<lparr>k_term := k_term (console_do c k)\<rparr>" for c k
    by (cases c) (simp_all add: kernel.equality)
  show ?thesis
  proof (induction cs arbitrary: k)
    case (Cons c cs)
    have e: "emit (c # cs) k = emit cs (console_do c k)" by (simp add: emit_def)
    show ?case using Cons.IH [of "console_do c k"] step [of c k] e by (metis kernel.update_convs(4) kernel.surjective)
  qed (simp add: emit_def)
qed

lemma emit_frame [simp]:
  "k_mm (emit cs k) = k_mm k" "k_vfs (emit cs k) = k_vfs k" "k_sched (emit cs k) = k_sched k" "k_timer (emit cs k) = k_timer k"
  "k_kbd (emit cs k) = k_kbd k" "k_progs (emit cs k) = k_progs k" "k_shell (emit cs k) = k_shell k" "k_vmm (emit cs k) = k_vmm k"
  "k_cr0 (emit cs k) = k_cr0 k"
  by (subst emit_term, simp)+

lemma console_do_cursor:
  "cursor_ok (k_term k) \<Longrightarrow> cursor_ok (k_term (console_do c k)) \<and> screen_only (k_term k) (k_term (console_do c k))"
  by (cases c) (simp_all add: cursor_writestring)

lemma emit_cursor:
  "cursor_ok (k_term k) \<Longrightarrow> cursor_ok (k_term (emit cs k)) \<and> screen_only (k_term k) (k_term (emit cs k))"
proof (induction cs arbitrary: k)
  case (Cons c cs)
  have e: "emit (c # cs) k = emit cs (console_do c k)" by (simp add: emit_def)
  show ?case using Cons.IH [of "console_do c k"] console_do_cursor [OF Cons.prems, of c]
    by (auto simp: e intro: screen_only_trans)
qed (simp add: emit_def screen_only_def)

lemma emit_inv [intro, simp]: "kernel_inv k \<Longrightarrow> kernel_inv (emit cs k)"
  using emit_cursor [of k cs] by (simp add: kernel_inv_def)

lemma emit_append: "emit (xs @ ys) k = emit ys (emit xs k)"
  by (simp add: emit_def)

lemma k_outb_inv [simp]: "kernel_inv (k_outb p v k) = kernel_inv k"
  by (simp add: kernel_inv_def k_outb_def)

section \<open>The state before boot\<close>

definition blank_terminal :: terminal where
  "blank_terminal = \<lparr>terminal_row = 0, terminal_column = 0, terminal_color = 0, terminal_buffer = (\<lambda>_. 0)\<rparr>"

definition boot_services :: "service_entry list" where
  "boot_services =
     [\<lparr>sv_name = ''netd'', sv_description = ''network bootstrap daemon'', sv_enabled = True, sv_running = False\<rparr>,
      \<lparr>sv_name = ''sshd'', sv_description = ''remote shell daemon'', sv_enabled = False, sv_running = False\<rparr>,
      \<lparr>sv_name = ''audiod'', sv_description = ''audio mixer daemon'', sv_enabled = False, sv_running = False\<rparr>,
      \<lparr>sv_name = ''guid'', sv_description = ''graphical session daemon'', sv_enabled = False, sv_running = False\<rparr>]"

definition blank_kernel :: kernel where
  "blank_kernel = \<lparr>k_mm = blank_mm, k_vfs = blank_vfs, k_sched = blank_sched, k_term = blank_terminal,
     k_timer = \<lparr>ticks = 0, frequency = PIT_FREQ, ports = []\<rparr>,
     k_kbd = \<lparr>shift_pressed = False, caps_lock = False, ctrl_pressed = False, alt_pressed = False,
       kb_buf = replicate KB_BUF_SZ NUL, kb_head = 0, kb_tail = 0, kb_state = 0\<rparr>,
     k_progs = blank_programs, k_shell = \<lparr>cmd_buffer = replicate 128 NUL, cmd_index = 0, shell_batch_mode = False,
       services = boot_services\<rparr>,
     k_vmm = \<lparr>kernel_pdir = 0, current_pdir = 0, phys_base = 0, total_pages = 0, next_free_page = 0, user_heap_start = 0,
       user_heap_pos = 0, user_heap_end = 0, user_heap_base = 0, cr3 = 0\<rparr>, k_cr0 = 0x11\<rparr>"

text \<open>A kernel with an initialised heap, file system and process table, for use in examples.\<close>

definition demo_kernel :: kernel where
  "demo_kernel = blank_kernel\<lparr>k_mm := boot_heap, k_vfs := vfs_init blank_vfs, k_sched := proc_init blank_sched\<rparr>"

lemma demo_kernel_inv: "kernel_inv demo_kernel"
  unfolding kernel_inv_def
proof (intro conjI)
  show "\<exists>bs. heap_inv (k_mm demo_kernel) bs" using boot_heap_inv by (auto simp: demo_kernel_def)
  show "vfs_inv (k_vfs demo_kernel)" by (simp add: demo_kernel_def)
  show "sched_inv (k_sched demo_kernel)" by (simp add: demo_kernel_def blank_sched_inv)
  show "cursor_ok (k_term demo_kernel)"
    by (simp add: demo_kernel_def blank_kernel_def cursor_ok_def blank_terminal_def VGA_HEIGHT_def VGA_WIDTH_def)
  show "kb_ok (k_kbd demo_kernel)"
    by (simp add: demo_kernel_def blank_kernel_def kb_ok_def KB_BUF_SZ_def kb_contents_def ring_list_def ring_len_def)
  show "programs_inv (k_progs demo_kernel)" by (simp add: demo_kernel_def blank_kernel_def)
  show "shell_ok (k_shell demo_kernel)" by (simp add: demo_kernel_def blank_kernel_def shell_ok_def)
qed

end
