(* ===== verification/Elf.thy ===== *)
theory Elf
  imports Eron_Prelude
begin

unbundle bit_operations_syntax

text \<open>
  The ELF loader of \<^verbatim>\<open>src/src/kernel/elf.c\<close>. The image, its headers and the segments it is copied to lie in
  one byte memory; a header field is a load at its offset in the structure of \<^verbatim>\<open>elf.h\<close>, repeated wherever
  the C code dereferences the pointer again. All address arithmetic is the wrapping one of \<open>uint32_t\<close>.
\<close>

section \<open>Headers (elf.h)\<close>

definition ELF_MAGIC :: u32 where "ELF_MAGIC = 0x464C457F"
definition ET_EXEC :: u16 where "ET_EXEC = 2"
definition EM_386 :: u16 where "EM_386 = 3"
definition PT_LOAD :: u32 where "PT_LOAD = 1"
definition sizeof_ehdr :: u32 where "sizeof_ehdr = 52"

definition USER_SPACE_START :: u32 where "USER_SPACE_START = 0x08000000"
definition USER_SPACE_END :: u32 where "USER_SPACE_END = 0xC0000000"
definition KERNEL_SPACE_START :: u32 where "KERNEL_SPACE_START = 0xC0000000"

record elf32_ehdr =
  e_magic :: u32
  e_class :: u8
  e_data :: u8
  e_hversion :: u8
  e_osabi :: u8
  e_type :: u16
  e_machine :: u16
  e_version :: u32
  e_entry :: u32
  e_phoff :: u32
  e_shoff :: u32
  e_flags :: u32
  e_ehsize :: u16
  e_phentsize :: u16
  e_phnum :: u16
  e_shentsize :: u16
  e_shnum :: u16
  e_shstrndx :: u16

record elf32_phdr =
  p_type :: u32
  p_offset :: u32
  p_vaddr :: u32
  p_paddr :: u32
  p_filesz :: u32
  p_memsz :: u32
  p_flags :: u32
  p_align :: u32

definition load_ehdr :: "memory \<Rightarrow> u32 \<Rightarrow> elf32_ehdr" where
  "load_ehdr m a = \<lparr>e_magic = load32 m a, e_class = m (a + 4), e_data = m (a + 5), e_hversion = m (a + 6), e_osabi = m (a + 7),
     e_type = load16 m (a + 16), e_machine = load16 m (a + 18), e_version = load32 m (a + 20), e_entry = load32 m (a + 24),
     e_phoff = load32 m (a + 28), e_shoff = load32 m (a + 32), e_flags = load32 m (a + 36), e_ehsize = load16 m (a + 40),
     e_phentsize = load16 m (a + 42), e_phnum = load16 m (a + 44), e_shentsize = load16 m (a + 46),
     e_shnum = load16 m (a + 48), e_shstrndx = load16 m (a + 50)\<rparr>"

definition load_phdr :: "memory \<Rightarrow> u32 \<Rightarrow> elf32_phdr" where
  "load_phdr m a = \<lparr>p_type = load32 m a, p_offset = load32 m (a + 4), p_vaddr = load32 m (a + 8), p_paddr = load32 m (a + 12),
     p_filesz = load32 m (a + 16), p_memsz = load32 m (a + 20), p_flags = load32 m (a + 24), p_align = load32 m (a + 28)\<rparr>"

section \<open>Operations (elf.c)\<close>

definition elf_validate :: "u32 \<Rightarrow> u32 \<Rightarrow> memory \<Rightarrow> int" where
  "elf_validate data sz m =
     (if sz < sizeof_ehdr then -1
      else let eh = load_ehdr m data in
        if e_magic eh \<noteq> ELF_MAGIC then -1
        else if e_class eh \<noteq> 1 then -1
        else if e_data eh \<noteq> 1 then -1
        else if e_type eh \<noteq> ET_EXEC then -1
        else if e_machine eh \<noteq> EM_386 then -1
        else 0)"

definition validate_load_addr :: "u32 \<Rightarrow> u32 \<Rightarrow> bool" where
  "validate_load_addr addr sz =
     (if addr = 0 then False
      else if addr < USER_SPACE_START then False
      else if addr + sz > USER_SPACE_END then False
      else if addr \<ge> KERNEL_SPACE_START then False
      else True)"

definition phdr_addr :: "u32 \<Rightarrow> memory \<Rightarrow> nat \<Rightarrow> u32" where
  "phdr_addr data m i = data + e_phoff (load_ehdr m data) + word_of_nat (i * unat (e_phentsize (load_ehdr m data)))"

definition phdr :: "u32 \<Rightarrow> memory \<Rightarrow> nat \<Rightarrow> elf32_phdr" where
  "phdr data m i = load_phdr m (phdr_addr data m i)"

definition segments_overlap :: "elf32_phdr \<Rightarrow> elf32_phdr \<Rightarrow> bool" where
  "segments_overlap prev ph =
     (p_type prev = PT_LOAD \<and>
      (let prev_end = p_vaddr prev + p_memsz prev; cur_end = p_vaddr ph + p_memsz ph in
       (p_vaddr ph \<ge> p_vaddr prev \<and> p_vaddr ph < prev_end) \<or> (p_vaddr prev \<ge> p_vaddr ph \<and> p_vaddr prev < cur_end)))"

text \<open>The two copy loops: \<open>filesz\<close> bytes from the image, zeros up to \<open>memsz\<close>.\<close>

definition copy_bytes :: "u32 \<Rightarrow> u32 \<Rightarrow> nat \<Rightarrow> memory \<Rightarrow> memory" where
  "copy_bytes dest src n m = fold (\<lambda>j m. m(dest + word_of_nat j := m (src + word_of_nat j))) [0..<n] m"

definition zero_bytes :: "u32 \<Rightarrow> nat \<Rightarrow> nat \<Rightarrow> memory \<Rightarrow> memory" where
  "zero_bytes dest lo hi m = fold (\<lambda>j m. m(dest + word_of_nat j := 0)) [lo..<hi] m"

text \<open>One turn of the loop over program headers; \<open>None\<close> is the early \<open>return 0\<close>.\<close>

definition elf_segment :: "u32 \<Rightarrow> u32 \<Rightarrow> nat \<Rightarrow> memory \<Rightarrow> memory option" where
  "elf_segment data sz i m =
     (let ph = phdr data m i in
      if p_type ph \<noteq> PT_LOAD then Some m
      else if p_offset ph + p_filesz ph > sz then None
      else if p_vaddr ph = 0 \<or> p_memsz ph = 0 then Some m
      else if \<not> validate_load_addr (p_vaddr ph) (p_memsz ph) then None
      else if \<exists>j\<in>set [0..<i]. segments_overlap (phdr data m j) ph then None
      else let m = copy_bytes (p_vaddr ph) (data + p_offset ph) (unat (p_filesz ph)) m
           in Some (zero_bytes (p_vaddr ph) (unat (p_filesz ph)) (unat (p_memsz ph)) m))"

lemma u16_bound: "unat (w :: u16) < 65536"
  using unsigned_less [of w, where 'a = nat] by simp

function elf_loop :: "u32 \<Rightarrow> u32 \<Rightarrow> nat \<Rightarrow> memory \<Rightarrow> memory \<times> bool" where
  "elf_loop data sz i m =
     (if i < unat (e_phnum (load_ehdr m data)) then
        (case elf_segment data sz i m of None \<Rightarrow> (m, False) | Some m' \<Rightarrow> elf_loop data sz (i + 1) m')
      else (m, True))"
  by pat_completeness auto

termination
proof (relation "measure (\<lambda>(_, _, i, _). 65536 - i)")
  fix data sz :: u32 and i m x
  assume "i < unat (e_phnum (load_ehdr m data))"
  then show "((data, sz, i + 1, x), (data, sz, i, m)) \<in> measure (\<lambda>(_, _, i, _). 65536 - i)"
    using u16_bound [of "e_phnum (load_ehdr m data)"] by simp
qed simp

declare elf_loop.simps [simp del]

definition elf_load :: "u32 \<Rightarrow> u32 \<Rightarrow> memory \<Rightarrow> memory \<times> u32" where
  "elf_load data sz m =
     (if elf_validate data sz m \<noteq> 0 then (m, 0)
      else let eh = load_ehdr m data in
        if e_phoff eh = 0 \<or> e_phnum eh = 0 then (m, 0)
        else if e_phnum eh > 16 then (m, 0)
        else (case elf_loop data sz 0 m of
                (m, False) \<Rightarrow> (m, 0)
              | (m, True) \<Rightarrow> (m, e_entry (load_ehdr m data))))"

section \<open>The copy loops\<close>

lemma copy_bytes_Suc: "copy_bytes d s (Suc n) m = (copy_bytes d s n m)(d + word_of_nat n := copy_bytes d s n m (s + word_of_nat n))"
  by (simp add: copy_bytes_def)

lemma unat_offset: "unat (d :: u32) + j < 2 ^ 32 \<Longrightarrow> unat (d + word_of_nat j) = unat d + j"
  using unat_plus_no_wrap [of d "word_of_nat j"] by (simp add: unat_of_nat_u32)

text \<open>A range of bytes from a word address, without wrap-around.\<close>

definition in_range :: "u32 \<Rightarrow> nat \<Rightarrow> u32 \<Rightarrow> bool" where
  "in_range a n x \<longleftrightarrow> unat a \<le> unat x \<and> unat x < unat a + n"

lemma copy_bytes_outside:
  "unat d + n \<le> 2 ^ 32 \<Longrightarrow> \<not> in_range d n x \<Longrightarrow> copy_bytes d s n m x = m x"
proof (induction n)
  case (Suc n)
  have "x \<noteq> d + word_of_nat n" using Suc.prems unat_offset [of d n] by (auto simp: in_range_def)
  then show ?case using Suc by (auto simp: copy_bytes_Suc in_range_def)
qed (simp add: copy_bytes_def)

lemma copy_bytes_inside:
  assumes "unat d + n \<le> 2 ^ 32" "j < n" "\<And>i. i < n \<Longrightarrow> \<not> in_range d n (s + word_of_nat i)"
  shows "copy_bytes d s n m (d + word_of_nat j) = m (s + word_of_nat j)"
  using assms
proof (induction n)
  case (Suc n)
  have out: "copy_bytes d s n m (s + word_of_nat i) = m (s + word_of_nat i)" if "i < Suc n" for i
  proof (rule copy_bytes_outside)
    show "unat d + n \<le> 2 ^ 32" using Suc.prems(1) by simp
    show "\<not> in_range d n (s + word_of_nat i)" using Suc.prems(3) [OF that] by (auto simp: in_range_def)
  qed
  have d: "unat (d + word_of_nat n) = unat d + n" "unat (d + word_of_nat j) = unat d + j"
    using Suc.prems by (simp_all add: unat_offset)
  show ?case
  proof (cases "j = n")
    case False
    then have "d + word_of_nat j \<noteq> d + word_of_nat n" using d by (metis add_left_cancel)
    moreover have "\<not> in_range d n (s + word_of_nat i)" if "i < n" for i
      using Suc.prems(3) [of i] that by (auto simp: in_range_def)
    ultimately show ?thesis using Suc.IH Suc.prems(1,2) False by (simp add: copy_bytes_Suc)
  qed (use out in \<open>simp add: copy_bytes_Suc\<close>)
qed simp

lemma zero_bytes_app:
  "lo \<le> hi \<Longrightarrow> unat d + hi \<le> 2 ^ 32 \<Longrightarrow>
   zero_bytes d lo hi m x = (if unat d + lo \<le> unat x \<and> unat x < unat d + hi then 0 else m x)"
proof (induction hi)
  case (Suc hi)
  have d: "unat (d + word_of_nat hi) = unat d + hi" using Suc.prems by (simp add: unat_offset)
  show ?case
  proof (cases "lo = Suc hi")
    case False
    then have "zero_bytes d lo (Suc hi) m = (zero_bytes d lo hi m)(d + word_of_nat hi := 0)"
      using Suc.prems by (simp add: zero_bytes_def)
    moreover have "x = d + word_of_nat hi \<longleftrightarrow> unat x = unat d + hi" using d by (metis word_unat_eq_iff)
    ultimately show ?thesis using Suc False by auto
  qed (auto simp: zero_bytes_def)
qed (auto simp: zero_bytes_def)

section \<open>Well-formed images\<close>

definition user_addr :: "u32 \<Rightarrow> bool" where
  "user_addr x \<longleftrightarrow> USER_SPACE_START \<le> x \<and> x < USER_SPACE_END"

text \<open>Two memories that differ in user space only.\<close>

definition kernel_same :: "memory \<Rightarrow> memory \<Rightarrow> bool" where
  "kernel_same m m' \<longleftrightarrow> (\<forall>x. \<not> user_addr x \<longrightarrow> m' x = m x)"

definition kernel_range :: "u32 \<Rightarrow> nat \<Rightarrow> bool" where
  "kernel_range a n \<longleftrightarrow> (\<forall>j<n. \<not> user_addr (a + word_of_nat j))"

definition loadable :: "elf32_phdr \<Rightarrow> bool" where
  "loadable ph \<longleftrightarrow> p_type ph = PT_LOAD \<and> p_vaddr ph \<noteq> 0 \<and> p_memsz ph \<noteq> 0"

text \<open>
  An image in a buffer outside user space, with its headers and segment contents, whose segments have
  \<open>filesz \<le> memsz\<close> and an end that does not wrap around.
\<close>

definition image_ok :: "u32 \<Rightarrow> memory \<Rightarrow> bool" where
  "image_ok data m \<longleftrightarrow> kernel_range data 52 \<and>
     (\<forall>i<unat (e_phnum (load_ehdr m data)). kernel_range (phdr_addr data m i) 32 \<and>
        (let ph = phdr data m i in loadable ph \<longrightarrow>
           p_filesz ph \<le> p_memsz ph \<and> unat (p_vaddr ph) + unat (p_memsz ph) < 2 ^ 32
           \<and> kernel_range (data + p_offset ph) (unat (p_filesz ph))))"

lemma kernel_sameD: "kernel_same m m' \<Longrightarrow> kernel_range a n \<Longrightarrow> j < n \<Longrightarrow> m' (a + word_of_nat j) = m (a + word_of_nat j)"
  by (simp add: kernel_same_def kernel_range_def)

lemma kernel_same_load_ehdr:
  assumes "kernel_same m m'" "kernel_range a 52"
  shows "load_ehdr m' a = load_ehdr m a"
proof -
  have b: "m' (a + word_of_nat j) = m (a + word_of_nat j)" if "j < 52" for j
    by (rule kernel_sameD [OF assms that])
  have w: "m' (a + numeral k) = m (a + numeral k)" if "numeral k < (52 :: nat)" for k
    using b [OF that] by simp
  have "m' a = m a" "m' (a + 1) = m (a + 1)" using b [of 0] b [of 1] by simp_all
  then show ?thesis by (simp add: load_ehdr_def load32_def load16_def w add.assoc)
qed

lemma kernel_same_load_phdr:
  assumes "kernel_same m m'" "kernel_range a 32"
  shows "load_phdr m' a = load_phdr m a"
proof -
  have b: "m' (a + word_of_nat j) = m (a + word_of_nat j)" if "j < 32" for j
    by (rule kernel_sameD [OF assms that])
  have w: "m' (a + numeral k) = m (a + numeral k)" if "numeral k < (32 :: nat)" for k
    using b [OF that] by simp
  have "m' a = m a" "m' (a + 1) = m (a + 1)" using b [of 0] b [of 1] by simp_all
  then show ?thesis by (simp add: load_phdr_def load32_def w add.assoc)
qed

lemma kernel_same_headers:
  assumes "kernel_same m m'" "image_ok data m"
  shows "load_ehdr m' data = load_ehdr m data"
    "i < unat (e_phnum (load_ehdr m data)) \<Longrightarrow> phdr data m' i = phdr data m i"
proof -
  show eh: "load_ehdr m' data = load_ehdr m data"
    using assms by (intro kernel_same_load_ehdr) (auto simp: image_ok_def)
  assume i: "i < unat (e_phnum (load_ehdr m data))"
  have "kernel_range (phdr_addr data m i) 32" using assms(2) i by (simp add: image_ok_def)
  from kernel_same_load_phdr [OF assms(1) this] show "phdr data m' i = phdr data m i"
    by (simp add: phdr_def phdr_addr_def eh)
qed

section \<open>One segment\<close>

text \<open>What a segment's bytes are after it is loaded.\<close>

definition segment_loaded :: "u32 \<Rightarrow> elf32_phdr \<Rightarrow> memory \<Rightarrow> memory \<Rightarrow> bool" where
  "segment_loaded data ph m m' \<longleftrightarrow>
     (\<forall>j<unat (p_memsz ph). m' (p_vaddr ph + word_of_nat j) =
        (if j < unat (p_filesz ph) then m (data + p_offset ph + word_of_nat j) else 0))"

lemma validate_load_addr_iff:
  "validate_load_addr a n \<longleftrightarrow> user_addr a \<and> (unat a + unat n \<le> unat USER_SPACE_END \<or> 2 ^ 32 \<le> unat a + unat n)"
proof -
  have a: "user_addr a \<longleftrightarrow> 0x08000000 \<le> unat a \<and> unat a < 0xC0000000"
    by (simp add: user_addr_def USER_SPACE_START_def USER_SPACE_END_def word_le_nat_alt word_less_nat_alt)
  have "a + n \<le> USER_SPACE_END \<longleftrightarrow> unat a + unat n \<le> 0xC0000000 \<or> 2 ^ 32 \<le> unat a + unat n" if "unat a < 0xC0000000"
  proof (cases "unat a + unat n < 2 ^ 32")
    case True
    then show ?thesis using unat_plus_no_wrap [of a n] by (auto simp: USER_SPACE_END_def word_le_nat_alt)
  next
    case False
    then have "unat (a + n) = unat a + unat n - 2 ^ 32"
      using u32_bound [of a] u32_bound [of n] by (simp add: unat_word_ariths mod_if)
    then show ?thesis using False that u32_bound [of n] by (simp add: USER_SPACE_END_def word_le_nat_alt)
  qed
  then show ?thesis
    unfolding a by (auto simp: validate_load_addr_def USER_SPACE_START_def KERNEL_SPACE_START_def USER_SPACE_END_def not_less not_le
      word_le_nat_alt word_less_nat_alt)
qed

lemma range_user:
  assumes "validate_load_addr v n" "unat v + unat n < 2 ^ 32" "in_range v (unat n) x"
  shows "user_addr x"
proof -
  have "0x08000000 \<le> unat v" "unat v + unat n \<le> 0xC0000000"
    using assms(1,2) unfolding validate_load_addr_iff
    by (auto simp: user_addr_def USER_SPACE_START_def USER_SPACE_END_def word_le_nat_alt)
  then show ?thesis
    using assms(3) by (simp add: in_range_def user_addr_def USER_SPACE_START_def USER_SPACE_END_def word_le_nat_alt word_less_nat_alt)
qed

lemma elf_segment_step:
  assumes ok: "image_ok data m0" and same: "kernel_same m0 m" and i: "i < unat (e_phnum (load_ehdr m0 data))"
    and seg: "elf_segment data sz i m = Some m'"
  defines "ph k \<equiv> phdr data m0 k"
  shows "kernel_same m0 m'" "\<not> loadable (ph i) \<Longrightarrow> m' = m"
    "loadable (ph i) \<Longrightarrow> segment_loaded data (ph i) m0 m' \<and> (\<forall>k<i. \<not> segments_overlap (ph k) (ph i))
       \<and> (\<forall>x. \<not> in_range (p_vaddr (ph i)) (unat (p_memsz (ph i))) x \<longrightarrow> m' x = m x)"
proof -
  have phm: "phdr data m k = ph k" if "k \<le> i" for k
    using kernel_same_headers(2) [OF same ok, of k] that i by (simp add: ph_def)
  let ?v = "p_vaddr (ph i)" and ?n = "unat (p_memsz (ph i))" and ?f = "unat (p_filesz (ph i))" and ?s = "data + p_offset (ph i)"
  show idle: "m' = m" if "\<not> loadable (ph i)"
    using seg that by (auto simp: elf_segment_def phm loadable_def Let_def split: if_splits)
  have main: "segment_loaded data (ph i) m0 m' \<and> (\<forall>k<i. \<not> segments_overlap (ph k) (ph i))
      \<and> (\<forall>x. \<not> in_range ?v ?n x \<longrightarrow> m' x = m x) \<and> validate_load_addr ?v (p_memsz (ph i)) \<and> unat ?v + ?n < 2 ^ 32"
    if l: "loadable (ph i)"
  proof -
    have im: "?f \<le> ?n" "unat ?v + ?n < 2 ^ 32" "kernel_range ?s ?f"
      using ok i l by (auto simp: image_ok_def ph_def Let_def word_le_nat_alt)
    have m': "m' = zero_bytes ?v ?f ?n (copy_bytes ?v ?s ?f m)" and val: "validate_load_addr ?v (p_memsz (ph i))"
      and no: "\<forall>k<i. \<not> segments_overlap (ph k) (ph i)"
      using seg l phm by (auto simp: elf_segment_def phm loadable_def Let_def split: if_splits)
    have apart: "\<not> in_range ?v ?f (?s + word_of_nat j)" if "j < ?f" for j
      using im(1,3) range_user [OF val im(2), of "?s + word_of_nat j"] that by (auto simp: kernel_range_def in_range_def)
    have "m' (?v + word_of_nat j) = (if j < ?f then m0 (?s + word_of_nat j) else 0)" if j: "j < ?n" for j
    proof -
      have u: "unat (?v + word_of_nat j) = unat ?v + j" using im j by (simp add: unat_offset)
      have "copy_bytes ?v ?s ?f m (?v + word_of_nat j) = m0 (?s + word_of_nat j)" if "j < ?f"
        using copy_bytes_inside [of ?v ?f j ?s m] im that apart kernel_sameD [OF same im(3) that] by simp
      then show ?thesis using zero_bytes_app [of ?f ?n ?v "copy_bytes ?v ?s ?f m" "?v + word_of_nat j"] im u j m' by auto
    qed
    moreover have "m' x = m x" if "\<not> in_range ?v ?n x" for x
      using zero_bytes_app [of ?f ?n ?v "copy_bytes ?v ?s ?f m" x] copy_bytes_outside [of ?v ?f x ?s m] im that m'
      by (auto simp: in_range_def)
    ultimately show ?thesis using no val im(2) by (simp add: segment_loaded_def)
  qed
  then show "loadable (ph i) \<Longrightarrow> segment_loaded data (ph i) m0 m' \<and> (\<forall>k<i. \<not> segments_overlap (ph k) (ph i))
       \<and> (\<forall>x. \<not> in_range ?v ?n x \<longrightarrow> m' x = m x)" by blast
  show "kernel_same m0 m'"
  proof (cases "loadable (ph i)")
    case True
    have "m' x = m x" if "\<not> user_addr x" for x using main [OF True] range_user [of ?v "p_memsz (ph i)" x] that by blast
    then show ?thesis using same by (simp add: kernel_same_def)
  qed (use same idle in simp)
qed

lemma no_overlap_disjoint:
  assumes "\<not> segments_overlap a b" "loadable a" "loadable b"
    and "unat (p_vaddr a) + unat (p_memsz a) < 2 ^ 32" "unat (p_vaddr b) + unat (p_memsz b) < 2 ^ 32"
    and "in_range (p_vaddr a) (unat (p_memsz a)) x"
  shows "\<not> in_range (p_vaddr b) (unat (p_memsz b)) x"
  using assms by (auto simp: segments_overlap_def loadable_def in_range_def word_le_nat_alt word_less_nat_alt
      unat_plus_no_wrap Let_def)

lemma segment_loaded_kept:
  assumes "segment_loaded data a m0 m" "\<And>x. in_range (p_vaddr a) (unat (p_memsz a)) x \<Longrightarrow> m' x = m x"
    "unat (p_vaddr a) + unat (p_memsz a) < 2 ^ 32"
  shows "segment_loaded data a m0 m'"
proof -
  have "in_range (p_vaddr a) (unat (p_memsz a)) (p_vaddr a + word_of_nat j)" if "j < unat (p_memsz a)" for j
    using that assms(3) by (simp add: in_range_def unat_offset)
  then show ?thesis using assms(1,2) by (simp add: segment_loaded_def)
qed

text \<open>The segments among the first \<open>n\<close> headers that are to be loaded are loaded.\<close>

definition loaded_upto :: "u32 \<Rightarrow> memory \<Rightarrow> nat \<Rightarrow> memory \<Rightarrow> bool" where
  "loaded_upto data m0 n m \<longleftrightarrow> (\<forall>k<n. loadable (phdr data m0 k) \<longrightarrow> segment_loaded data (phdr data m0 k) m0 m)"

lemma loaded_upto_step:
  assumes ok: "image_ok data m0" and same: "kernel_same m0 m" and i: "i < unat (e_phnum (load_ehdr m0 data))"
    and seg: "elf_segment data sz i m = Some m'" and l: "loaded_upto data m0 i m"
  shows "loaded_upto data m0 (Suc i) m'"
proof -
  note st = elf_segment_step [OF ok same i seg]
  have bound: "unat (p_vaddr (phdr data m0 k)) + unat (p_memsz (phdr data m0 k)) < 2 ^ 32"
    if "k \<le> i" "loadable (phdr data m0 k)" for k
    using ok i that unfolding image_ok_def Let_def by (meson order_le_less_trans)
  have "segment_loaded data (phdr data m0 k) m0 m'" if k: "k < i" "loadable (phdr data m0 k)" for k
  proof (cases "loadable (phdr data m0 i)")
    case True
    show ?thesis
    proof (rule segment_loaded_kept)
      show "segment_loaded data (phdr data m0 k) m0 m" using l k by (simp add: loaded_upto_def)
      show "unat (p_vaddr (phdr data m0 k)) + unat (p_memsz (phdr data m0 k)) < 2 ^ 32" using bound [of k] k by simp
      show "m' x = m x" if "in_range (p_vaddr (phdr data m0 k)) (unat (p_memsz (phdr data m0 k))) x" for x
        using st(3) [OF True] no_overlap_disjoint [of "phdr data m0 k" "phdr data m0 i" x] k True bound [of k] bound [of i] that
        by simp
    qed
  next
    case False
    then show ?thesis using st(2) l k by (simp add: loaded_upto_def)
  qed
  then show ?thesis using st(3) by (simp add: loaded_upto_def less_Suc_eq)
qed

lemma elf_loop_spec:
  assumes "image_ok data m0"
  shows "kernel_same m0 m \<Longrightarrow> loaded_upto data m0 i m \<Longrightarrow> i \<le> unat (e_phnum (load_ehdr m0 data)) \<Longrightarrow>
    kernel_same m0 (fst (elf_loop data sz i m))
    \<and> (snd (elf_loop data sz i m) \<longrightarrow> loaded_upto data m0 (unat (e_phnum (load_ehdr m0 data))) (fst (elf_loop data sz i m)))"
  using assms
proof (induction data sz i m rule: elf_loop.induct)
  case (1 data sz i m)
  let ?n = "unat (e_phnum (load_ehdr m0 data))"
  have eh: "load_ehdr m data = load_ehdr m0 data" by (rule kernel_same_headers(1) [OF "1.prems"(1,4)])
  show ?case
  proof (cases "i < ?n")
    case True
    show ?thesis
    proof (cases "elf_segment data sz i m")
      case None
      then show ?thesis using True "1.prems"(1) by (simp add: elf_loop.simps [of data sz i m] eh)
    next
      case (Some m')
      have "kernel_same m0 m'" "loaded_upto data m0 (i + 1) m'"
        using elf_segment_step(1) [OF "1.prems"(4,1) True Some] loaded_upto_step [OF "1.prems"(4,1) True Some "1.prems"(2)] by simp_all
      from "1.IH" [OF _ Some this _ "1.prems"(4)] show ?thesis
        using True Some by (simp add: elf_loop.simps [of data sz i m] eh)
    qed
  next
    case False
    then have "elf_loop data sz i m = (m, True)" by (simp add: elf_loop.simps [of data sz i m] eh)
    then show ?thesis using "1.prems" False by simp
  qed
qed

section \<open>Properties\<close>

text \<open>
  C8: memory safety of the loader. For an image in kernel memory whose segments do not wrap around and
  are no larger in the file than in memory, \<open>elf_load\<close>, successful or not, writes no byte outside user
  space (\<open>0x08000000\<close> up to \<open>0xC0000000\<close>).
\<close>

theorem elf_load_safe:
  assumes "image_ok data m" "\<not> (USER_SPACE_START \<le> x \<and> x < USER_SPACE_END)"
  shows "fst (elf_load data sz m) x = m x"
proof -
  have "kernel_same m (fst (elf_loop data sz 0 m))"
    using elf_loop_spec [OF assms(1), of m 0 sz] by (simp add: loaded_upto_def kernel_same_def)
  then show ?thesis
    using assms(2) by (auto simp: elf_load_def kernel_same_def user_addr_def Let_def split: prod.splits bool.splits)
qed

text \<open>A two-byte program with four bytes of memory, in a buffer at \<open>0x200000\<close>, for the witnesses.\<close>

definition demo_image :: "u8 list" where
  "demo_image = [0x7F, 0x45, 0x4C, 0x46, 1, 1, 1, 0, 0, 0, 0, 0, 0, 0, 0, 0,
     2, 0, 3, 0, 1, 0, 0, 0, 0, 0, 0, 0x08, 52, 0, 0, 0, 0, 0, 0, 0, 0, 0, 0, 0, 52, 0, 32, 0, 1, 0, 0, 0, 0, 0, 0, 0,
     1, 0, 0, 0, 84, 0, 0, 0, 0, 0, 0, 0x08, 0, 0, 0, 0, 2, 0, 0, 0, 4, 0, 0, 0, 5, 0, 0, 0, 0, 16, 0, 0,
     0xEB, 0xFE]"

definition demo_mem :: memory where
  "demo_mem x = (if 0x200000 \<le> x \<and> x < 0x200056 then demo_image ! unat (x - 0x200000) else 0)"

lemma demo_ehdr: "e_magic (load_ehdr demo_mem 0x200000) = ELF_MAGIC" "e_class (load_ehdr demo_mem 0x200000) = 1"
  "e_data (load_ehdr demo_mem 0x200000) = 1" "e_type (load_ehdr demo_mem 0x200000) = ET_EXEC"
  "e_machine (load_ehdr demo_mem 0x200000) = EM_386" "e_entry (load_ehdr demo_mem 0x200000) = 0x08000000"
  "e_phoff (load_ehdr demo_mem 0x200000) = 52" "e_phentsize (load_ehdr demo_mem 0x200000) = 32"
  "e_phnum (load_ehdr demo_mem 0x200000) = 1"
  by (simp_all add: load_ehdr_def load32_def load16_def demo_mem_def demo_image_def ELF_MAGIC_def ET_EXEC_def EM_386_def)

lemma demo_phdr: "phdr_addr 0x200000 demo_mem 0 = 0x200034"
  "phdr 0x200000 demo_mem 0 = \<lparr>p_type = PT_LOAD, p_offset = 84, p_vaddr = 0x08000000, p_paddr = 0, p_filesz = 2, p_memsz = 4,
     p_flags = 5, p_align = 4096\<rparr>"
  by (simp_all add: phdr_def phdr_addr_def demo_ehdr load_phdr_def load32_def demo_mem_def demo_image_def PT_LOAD_def)

lemma demo_range: "a + n \<le> 0x08000000 \<Longrightarrow> kernel_range (word_of_nat a) n"
  unfolding kernel_range_def
proof (intro allI impI)
  fix j assume a: "a + n \<le> 0x08000000" and j: "j < n"
  have "unat (word_of_nat a + word_of_nat j :: u32) = a + j"
    using a j by (subst of_nat_add [symmetric]) (rule unat_of_nat_u32, simp)
  then show "\<not> user_addr (word_of_nat a + word_of_nat j)"
    using a j by (simp add: user_addr_def USER_SPACE_START_def word_le_nat_alt)
qed

lemma demo_image_ok: "image_ok 0x200000 demo_mem"
  using demo_range [of "0x200000" 52] demo_range [of "0x200034" 32] demo_range [of "0x200054" 2]
  by (simp add: image_ok_def demo_ehdr demo_phdr Let_def)

theorem elf_load_safe_witness: "fst (elf_load 0x200000 86 demo_mem) 0x100000 = demo_mem 0x100000"
  by (rule elf_load_safe [OF demo_image_ok]) (simp add: USER_SPACE_START_def)

lemma elf_load_segments_parts:
  assumes "image_ok data m" "elf_load data sz m = (m', e)" "e \<noteq> 0"
  shows "e = e_entry (load_ehdr m data)"
    "k < unat (e_phnum (load_ehdr m data)) \<Longrightarrow> p_type (phdr data m k) = PT_LOAD \<Longrightarrow> p_vaddr (phdr data m k) \<noteq> 0 \<Longrightarrow>
     j < unat (p_memsz (phdr data m k)) \<Longrightarrow>
     m' (p_vaddr (phdr data m k) + word_of_nat j) =
       (if j < unat (p_filesz (phdr data m k)) then m (data + p_offset (phdr data m k) + word_of_nat j) else 0)"
proof -
  have l: "elf_loop data sz 0 m = (m', True)" "e = e_entry (load_ehdr m' data)"
    using assms(2,3) by (auto simp: elf_load_def Let_def split: if_splits prod.splits bool.splits)
  have spec: "kernel_same m m'" "loaded_upto data m (unat (e_phnum (load_ehdr m data))) m'"
    using elf_loop_spec [OF assms(1), of m 0 sz] l(1) by (simp_all add: loaded_upto_def kernel_same_def)
  show "e = e_entry (load_ehdr m data)" using l(2) kernel_same_headers(1) [OF spec(1) assms(1)] by simp
  assume k: "k < unat (e_phnum (load_ehdr m data))" "p_type (phdr data m k) = PT_LOAD" "p_vaddr (phdr data m k) \<noteq> 0"
    "j < unat (p_memsz (phdr data m k))"
  then have "loadable (phdr data m k)" by (auto simp: loadable_def)
  then show "m' (p_vaddr (phdr data m k) + word_of_nat j) =
       (if j < unat (p_filesz (phdr data m k)) then m (data + p_offset (phdr data m k) + word_of_nat j) else 0)"
    using spec(2) k by (simp add: loaded_upto_def segment_loaded_def)
qed

text \<open>
  C23: functional correctness of the loader. When \<open>elf_load\<close> gets through all program headers of such an
  image, it returns the entry point of the header, and afterwards every loadable segment holds its file
  contents followed by zeros up to its memory size.
\<close>

theorem elf_load_segments:
  assumes "image_ok data m" "elf_load data sz m = (m', e)" "e \<noteq> 0"
  shows "e = e_entry (load_ehdr m data) \<and>
    (\<forall>k j. k < unat (e_phnum (load_ehdr m data)) \<longrightarrow> p_type (phdr data m k) = PT_LOAD \<longrightarrow> p_vaddr (phdr data m k) \<noteq> 0 \<longrightarrow>
       j < unat (p_memsz (phdr data m k)) \<longrightarrow>
       m' (p_vaddr (phdr data m k) + word_of_nat j) =
         (if j < unat (p_filesz (phdr data m k)) then m (data + p_offset (phdr data m k) + word_of_nat j) else 0))"
  by (intro conjI allI impI elf_load_segments_parts [OF assms])

lemma demo_load: "snd (elf_load 0x200000 86 demo_mem) = 0x08000000"
proof -
  have "\<exists>m'. elf_segment 0x200000 86 0 demo_mem = Some m'"
    by (simp add: elf_segment_def demo_phdr Let_def validate_load_addr_def USER_SPACE_START_def USER_SPACE_END_def KERNEL_SPACE_START_def)
  then obtain m' where seg: "elf_segment 0x200000 86 0 demo_mem = Some m'" by blast
  have "kernel_same demo_mem m'"
    by (rule elf_segment_step(1) [OF demo_image_ok _ _ seg]) (simp_all add: kernel_same_def demo_ehdr)
  then have eh: "load_ehdr m' 0x200000 = load_ehdr demo_mem 0x200000" by (rule kernel_same_headers(1) [OF _ demo_image_ok])
  have "elf_loop 0x200000 86 0 demo_mem = (m', True)"
    by (simp add: elf_loop.simps [of _ _ 0] elf_loop.simps [of _ _ "Suc 0"] seg eh demo_ehdr)
  then show ?thesis by (simp add: elf_load_def elf_validate_def demo_ehdr eh Let_def sizeof_ehdr_def)
qed

theorem elf_load_segments_witness:
  "fst (elf_load 0x200000 86 demo_mem) 0x08000001 = 0xFE \<and> fst (elf_load 0x200000 86 demo_mem) 0x08000003 = 0"
proof -
  have e: "elf_load 0x200000 86 demo_mem = (fst (elf_load 0x200000 86 demo_mem), 0x08000000)"
    by (simp add: prod_eq_iff demo_load)
  have "0x08000000 \<noteq> (0 :: u32)" by simp
  from elf_load_segments [OF demo_image_ok e this, THEN conjunct2, rule_format, of 0 1]
    elf_load_segments [OF demo_image_ok e this, THEN conjunct2, rule_format, of 0 3]
  show ?thesis by (simp add: demo_phdr demo_ehdr demo_mem_def demo_image_def)
qed

text \<open>
  What the address check accepts. A segment passes exactly when it starts in user space and either
  ends there or its end wraps around the 32-bit address space; in the second case the zero fill runs
  through the kernel half, since the check adds without regard to overflow.
\<close>

lemma validate_load_addr_exact:
  "validate_load_addr a n \<longleftrightarrow> USER_SPACE_START \<le> a \<and> a < USER_SPACE_END
     \<and> (unat a + unat n \<le> unat USER_SPACE_END \<or> 2 ^ 32 \<le> unat a + unat n)"
  using validate_load_addr_iff [of a n] by (simp add: user_addr_def)

end
