(* ===== verification/Syscall.thy ===== *)
theory Syscall
  imports Kernel_State Elf
begin

unbundle bit_operations_syntax

text \<open>
  The system calls of \<^verbatim>\<open>src/src/kernel/syscall.c\<close> on the state of the components they call: the heap, the file
  system, the process table, the terminal and the timer. A system call may fail to return: in the heap walks on a corrupted heap, in a string without
  terminator, and in the loop of \<open>SYS_SLEEP\<close>; the result is then \<open>None\<close>.
  A call that switches to another process, \<open>SYS_EXIT\<close> or \<open>SYS_YIELD\<close>, gives the state in which the scheduler leaves the kernel; on
  the machine the caller's frame is loaded when it is switched back to, never after \<open>SYS_EXIT\<close>. The theory \<open>Stubs\<close> follows the
  processor through that.
\<close>

section \<open>Call numbers (syscall.h)\<close>

definition SYS_WRITE :: u32 where "SYS_WRITE = 1"
definition SYS_READ :: u32 where "SYS_READ = 2"
definition SYS_EXIT :: u32 where "SYS_EXIT = 3"
definition SYS_GETPID :: u32 where "SYS_GETPID = 4"
definition SYS_MALLOC :: u32 where "SYS_MALLOC = 5"
definition SYS_FREE :: u32 where "SYS_FREE = 6"
definition SYS_OPEN :: u32 where "SYS_OPEN = 7"
definition SYS_CLOSE :: u32 where "SYS_CLOSE = 8"
definition SYS_TIME :: u32 where "SYS_TIME = 9"
definition SYS_YIELD :: u32 where "SYS_YIELD = 10"
definition SYS_EXEC :: u32 where "SYS_EXEC = 11"
definition SYS_STAT :: u32 where "SYS_STAT = 13"
definition SYS_FORK :: u32 where "SYS_FORK = 14"
definition SYS_KILL :: u32 where "SYS_KILL = 15"
definition SYS_ALARM :: u32 where "SYS_ALARM = 16"
definition SYS_SLEEP :: u32 where "SYS_SLEEP = 17"
definition SYS_GETTID :: u32 where "SYS_GETTID = 18"
definition SYS_GETUID :: u32 where "SYS_GETUID = 21"
definition SYS_GETGID :: u32 where "SYS_GETGID = 22"
definition SYS_GETPPID :: u32 where "SYS_GETPPID = 23"
definition SYS_DUP :: u32 where "SYS_DUP = 24"
definition SYS_DUP2 :: u32 where "SYS_DUP2 = 25"
definition SYS_PIPE :: u32 where "SYS_PIPE = 26"
definition SYS_UNLINK :: u32 where "SYS_UNLINK = 29"
definition SYS_MKDIR :: u32 where "SYS_MKDIR = 30"
definition SYS_RMDIR :: u32 where "SYS_RMDIR = 31"
definition SYS_CHMOD :: u32 where "SYS_CHMOD = 32"
definition SYS_UMASK :: u32 where "SYS_UMASK = 34"
definition SYS_BRK :: u32 where "SYS_BRK = 36"
definition SYS_SETSID :: u32 where "SYS_SETSID = 37"
definition SYS_GETSID :: u32 where "SYS_GETSID = 38"
definition SYS_GETPGRP :: u32 where "SYS_GETPGRP = 41"
definition SYS_SETPGRP :: u32 where "SYS_SETPGRP = 42"
definition SYS_GETEUID :: u32 where "SYS_GETEUID = 45"
definition SYS_GETEGID :: u32 where "SYS_GETEGID = 46"
definition SYS_RENAME :: u32 where "SYS_RENAME = 49"
definition SYS_GETCWD :: u32 where "SYS_GETCWD = 54"
definition SYS_LSEEK :: u32 where "SYS_LSEEK = 57"

lemmas sys_defs = SYS_WRITE_def SYS_READ_def SYS_EXIT_def SYS_GETPID_def SYS_MALLOC_def SYS_FREE_def SYS_OPEN_def
  SYS_CLOSE_def SYS_TIME_def SYS_YIELD_def SYS_EXEC_def SYS_STAT_def SYS_FORK_def SYS_KILL_def SYS_ALARM_def SYS_SLEEP_def
  SYS_GETTID_def SYS_GETUID_def SYS_GETGID_def SYS_GETPPID_def SYS_DUP_def SYS_DUP2_def SYS_PIPE_def SYS_UNLINK_def
  SYS_MKDIR_def SYS_RMDIR_def SYS_CHMOD_def SYS_UMASK_def SYS_BRK_def SYS_SETSID_def SYS_GETSID_def SYS_GETPGRP_def
  SYS_SETPGRP_def SYS_GETEUID_def SYS_GETEGID_def SYS_RENAME_def SYS_GETCWD_def SYS_LSEEK_def

section \<open>Pointer checks and strings\<close>

definition validate_user_ptr :: "u32 \<Rightarrow> u32 \<Rightarrow> bool" where
  "validate_user_ptr ptr sz =
     (let addr = ptr; end_addr = addr + sz in
      if addr = 0 \<or> addr < USER_SPACE_START then False
      else if end_addr > USER_SPACE_END \<or> end_addr < addr then False
      else True)"

text \<open>The C string at an address; a memory without a terminator from there on gives \<open>None\<close>.\<close>

partial_function (option) read_cstr :: "memory \<Rightarrow> u32 \<Rightarrow> string option" where
  "read_cstr m a = (if m a = 0 then Some [] else Option.bind (read_cstr m (a + 1)) (\<lambda>s. Some (char_of (unat (m a)) # s)))"

section \<open>Calls\<close>

definition do_write :: "u32 \<Rightarrow> u32 \<Rightarrow> u32 \<Rightarrow> kernel \<Rightarrow> (kernel \<times> u32) option" where
  "do_write fd buf count k =
     (if fd = 1 \<or> fd = 2 then
        (if validate_user_ptr buf count then
           (case read_cstr (mem (k_mm k)) buf of
              None \<Rightarrow> None
            | Some s \<Rightarrow> Some (k\<lparr>k_term := terminal_writestring s (k_term k)\<rparr>, count))
         else Some (k, count))
      else Some (k, -1))"

definition do_read :: "u32 \<Rightarrow> u32 \<Rightarrow> u32 \<Rightarrow> u32" where
  "do_read fd buf count = -1"

text \<open>
  \<open>others\<close> is what the machine does between a switch away in \<open>proc_yield\<close> and the switch back: the other
  processes, which are not code of the kernel, and the timer interrupts during them.
\<close>

partial_function (option) sleep_loop :: "(kernel \<Rightarrow> kernel) \<Rightarrow> u32 \<Rightarrow> kernel \<Rightarrow> kernel option" where
  "sleep_loop others target k =
     (if timer_seconds (k_timer k) < target
      then sleep_loop others target (others (k\<lparr>k_sched := proc_yield (k_sched k)\<rparr>))
      else Some k)"

definition cur_pid :: "sched \<Rightarrow> u32" where
  "cur_pid s = (case proc_current s of None \<Rightarrow> 0 | Some p \<Rightarrow> p_pid (procs s ! p))"

abbreviation ret :: "u32 \<Rightarrow> trapframe \<Rightarrow> kernel \<Rightarrow> (trapframe \<times> kernel) option" where
  "ret v tf k \<equiv> Some (tf\<lparr>tf_eax := v\<rparr>, k)"

text \<open>The cases of the switch from \<open>SYS_CLOSE\<close> on.\<close>

definition syscall_rest :: "trapframe \<Rightarrow> kernel \<Rightarrow> (trapframe \<times> kernel) option" where
  "syscall_rest tf k =
     (let n = tf_eax tf; ebx = tf_ebx tf in
      if n = SYS_CLOSE then ret 0 tf k
      else if n = SYS_LSEEK then ret (-1) tf k
      else if n = SYS_STAT then ret (-1) tf k
      else if n = SYS_EXEC then ret (-1) tf k
      else if n = SYS_FORK then ret 0 tf k
      else if n = SYS_KILL then ret (-1) tf k
      else if n = SYS_ALARM then ret 0 tf k
      else if n = SYS_BRK then ret 0 tf k
      else if n = SYS_DUP then ret ebx tf k
      else if n = SYS_DUP2 then ret ebx tf k
      else if n = SYS_PIPE then ret (-1) tf k
      else if n = SYS_CHMOD then ret 0 tf k
      else if n = SYS_MKDIR then
        (if ebx \<noteq> 0 \<and> validate_user_ptr ebx 1 then
           (case read_cstr (mem (k_mm k)) ebx of None \<Rightarrow> None
            | Some path \<Rightarrow> (case vfs_mkdir (Some path) (k_vfs k) of (v, r) \<Rightarrow> ret (word_of_int r) tf (k\<lparr>k_vfs := v\<rparr>)))
         else ret (-1) tf k)
      else if n = SYS_RMDIR \<or> n = SYS_UNLINK then ret 0 tf k
      else if n = SYS_RENAME then ret 0 tf k
      else if n = SYS_UMASK then ret 0 tf k
      else if n = SYS_GETCWD \<or> n = SYS_GETPGRP \<or> n = SYS_GETSID \<or> n = SYS_SETSID then ret 0 tf k
      else if n = SYS_SETPGRP then ret 0 tf k
      else ret (-1) tf k)"

definition syscall_handle :: "(kernel \<Rightarrow> kernel) \<Rightarrow> trapframe \<Rightarrow> kernel \<Rightarrow> (trapframe \<times> kernel) option" where
  "syscall_handle others tf k =
     (let n = tf_eax tf; ebx = tf_ebx tf in
      if n = SYS_WRITE then
        (case do_write ebx (tf_ecx tf) (tf_edx tf) k of None \<Rightarrow> None | Some (k, r) \<Rightarrow> ret r tf k)
      else if n = SYS_READ then ret (do_read ebx (tf_ecx tf) (tf_edx tf)) tf k
      else if n = SYS_EXIT then Some (tf, k\<lparr>k_sched := proc_exit (sint ebx) (k_sched k)\<rparr>)
      else if n = SYS_GETPID then ret (cur_pid (k_sched k)) tf k
      else if n = SYS_GETTID then ret (cur_pid (k_sched k)) tf k
      else if n = SYS_GETPPID then ret 0 tf k
      else if n = SYS_GETUID then ret 0 tf k
      else if n = SYS_GETEUID then ret 0 tf k
      else if n = SYS_GETGID then ret 0 tf k
      else if n = SYS_GETEGID then ret 0 tf k
      else if n = SYS_MALLOC then
        (if ebx < 0x100000 then
           (case kmalloc ebx (k_mm k) of None \<Rightarrow> None | Some (s, p) \<Rightarrow> ret p tf (k\<lparr>k_mm := s\<rparr>))
         else ret 0 tf k)
      else if n = SYS_FREE then
        (if ebx \<noteq> 0 \<and> validate_user_ptr ebx 1 then
           (case kfree ebx (k_mm k) of None \<Rightarrow> None | Some (s, _) \<Rightarrow> ret 0 tf (k\<lparr>k_mm := s\<rparr>))
         else ret 0 tf k)
      else if n = SYS_TIME then ret (timer_seconds (k_timer k)) tf k
      else if n = SYS_YIELD then ret 0 tf (k\<lparr>k_sched := proc_yield (k_sched k)\<rparr>)
      else if n = SYS_SLEEP then
        (let target = timer_seconds (k_timer k) + ebx
         in case sleep_loop others target k of None \<Rightarrow> None | Some k \<Rightarrow> ret 0 tf k)
      else if n = SYS_OPEN then
        (if ebx \<noteq> 0 \<and> validate_user_ptr ebx 1 then
           (case read_cstr (mem (k_mm k)) ebx of None \<Rightarrow> None
            | Some path \<Rightarrow> if vfs_lookup (Some path) (k_vfs k) \<noteq> None then ret 0 tf k else ret (-1) tf k)
         else ret (-1) tf k)
      else syscall_rest tf k)"

definition syscall_init :: "u32 \<Rightarrow> kernel \<Rightarrow> kernel" where
  "syscall_init syscall_handler_asm k = k\<lparr>k_sched := tables_update (idt_set_gate 0x80 syscall_handler_asm 0x08 0xEE) (k_sched k)\<rparr>"


section \<open>Strings in memory\<close>

lemma read_cstr_simps [simp]:
  "m a = 0 \<Longrightarrow> read_cstr m a = Some []"
  "m a \<noteq> 0 \<Longrightarrow> read_cstr m a = map_option (\<lambda>s. char_of (unat (m a)) # s) (read_cstr m (a + 1))"
  by (simp_all add: read_cstr.simps [of m a] map_conv_bind_option comp_def)

lemma read_cstr_ends: "m (a + word_of_nat n) = 0 \<Longrightarrow> \<exists>s. read_cstr m a = Some s \<and> length s \<le> n"
proof (induction n arbitrary: a)
  case (Suc n)
  show ?case
  proof (cases "m a = 0")
    case False
    have "m ((a + 1) + word_of_nat n) = 0" using Suc.prems by (simp add: add.assoc)
    from Suc.IH [OF this] obtain s where "read_cstr m (a + 1) = Some s" "length s \<le> n" by blast
    then show ?thesis using False by simp
  qed simp
qed simp

lemma char_of_unat_u8: "b \<noteq> 0 \<Longrightarrow> char_of (unat b) \<noteq> NUL" for b :: u8
proof
  assume "char_of (unat b) = NUL"
  then have "of_char (char_of (unat b)) = (0 :: nat)" by simp
  moreover have "unat b mod 256 = unat b" using unsigned_less [of b, where 'a = nat] by simp
  ultimately have "unat b = 0" by simp
  moreover assume "b \<noteq> 0"
  ultimately show False by (simp add: unat_eq_zero)
qed

lemma read_cstr_string: "read_cstr m a = Some s \<Longrightarrow> c_string s"
proof (induction s arbitrary: a)
  case (Cons c s)
  then have "m a \<noteq> 0" by (metis list.distinct(1) option.inject read_cstr_simps(1))
  then show ?case using Cons by (auto simp: char_of_unat_u8)
qed simp

text \<open>A memory that holds a zero byte anywhere ends every string: the address counter wraps and reaches it.\<close>

lemma read_cstr_total: "m z = 0 \<Longrightarrow> \<exists>s. read_cstr m a = Some s \<and> c_string s"
proof -
  assume "m z = 0"
  then have "m (a + word_of_nat (unat (z - a))) = 0" by simp
  then show ?thesis using read_cstr_ends read_cstr_string by blast
qed


section \<open>Pointer check\<close>

text \<open>
  C28: the pointer check of the system calls is exact and immune to wrap-around: it accepts exactly the ranges that
  lie in user space, from \<open>0x08000000\<close> up to \<open>0xC0000000\<close>, with the length taken as a natural number.
\<close>

theorem validate_user_ptr_exact:
  "validate_user_ptr p n \<longleftrightarrow> 0x08000000 \<le> unat p \<and> unat p + unat n \<le> 0xC0000000"
proof (cases "unat p + unat n < 2 ^ 32")
  case True
  then have "unat (p + n) = unat p + unat n" by (simp add: unat_plus_no_wrap)
  then show ?thesis
    by (auto simp: validate_user_ptr_def Let_def USER_SPACE_START_def USER_SPACE_END_def word_less_nat_alt word_le_nat_alt
        not_less not_le)
next
  case False
  have "unat (p + n) = unat p + unat n - 2 ^ 32" using False u32_bound [of p] u32_bound [of n] by (simp add: unat_word_ariths mod_if)
  then have "p + n < p" using False u32_bound [of n] by (simp add: word_less_nat_alt)
  then show ?thesis using False by (simp add: validate_user_ptr_def Let_def)
qed

section \<open>Every call returns and keeps the kernel consistent\<close>

definition returns_ok :: "trapframe \<Rightarrow> (trapframe \<times> kernel) option \<Rightarrow> bool" where
  "returns_ok tf r \<longleftrightarrow> (\<exists>v k'. r = Some (tf\<lparr>tf_eax := v\<rparr>, k') \<and> kernel_inv k')"

lemma returns_ok_ret [simp]: "kernel_inv k \<Longrightarrow> returns_ok tf (ret v tf k)"
  by (auto simp: returns_ok_def)

lemma returns_ok_if: "(c \<Longrightarrow> returns_ok tf a) \<Longrightarrow> (\<not> c \<Longrightarrow> returns_ok tf b) \<Longrightarrow> returns_ok tf (if c then a else b)"
  by simp

lemma returns_ok_keep: "kernel_inv k \<Longrightarrow> returns_ok tf (Some (tf, k))"
  unfolding returns_ok_def by (rule exI [of _ "tf_eax tf"]) simp

lemma do_write_ok:
  assumes "kernel_inv k" "mem (k_mm k) z = 0"
  shows "\<exists>k' r. do_write fd buf n k = Some (k', r) \<and> kernel_inv k'"
proof -
  obtain s where "read_cstr (mem (k_mm k)) buf = Some s" using read_cstr_total [of "mem (k_mm k)" z buf, OF assms(2)] by blast
  moreover have "kernel_inv (k\<lparr>k_term := terminal_writestring s (k_term k)\<rparr>)"
    using cursor_writestring [OF kernel_invD(4) [OF assms(1)]] assms(1) by blast
  ultimately show ?thesis using assms(1) by (auto simp: do_write_def)
qed

lemma kmalloc_ok:
  assumes "kernel_inv k"
  shows "\<exists>s p. kmalloc n (k_mm k) = Some (s, p) \<and> kernel_inv (k\<lparr>k_mm := s\<rparr>)"
proof -
  obtain bs where bs: "heap_inv (k_mm k) bs" using kernel_invD(1) [OF assms] by blast
  show ?thesis
  proof (cases "n = 0")
    case True
    then show ?thesis using assms bs by (auto simp: kmalloc_def)
  next
    case False
    then show ?thesis using kmalloc_spec [OF bs False] assms bs by (auto split: option.splits)
  qed
qed

lemma kfree_ok:
  assumes "kernel_inv k"
  shows "\<exists>s r. kfree p (k_mm k) = Some (s, r) \<and> kernel_inv (k\<lparr>k_mm := s\<rparr>)"
proof -
  obtain bs where bs: "heap_inv (k_mm k) bs" using kernel_invD(1) [OF assms] by blast
  show ?thesis using kfree_spec [OF bs, of p] assms bs by (auto split: if_splits)
qed

lemma vfs_mkdir_inv: "vfs_inv s \<Longrightarrow> c_string p \<Longrightarrow> vfs_inv (fst (vfs_mkdir (Some p) s))"
  by (rule vfs_step_inv [OF vfs_step.mkdir]) (simp_all add: cstr_ok_def)

lemma syscall_returns:
  assumes k: "kernel_inv k" and z: "mem (k_mm k) z = 0" and n: "tf_eax tf \<noteq> SYS_SLEEP"
  shows "returns_ok tf (syscall_handle others tf k)"
proof -
  have w: "returns_ok tf (case do_write a b c k of None \<Rightarrow> None | Some (k, r) \<Rightarrow> ret r tf k)" for a b c
    using do_write_ok [OF k z, of a b c] by (auto simp: returns_ok_def)
  have m: "returns_ok tf (case kmalloc a (k_mm k) of None \<Rightarrow> None | Some (s, p) \<Rightarrow> ret p tf (k\<lparr>k_mm := s\<rparr>))" for a
    using kmalloc_ok [OF k, of a] by (auto simp: returns_ok_def)
  have f: "returns_ok tf (case kfree a (k_mm k) of None \<Rightarrow> None | Some (s, _) \<Rightarrow> ret 0 tf (k\<lparr>k_mm := s\<rparr>))" for a
    using kfree_ok [OF k, of a] by (auto simp: returns_ok_def)
  have o: "returns_ok tf (case read_cstr (mem (k_mm k)) a of None \<Rightarrow> None
       | Some path \<Rightarrow> if vfs_lookup (Some path) (k_vfs k) \<noteq> None then ret 0 tf k else ret (-1) tf k)" for a
    using read_cstr_total [of "mem (k_mm k)" z a, OF z] k by auto
  have d: "returns_ok tf (case read_cstr (mem (k_mm k)) a of None \<Rightarrow> None
       | Some path \<Rightarrow> (case vfs_mkdir (Some path) (k_vfs k) of (v, r) \<Rightarrow> ret (word_of_int r) tf (k\<lparr>k_vfs := v\<rparr>)))" for a
  proof -
    obtain s where s: "read_cstr (mem (k_mm k)) a = Some s" "c_string s"
      using read_cstr_total [of "mem (k_mm k)" z a, OF z] by blast
    have "kernel_inv (k\<lparr>k_vfs := fst (vfs_mkdir (Some s) (k_vfs k))\<rparr>)"
      using vfs_mkdir_inv [OF kernel_invD(2) [OF k] s(2)] k by blast
    then show ?thesis using s(1) by (simp add: case_prod_unfold)
  qed
  have e: "kernel_inv (k\<lparr>k_sched := proc_exit c (k_sched k)\<rparr>)" "kernel_inv (k\<lparr>k_sched := proc_yield (k_sched k)\<rparr>)" for c
    using k proc_exit_inv proc_yield_inv kernel_invD(3) [OF k] by blast+
  have s: "P" if "tf_eax tf = SYS_SLEEP" for P using that n by simp
  show ?thesis
    unfolding syscall_handle_def syscall_rest_def Let_def
    by (intro returns_ok_if w m f o d returns_ok_keep e returns_ok_ret k; erule s)
qed

text \<open>
  C11: apart from \<open>SYS_SLEEP\<close>, every system call returns, whatever the number and the arguments, and keeps the
  invariants of the heap, the file system, the process table, the terminal, the keyboard, the program table and the
  shell; of the caller's registers only \<open>eax\<close> changes. The memory must hold a zero byte somewhere, so that the
  strings that are read have an end.
\<close>

theorem syscall_returns_ok:
  assumes "kernel_inv k" "mem (k_mm k) z = 0" "tf_eax tf \<noteq> SYS_SLEEP"
  shows "\<exists>v k'. syscall_handle others tf k = Some (tf\<lparr>tf_eax := v\<rparr>, k') \<and> kernel_inv k'"
  using syscall_returns [OF assms] by (simp add: returns_ok_def)

lemma demo_zero: "mem (k_mm demo_kernel) 0 = 0"
proof -
  have "mem boot_heap 0 = 0"
    by (simp add: boot_heap_def mm_init_def Let_def blank_mm_def set_hdr_size_def set_hdr_magic_def set_hdr_used_def
        store32_def first_block_def ALIGN8_def)
  then show ?thesis by (simp add: demo_kernel_def)
qed

definition malloc_frame :: "u32 \<Rightarrow> trapframe" where
  "malloc_frame n = (user_frame 0x08000000 0)\<lparr>tf_eax := SYS_MALLOC, tf_ebx := n\<rparr>"

theorem syscall_returns_ok_witness:
  "\<exists>v k'. syscall_handle (\<lambda>k. k) (malloc_frame 64) demo_kernel = Some ((malloc_frame 64)\<lparr>tf_eax := v\<rparr>, k') \<and> kernel_inv k'"
  by (rule syscall_returns_ok [OF demo_kernel_inv demo_zero]) (simp add: malloc_frame_def sys_defs)

section \<open>Sleeping\<close>

text \<open>What the other processes do lets the clock run on (below the target), or leaves it alone.\<close>

definition clock_runs :: "(kernel \<Rightarrow> kernel) \<Rightarrow> u32 \<Rightarrow> u32 \<Rightarrow> bool" where
  "clock_runs others f target \<longleftrightarrow> (\<forall>k. frequency (k_timer k) = f \<and> timer_seconds (k_timer k) < target \<longrightarrow>
     frequency (k_timer (others k)) = f \<and> ticks (k_timer k) < ticks (k_timer (others k)))"

lemma sleep_loop_wakes:
  assumes "clock_runs others f target" "\<forall>k. kernel_inv k \<longrightarrow> kernel_inv (others k)"
  shows "frequency (k_timer k) = f \<Longrightarrow> kernel_inv k \<Longrightarrow>
    \<exists>k'. sleep_loop others target k = Some k' \<and> target \<le> timer_seconds (k_timer k') \<and> kernel_inv k'"
proof (induction "2 ^ 32 - unat (ticks (k_timer k))" arbitrary: k rule: less_induct)
  case less
  show ?case
  proof (cases "timer_seconds (k_timer k) < target")
    case True
    let ?y = "k\<lparr>k_sched := proc_yield (k_sched k)\<rparr>"
    have y: "kernel_inv ?y" using less.prems(2) proc_yield_inv kernel_invD(3) [OF less.prems(2)] by blast
    have o: "frequency (k_timer (others ?y)) = f" "ticks (k_timer k) < ticks (k_timer (others ?y))"
      using assms(1) [unfolded clock_runs_def, rule_format, of ?y] True less.prems(1) by simp_all
    have "2 ^ 32 - unat (ticks (k_timer (others ?y))) < 2 ^ 32 - unat (ticks (k_timer k))"
      using o(2) u32_bound [of "ticks (k_timer (others ?y))"] by (simp add: word_less_nat_alt)
    from less.hyps [OF this o(1)] y assms(2) show ?thesis using True by (subst sleep_loop.simps) simp
  next
    case False
    then show ?thesis using less.prems by (subst sleep_loop.simps) (simp add: not_less linorder_not_le [symmetric])
  qed
qed

lemma sleep_loop_stuck:
  "sleep_loop others target k = Some k' \<Longrightarrow> (\<forall>k. k_timer (others k) = k_timer k) \<longrightarrow>
     k_timer k' = k_timer k \<and> target \<le> timer_seconds (k_timer k')"
proof (erule sleep_loop.raw_induct [rotated])
  fix f others target k k'
  assume IH: "\<And>others target k k'. f others target k = Some k' \<Longrightarrow> (\<forall>k. k_timer (others k) = k_timer k) \<longrightarrow>
      k_timer k' = k_timer k \<and> target \<le> timer_seconds (k_timer k')"
    and eq: "(if timer_seconds (k_timer k) < target then f others target (others (k\<lparr>k_sched := proc_yield (k_sched k)\<rparr>)) else Some k) = Some k'"
  show "(\<forall>k. k_timer (others k) = k_timer k) \<longrightarrow> k_timer k' = k_timer k \<and> target \<le> timer_seconds (k_timer k')"
    using IH [of others target "others (k\<lparr>k_sched := proc_yield (k_sched k)\<rparr>)" k'] eq by (auto split: if_splits)
qed

lemma sleep_loop_inv:
  "sleep_loop others target k = Some k' \<Longrightarrow> (\<forall>k. kernel_inv k \<longrightarrow> kernel_inv (others k)) \<longrightarrow> kernel_inv k \<longrightarrow> kernel_inv k'"
proof (erule sleep_loop.raw_induct [rotated])
  fix f others target k k'
  assume IH: "\<And>others target k k'. f others target k = Some k' \<Longrightarrow> (\<forall>k. kernel_inv k \<longrightarrow> kernel_inv (others k)) \<longrightarrow> kernel_inv k \<longrightarrow> kernel_inv k'"
    and eq: "(if timer_seconds (k_timer k) < target then f others target (others (k\<lparr>k_sched := proc_yield (k_sched k)\<rparr>)) else Some k) = Some k'"
  have "kernel_inv (k\<lparr>k_sched := proc_yield (k_sched k)\<rparr>)" if "kernel_inv k" using that proc_yield_inv kernel_invD(3) [OF that] by blast
  then show "(\<forall>k. kernel_inv k \<longrightarrow> kernel_inv (others k)) \<longrightarrow> kernel_inv k \<longrightarrow> kernel_inv k'"
    using IH [of others target "others (k\<lparr>k_sched := proc_yield (k_sched k)\<rparr>)" k'] eq by (auto split: if_splits)
qed

lemma sleep_call: "tf_eax tf = SYS_SLEEP \<Longrightarrow> syscall_handle others tf k
    = map_option (\<lambda>k. (tf\<lparr>tf_eax := 0\<rparr>, k)) (sleep_loop others (timer_seconds (k_timer k) + tf_ebx tf) k)"
  by (simp add: syscall_handle_def syscall_rest_def Let_def sys_defs split: option.splits)

text \<open>
  C29: \<open>SYS_SLEEP\<close> wakes up if the clock runs while it yields: it then returns 0 at a time not before its target, with
  the kernel consistent; while nothing advances the clock, a call with a target in the future never returns.
\<close>

theorem sleep_wakes:
  assumes "tf_eax tf = SYS_SLEEP" "target = timer_seconds (k_timer k) + tf_ebx tf" "kernel_inv k"
  shows "(clock_runs others (frequency (k_timer k)) target \<and> (\<forall>k. kernel_inv k \<longrightarrow> kernel_inv (others k)) \<longrightarrow>
      (\<exists>k'. syscall_handle others tf k = Some (tf\<lparr>tf_eax := 0\<rparr>, k') \<and> target \<le> timer_seconds (k_timer k') \<and> kernel_inv k'))
    \<and> ((\<forall>k. k_timer (others k) = k_timer k) \<and> timer_seconds (k_timer k) < target \<longrightarrow> syscall_handle others tf k = None)"
proof (intro conjI impI)
  assume "clock_runs others (frequency (k_timer k)) target \<and> (\<forall>k. kernel_inv k \<longrightarrow> kernel_inv (others k))"
  then show "\<exists>k'. syscall_handle others tf k = Some (tf\<lparr>tf_eax := 0\<rparr>, k') \<and> target \<le> timer_seconds (k_timer k') \<and> kernel_inv k'"
    using sleep_loop_wakes [of others _ target k] assms(3) by (auto simp: sleep_call [OF assms(1)] assms(2))
next
  assume s: "(\<forall>k. k_timer (others k) = k_timer k) \<and> timer_seconds (k_timer k) < target"
  have "sleep_loop others target k = None"
    using sleep_loop_stuck [of others target k] s by (cases "sleep_loop others target k") auto
  then show "syscall_handle others tf k = None" by (simp add: sleep_call [OF assms(1)] assms(2))
qed

definition tick_on :: "kernel \<Rightarrow> kernel" where
  "tick_on k = k_timer_update (ticks_update (\<lambda>n. n + 1)) k"

theorem sleep_wakes_witness:
  "\<exists>k'. syscall_handle tick_on ((user_frame 0x08000000 0)\<lparr>tf_eax := SYS_SLEEP, tf_ebx := 2\<rparr>) demo_kernel
       = Some ((user_frame 0x08000000 0)\<lparr>tf_eax := SYS_SLEEP, tf_ebx := 2\<rparr>\<lparr>tf_eax := 0\<rparr>, k')
     \<and> 2 \<le> timer_seconds (k_timer k') \<and> kernel_inv k'"
proof -
  let ?tf = "(user_frame 0x08000000 0)\<lparr>tf_eax := SYS_SLEEP, tf_ebx := 2\<rparr>"
  have t: "frequency (k_timer demo_kernel) = 100" "timer_seconds (k_timer demo_kernel) = 0"
    by (simp_all add: demo_kernel_def blank_kernel_def PIT_FREQ_def timer_seconds_def)
  have inv: "\<forall>k. kernel_inv k \<longrightarrow> kernel_inv (tick_on k)" by (simp add: tick_on_def kernel_inv_def)
  have "ticks u < ticks u + 1" if "frequency u = 100" "timer_seconds u < 2" for u
  proof -
    have "unat (ticks u) div 100 < 2" using that by (simp add: timer_seconds_def word_less_nat_alt unat_div)
    then have "unat (ticks u) < 200" by simp
    then show ?thesis by (simp add: word_less_nat_alt unat_plus_no_wrap)
  qed
  then have "clock_runs tick_on 100 2" by (simp add: clock_runs_def tick_on_def)
  then show ?thesis
    using sleep_wakes [of ?tf "0 + 2" demo_kernel tick_on] inv demo_kernel_inv t by simp
qed

section \<open>Memory from the heap\<close>

lemma kmalloc_below_end:
  assumes inv: "heap_inv s bs" and a: "kmalloc n s = Some (s', p)" and p: "p \<noteq> 0" and n: "unat n + 7 < 2 ^ 32"
  shows "unat p + unat n \<le> unat (heap_end s)"
proof -
  have nz: "n \<noteq> 0" using a p by (auto simp: kmalloc_def)
  obtain q bs' where r: "alloc_spec (unat (heap_start s)) (unat (ALIGN8 n)) bs = Some (q, bs')" "p = word_of_nat q"
    using kmalloc_spec [OF inv nz] a p by (auto split: option.splits)
  obtain k where k: "unat (ALIGN8 n) \<le> k" "q + k \<le> unat (heap_start s) + extent bs"
    using alloc_spec_live [OF r(1)] by metis
  have e: "unat (heap_start s) + extent bs = unat (heap_end s)"
    using heap_invD(1) [OF inv] by (simp add: heap_wf_def)
  then have "unat p = q" using k(2) r(2) u32_bound [of "heap_end s"] by (simp add: unat_of_nat)
  then show ?thesis using k e ALIGN8_no_wrap [OF n] by linarith
qed

text \<open>
  Memory obtained with \<open>SYS_MALLOC\<close> cannot be given back. The heap lies below user space, so the pointer check of
  \<open>SYS_FREE\<close> refuses every pointer \<open>SYS_MALLOC\<close> returns: the call reports 0 and the kernel is unchanged.
\<close>

lemma syscall_free_refuses:
  assumes "heap_inv (k_mm k) bs" "heap_end (k_mm k) \<le> 0x08000000" "n < 0x100000"
    and "syscall_handle others (tf\<lparr>tf_eax := SYS_MALLOC, tf_ebx := n\<rparr>) k = Some (tf', k')"
  shows "syscall_handle others (tf\<lparr>tf_eax := SYS_FREE, tf_ebx := tf_eax tf'\<rparr>) k'
    = Some (tf\<lparr>tf_eax := 0, tf_ebx := tf_eax tf'\<rparr>, k')"
proof -
  obtain s p where sp: "kmalloc n (k_mm k) = Some (s, p)" "tf_eax tf' = p" "k' = k\<lparr>k_mm := s\<rparr>"
    using assms(3,4) by (auto simp: syscall_handle_def syscall_rest_def Let_def sys_defs split: option.splits)
  have "p < USER_SPACE_START" if nz: "p \<noteq> 0"
  proof -
    have n: "n \<noteq> 0" using nz sp(1) by (auto simp: kmalloc_def)
    have "unat n + 7 < 2 ^ 32" using assms(3) by (simp add: word_less_nat_alt)
    from kmalloc_below_end [OF assms(1) sp(1) nz this] n assms(2) show ?thesis
      by (simp add: word_less_nat_alt word_le_nat_alt USER_SPACE_START_def flip: unat_gt_0)
  qed
  then have "\<not> (p \<noteq> 0 \<and> validate_user_ptr p 1)" by (auto simp: validate_user_ptr_def Let_def)
  then show ?thesis by (auto simp: syscall_handle_def syscall_rest_def Let_def sys_defs sp)
qed

end
