(* ===== verification/Numfmt.thy ===== *)
theory Numfmt
  imports Cstring
begin

unbundle bit_operations_syntax

text \<open>
  Number formatting and bounded string building. \<^verbatim>\<open>interrupt.c\<close>, \<^verbatim>\<open>shell.c\<close> and \<^verbatim>\<open>kernel.c\<close> each convert numbers
  with a loop that stores the digits backwards and a second one that turns them round; the buffers are C strings
  that grow to a limit.
\<close>

section \<open>Definitions\<close>

definition digit :: "u32 \<Rightarrow> char" where
  "digit d = char_of (48 + unat d)"

text \<open>\<open>while (v) { tmp[i++] = '0' + v % 10; v /= 10; }\<close>\<close>

function dec_loop :: "u32 \<Rightarrow> string" where
  "dec_loop v = (if v = 0 then [] else digit (v mod 10) # dec_loop (v div 10))"
  by pat_completeness auto
termination
proof (relation "measure unat")
  fix v :: u32 assume "v \<noteq> 0"
  then have "0 < unat v" by (simp add: unat_gt_0)
  then show "(v div 10, v) \<in> measure unat" by (simp add: unat_div)
qed simp

declare dec_loop.simps [simp del]

definition uint_to_str :: "u32 \<Rightarrow> string" where
  "uint_to_str val = (if val = 0 then ''0'' else rev (dec_loop val))"

definition hex_digits :: string where
  "hex_digits = ''0123456789ABCDEF''"

text \<open>\<open>for (i = 7; i >= 0; i--) { h[i] = hex[v & 0xF]; v >>= 4; }\<close>\<close>

primrec hex_loop :: "nat \<Rightarrow> u32 \<Rightarrow> string \<Rightarrow> string" where
  "hex_loop 0 v h = h"
| "hex_loop (Suc n) v h = hex_loop n (drop_bit 4 v) (hex_digits ! unat (v AND 0xF) # h)"

definition hex_string :: "u32 \<Rightarrow> string" where
  "hex_string v = hex_loop 8 v []"

text \<open>The loop \<open>while (*s && p < lim) buf[p++] = *s++\<close>.\<close>

primrec put_chars :: "nat \<Rightarrow> string \<Rightarrow> string \<Rightarrow> string" where
  "put_chars lim buf [] = buf"
| "put_chars lim buf (c # s) = (if length buf < lim then put_chars lim (buf @ [c]) s else buf)"

text \<open>\<open>max - 1\<close> in \<open>size_t\<close> arithmetic.\<close>

definition size_pred :: "nat \<Rightarrow> nat" where
  "size_pred n = (if n = 0 then 2 ^ 32 - 1 else n - 1)"

definition str_append :: "nat \<Rightarrow> string \<Rightarrow> string \<Rightarrow> string" where
  "str_append n s buf = put_chars (size_pred n) buf s"

definition num_append :: "nat \<Rightarrow> u32 \<Rightarrow> string \<Rightarrow> string" where
  "num_append n val buf = put_chars (size_pred n) buf (rev (if val = 0 then ''0'' else dec_loop val))"

section \<open>Values\<close>

definition digit_value :: "char \<Rightarrow> nat" where
  "digit_value c = (if of_char c \<le> (57 :: nat) then of_char c - 48 else of_char c - 55)"

definition numeral_value :: "nat \<Rightarrow> string \<Rightarrow> nat" where
  "numeral_value b s = foldl (\<lambda>n c. b * n + digit_value c) 0 s"

lemma numeral_value_snoc [simp]: "numeral_value b [] = 0" "numeral_value b (s @ [c]) = b * numeral_value b s + digit_value c"
  by (simp_all add: numeral_value_def)

lemma digit_props:
  assumes "unat d < 10"
  shows "digit_value (digit d) = unat d" "digit d \<in> set ''0123456789''" "digit d \<noteq> NUL" "digit d = CHR ''0'' \<longleftrightarrow> d = 0"
proof -
  have "\<forall>n\<in>set [0..<10]. digit_value (char_of (48 + n)) = n \<and> char_of (48 + n) \<in> set ''0123456789''
      \<and> char_of (48 + n) \<noteq> NUL \<and> (char_of (48 + n) = CHR ''0'' \<longleftrightarrow> n = 0)" by code_simp
  moreover have "unat d \<in> set [0..<10]" using assms by simp
  ultimately have "digit_value (digit d) = unat d \<and> digit d \<in> set ''0123456789'' \<and> digit d \<noteq> NUL
      \<and> (digit d = CHR ''0'' \<longleftrightarrow> unat d = 0)" unfolding digit_def by blast
  then show "digit_value (digit d) = unat d" "digit d \<in> set ''0123456789''" "digit d \<noteq> NUL" "digit d = CHR ''0'' \<longleftrightarrow> d = 0"
    unfolding unat_eq_zero by blast+
qed

lemma dec_loop_props:
  "numeral_value 10 (rev (dec_loop v)) = unat v" "set (dec_loop v) \<subseteq> set ''0123456789''" "NUL \<notin> set (dec_loop v)"
  "v \<noteq> 0 \<Longrightarrow> dec_loop v \<noteq> [] \<and> last (dec_loop v) \<noteq> CHR ''0'' \<and> 10 ^ (length (dec_loop v) - 1) \<le> unat v"
proof (induction v rule: dec_loop.induct)
  case (1 v)
  have d: "unat (v mod 10) < 10" by (simp add: unat_mod)
  have q: "unat (v div 10) * 10 + unat (v mod 10) = unat v" by (simp add: unat_div unat_mod)
  { case 1
    show ?case
    proof (cases "v = 0")
      case False
      then show ?thesis using "1.IH"(1) digit_props(1) [OF d] q by (simp add: dec_loop.simps [of v])
    qed (simp add: dec_loop.simps) }
  { case 2 show ?case using "1.IH"(2) digit_props(2) [OF d] by (cases "v = 0") (simp_all add: dec_loop.simps [of v] dec_loop.simps [of 0]) }
  { case 3 show ?case using "1.IH"(3) digit_props(3) [OF d] by (cases "v = 0") (simp_all add: dec_loop.simps [of v] dec_loop.simps [of 0]) }
  { case 4
    show ?case
    proof (cases "v div 10 = 0")
      case True
      then have "v mod 10 = v" using q by (simp add: word_unat_eq_iff)
      then show ?thesis using 4 True digit_props(4) [OF d] by (simp add: dec_loop.simps [of v] dec_loop.simps [of 0] unat_gt_0 Suc_le_eq)
    next
      case False
      from "1.IH"(4) [OF 4 False] obtain x xs where xs: "dec_loop (v div 10) = x # xs" "last (x # xs) \<noteq> CHR ''0''"
        "10 ^ length xs \<le> unat (v div 10)" by (cases "dec_loop (v div 10)") auto
      then show ?thesis using 4 q by (simp add: dec_loop.simps [of v])
    qed }
qed

lemma length_dec_loop: "length (dec_loop v) \<le> 10"
proof (cases "v = 0")
  case False
  show ?thesis
  proof (rule ccontr)
    assume "\<not> length (dec_loop v) \<le> 10"
    then have "(10 :: nat) ^ 10 \<le> 10 ^ (length (dec_loop v) - 1)" by (intro power_increasing) auto
    also have "\<dots> \<le> unat v" using dec_loop_props(4) [OF False] by simp
    also have "\<dots> < 2 ^ 32" by (rule u32_bound)
    finally show False by simp
  qed
qed (simp add: dec_loop.simps)

lemma hex_digit_props: "d < 16 \<Longrightarrow> digit_value (hex_digits ! d) = d \<and> hex_digits ! d \<noteq> NUL"
proof -
  assume "d < 16"
  then have "d \<in> set [0..<16]" by simp
  moreover have "\<forall>d\<in>set [0..<16]. digit_value (hex_digits ! d) = d \<and> hex_digits ! d \<noteq> NUL" by code_simp
  ultimately show ?thesis by blast
qed

lemma numeral_value_append: "numeral_value b (s @ t) = numeral_value b s * b ^ length t + numeral_value b t"
  by (induction t rule: rev_induct) (simp_all add: algebra_simps flip: append_assoc)

lemma hex_loop_props:
  "numeral_value 16 (hex_loop n v h) = unat v mod 16 ^ n * 16 ^ length h + numeral_value 16 h"
  "length (hex_loop n v h) = n + length h" "NUL \<notin> set h \<Longrightarrow> NUL \<notin> set (hex_loop n v h)"
proof (induction n arbitrary: v h)
  case (Suc n)
  have m: "unat (v AND 0xF) = unat v mod 16" "unat (drop_bit 4 v) = unat v div 16" for v :: u32
  proof -
    have "v AND 0xF = take_bit 4 v" by (simp add: take_bit_eq_mask mask_numeral)
    then show "unat (v AND 0xF) = unat v mod 16" by (simp add: take_bit_eq_mod unat_mod)
    show "unat (drop_bit 4 v) = unat v div 16" by (simp add: drop_bit_eq_div unat_div)
  qed
  have d: "digit_value (hex_digits ! (unat v mod 16)) = unat v mod 16" "hex_digits ! (unat v mod 16) \<noteq> NUL" for v :: u32
    using hex_digit_props [of "unat v mod 16"] by simp_all
  { case 1
    have v: "numeral_value 16 (c # h) = digit_value c * 16 ^ length h + numeral_value 16 h" for c
      using numeral_value_append [of 16 "[c]" h] by (simp add: numeral_value_def)
    have "unat v mod 16 ^ Suc n = unat v div 16 mod 16 ^ n * 16 + unat v mod 16"
      using mod_mult2_eq [of "unat v" 16 "16 ^ n"] by simp
    then show ?case using Suc.IH(1) [of "drop_bit 4 v" "hex_digits ! unat (v AND 0xF) # h"]
      by (simp add: v m d(1) algebra_simps) }
  { case 2 show ?case using Suc.IH(2) by simp }
  { case 3 then show ?case by (simp add: Suc.IH(3) m(1) not_sym [OF d(2)]) }
qed simp_all

lemma put_chars_eq: "length buf \<le> lim \<Longrightarrow> put_chars lim buf s = take lim (buf @ s)"
  by (induction s arbitrary: buf) (auto simp: take_Cons' Suc_diff_Suc)

lemma uint_to_str_string: "c_string (uint_to_str v)"
  using dec_loop_props(3) [of v] by (simp add: uint_to_str_def c_string_def)

lemma num_append_str: "num_append n v buf = str_append n (uint_to_str v) buf"
  by (simp add: num_append_def str_append_def uint_to_str_def)

section \<open>Properties\<close>

text \<open>
  C30: numbers are printed exactly. The decimal string of a 32-bit number has its value, at most ten characters, all of
  them digits, so that it fits the twelve-byte buffers, and no leading zero; the hexadecimal string has its value
  and eight characters.
\<close>

theorem number_strings:
  "numeral_value 10 (uint_to_str v) = unat v \<and> length (uint_to_str v) \<le> 10 \<and> set (uint_to_str v) \<subseteq> set ''0123456789''
   \<and> (hd (uint_to_str v) = CHR ''0'' \<longleftrightarrow> v = 0) \<and> numeral_value 16 (hex_string v) = unat v \<and> length (hex_string v) = 8"
proof -
  have h: "numeral_value 16 (hex_string v) = unat v" "length (hex_string v) = 8"
    using hex_loop_props(1) [of 8 v "[]"] hex_loop_props(2) [of 8 v "[]"] u32_bound [of v] by (simp_all add: hex_string_def)
  show ?thesis
  proof (cases "v = 0")
    case True
    then show ?thesis using h by (simp add: uint_to_str_def numeral_value_def digit_value_def)
  next
    case False
    then show ?thesis using h dec_loop_props [of v] length_dec_loop [of v] by (simp add: uint_to_str_def hd_rev)
  qed
qed

end
