(* ===== verification/Interrupt.thy ===== *)
theory Interrupt
  imports Syscall Numfmt
begin

unbundle bit_operations_syntax

text \<open>
  The common interrupt handler of \<^verbatim>\<open>src/src/kernel/interrupt.c\<close>: faults end the process that caused them or stop
  the machine, the timer and keyboard interrupts go to their drivers, and \<open>INT 0x80\<close> to the system calls. A handler
  that stops the machine with \<open>cli; hlt\<close> gives \<open>Halted\<close>.
\<close>

section \<open>Definitions\<close>

datatype machine_run = Running trapframe kernel | Halted kernel

definition print_hex :: "u32 \<Rightarrow> console_call" where
  "print_hex v = W (hex_string v)"

definition print_dec :: "u32 \<Rightarrow> console_call" where
  "print_dec v = (if v = 0 then W ''0'' else W (rev (dec_loop v)))"

definition fault_name :: "u32 \<Rightarrow> string" where
  "fault_name n = (if n = 0 then ''division error'' else if n = 6 then ''invalid opcode''
     else if n = 13 then ''general protection'' else if n = 14 then ''page fault'' else ''exception'')"

definition user_fault :: "trapframe \<Rightarrow> kernel \<Rightarrow> kernel" where
  "user_fault tf k =
     (let err_c = vga_entry_color VGA_COLOR_LIGHT_RED VGA_COLOR_BLACK;
          body = vga_entry_color VGA_COLOR_LIGHT_GREY VGA_COLOR_BLACK;
          p = proc_current (k_sched k);
          k = emit [C err_c, W (NL @ ''[fault] ''), W (fault_name (tf_int_no tf)), W '' in pid ''] k;
          k = (case p of Some i \<Rightarrow> emit [print_dec (p_pid (procs (k_sched k) ! i))] k | None \<Rightarrow> k);
          k = emit [W '' at 0x'', print_hex (tf_eip tf)] k;
          k = (if tf_int_no tf = 13 \<or> tf_int_no tf = 14 then emit [W '' err=0x'', print_hex (tf_err_code tf)] k else k);
          k = emit [C body, W NL] k
      in k\<lparr>k_sched := proc_exit (-1) (k_sched k)\<rparr>)"

definition kernel_panic :: "trapframe \<Rightarrow> kernel \<Rightarrow> kernel" where
  "kernel_panic tf k =
     emit [C (vga_entry_color VGA_COLOR_LIGHT_RED VGA_COLOR_BLACK), W (NL @ NL @ ''KERNEL PANIC: ''), W (fault_name (tf_int_no tf)),
           W '' at 0x'', print_hex (tf_eip tf), W (NL @ ''System halted.'')] k"

text \<open>\<open>scancode\<close> is the byte in the keyboard's data port; \<open>others\<close> is the parameter of the system calls.\<close>

definition interrupt_dispatch :: "(kernel \<Rightarrow> kernel) \<Rightarrow> u8 \<Rightarrow> trapframe \<Rightarrow> kernel \<Rightarrow> machine_run option" where
  "interrupt_dispatch others scancode tf k =
     (let n = tf_int_no tf in
      if n = 0 \<or> n = 6 \<or> n = 13 \<or> n = 14 then
        (if (tf_cs tf AND 3) = 3 then Some (Running tf (user_fault tf k)) else Some (Halted (kernel_panic tf k)))
      else if n = 32 then
        (case timer_tick tf (k_timer k, k_sched k) of (t, s) \<Rightarrow> Some (Running tf (k\<lparr>k_timer := t, k_sched := s\<rparr>)))
      else if n = 33 then
        (case keyboard_irq scancode (k_kbd k, k_term k) of (b, t) \<Rightarrow>
           Some (Running tf (k_outb 0x20 0x20 (k\<lparr>k_kbd := b, k_term := t\<rparr>))))
      else if n = 0x80 then
        (case syscall_handle others tf k of None \<Rightarrow> None | Some (tf, k) \<Rightarrow> Some (Running tf k))
      else Some (Running tf k))"

section \<open>Drivers keep the kernel consistent\<close>

lemma print_dec_eq: "print_dec v = W (uint_to_str v)"
  by (simp add: print_dec_def uint_to_str_def)

lemma schedule_keeps_inv: "sched_inv s \<Longrightarrow> sched_inv (schedule s)"
  using proc_yield_inv [of s] by (simp add: proc_yield_def)

lemma timer_tick_inv:
  assumes "kernel_inv k" "timer_tick tf (k_timer k, k_sched k) = (t, s)"
  shows "kernel_inv (k\<lparr>k_timer := t, k_sched := s\<rparr>)"
proof -
  have "sched_inv s" using assms(2) kernel_invD(3) [OF assms(1)] schedule_keeps_inv
    by (auto simp: timer_tick_def Let_def split: if_splits)
  then show ?thesis using assms(1) by (simp add: kernel_inv_def)
qed

definition driver_ok :: "keyboard \<times> terminal \<Rightarrow> bool" where
  "driver_ok r \<longleftrightarrow> kb_ok (fst r) \<and> cursor_ok (snd r)"

lemma driver_ok_if: "(c \<Longrightarrow> driver_ok a) \<Longrightarrow> (\<not> c \<Longrightarrow> driver_ok b) \<Longrightarrow> driver_ok (if c then a else b)"
  by simp

lemma kb_ok_modifiers [simp]:
  "kb_ok (k\<lparr>shift_pressed := b, kb_state := v\<rparr>) = kb_ok k" "kb_ok (k\<lparr>ctrl_pressed := b, kb_state := v\<rparr>) = kb_ok k"
  "kb_ok (k\<lparr>alt_pressed := b, kb_state := v\<rparr>) = kb_ok k" "kb_ok (k\<lparr>caps_lock := b, kb_state := v\<rparr>) = kb_ok k"
  by (simp_all add: kb_ok_def kb_contents_def)

lemma keyboard_irq_ok:
  assumes "kb_ok k" "cursor_ok t"
  shows "driver_ok (keyboard_irq c (k, t))"
  unfolding keyboard_irq_def Let_def case_prod_conv
  by (intro driver_ok_if) (simp_all add: driver_ok_def assms kb_put_ok cursor_putchar)

lemma keyboard_irq_inv:
  assumes "kernel_inv k" "keyboard_irq c (k_kbd k, k_term k) = (b, t)"
  shows "kernel_inv (k\<lparr>k_kbd := b, k_term := t\<rparr>)"
  using keyboard_irq_ok [OF kernel_invD(5,4) [OF assms(1)], of c] assms by (simp add: driver_ok_def kernel_inv_def)

lemma user_fault_inv: "kernel_inv k \<Longrightarrow> kernel_inv (user_fault tf k)"
  unfolding user_fault_def Let_def
  by (rule kernel_inv_update(3)) (auto intro!: proc_exit_inv simp: kernel_invD(3) split: option.splits)

lemma user_fault_frame:
  "k_mm (user_fault tf k) = k_mm k" "k_vfs (user_fault tf k) = k_vfs k" "k_timer (user_fault tf k) = k_timer k"
  "k_kbd (user_fault tf k) = k_kbd k" "k_progs (user_fault tf k) = k_progs k" "k_shell (user_fault tf k) = k_shell k"
  "k_sched (user_fault tf k) = proc_exit (-1) (k_sched k)"
  by (simp_all add: user_fault_def Let_def split: option.splits)

section \<open>Properties\<close>

lemma dispatch_returns:
  assumes k: "kernel_inv k" and z: "mem (k_mm k) z = 0" and n: "tf_int_no tf = 0x80 \<Longrightarrow> tf_eax tf \<noteq> SYS_SLEEP"
    and r: "\<not> (tf_int_no tf \<in> {0, 6, 13, 14} \<and> (tf_cs tf AND 3) \<noteq> 3)"
  shows "\<exists>tf' k'. interrupt_dispatch others c tf k = Some (Running tf' k') \<and> kernel_inv k'"
proof -
  obtain t s where t: "timer_tick tf (k_timer k, k_sched k) = (t, s)" by fastforce
  obtain b u where b: "keyboard_irq c (k_kbd k, k_term k) = (b, u)" by fastforce
  consider "tf_int_no tf \<in> {0, 6, 13, 14}" | "tf_int_no tf = 32" | "tf_int_no tf = 33" | "tf_int_no tf = 0x80"
    | "tf_int_no tf \<notin> {0, 6, 13, 14, 32, 33, 0x80}" by blast
  then show ?thesis
  proof cases
    case 1
    then show ?thesis using r user_fault_inv [OF k, of tf] by (auto simp: interrupt_dispatch_def)
  next
    case 2
    then show ?thesis using timer_tick_inv [OF k t] by (simp add: interrupt_dispatch_def t)
  next
    case 3
    then show ?thesis using keyboard_irq_inv [OF k b] by (simp add: interrupt_dispatch_def b)
  next
    case 4
    from syscall_returns [OF k z n [OF 4], of others] show ?thesis by (auto simp: interrupt_dispatch_def 4 returns_ok_def)
  next
    case 5
    then show ?thesis using k by (simp add: interrupt_dispatch_def Let_def)
  qed
qed

text \<open>
  C10: what becomes of every interrupt, in a consistent kernel whose memory holds a zero byte somewhere, so that strings end.
  A fault in kernel mode stops the machine after its report. The sleep call returns 0 exactly when its wait ends, with all component
  invariants intact if what runs meanwhile keeps them. Every other interrupt is handled and returns with all
  component invariants intact.
\<close>

theorem interrupt_dispatch_total:
  assumes "kernel_inv k" "mem (k_mm k) z = 0"
  shows "if tf_int_no tf \<in> {0, 6, 13, 14} \<and> (tf_cs tf AND 3) \<noteq> 3
    then interrupt_dispatch others c tf k = Some (Halted (kernel_panic tf k))
    else if tf_int_no tf = 0x80 \<and> tf_eax tf = SYS_SLEEP
    then interrupt_dispatch others c tf k
          = map_option (Running (tf\<lparr>tf_eax := 0\<rparr>)) (sleep_loop others (timer_seconds (k_timer k) + tf_ebx tf) k)
      \<and> ((\<forall>k. kernel_inv k \<longrightarrow> kernel_inv (others k)) \<longrightarrow>
          (\<forall>tf' k'. interrupt_dispatch others c tf k = Some (Running tf' k') \<longrightarrow> kernel_inv k'))
    else \<exists>tf' k'. interrupt_dispatch others c tf k = Some (Running tf' k') \<and> kernel_inv k'"
proof (cases "tf_int_no tf = 0x80 \<and> tf_eax tf = SYS_SLEEP")
  case True
  then have "interrupt_dispatch others c tf k
      = map_option (Running (tf\<lparr>tf_eax := 0\<rparr>)) (sleep_loop others (timer_seconds (k_timer k) + tf_ebx tf) k)"
    by (auto simp: interrupt_dispatch_def sleep_call split: option.splits)
  then show ?thesis using True sleep_loop_inv [where k = k] assms(1) by auto
next
  case False
  then show ?thesis using dispatch_returns [OF assms, of tf others c] by (auto simp: interrupt_dispatch_def)
qed

theorem interrupt_dispatch_total_witness:
  "\<exists>tf' k'. interrupt_dispatch (\<lambda>k. k) 0x1E ((user_frame 0x08000000 0)\<lparr>tf_int_no := 14\<rparr>) demo_kernel = Some (Running tf' k') \<and> kernel_inv k'"
  using interrupt_dispatch_total [OF demo_kernel_inv demo_zero, of "(user_frame 0x08000000 0)\<lparr>tf_int_no := 14\<rparr>" "\<lambda>k. k" "0x1E"]
  by (simp add: user_frame_def SEG_UCODE_def)

lemma proc_exit_effect:
  assumes inv: "sched_inv s" and c: "current_proc s = Some c" "p_pid (procs s ! c) \<noteq> 0"
  shows "\<exists>n. n \<noteq> c \<and> slot_state s n = PROC_READY \<and> current_proc (proc_exit code s) = Some n
    \<and> (\<forall>i. slot_state (proc_exit code s) i = (if i = c then PROC_ZOMBIE else if i = n then PROC_RUNNING else slot_state s i))
    \<and> p_exit_code (procs (proc_exit code s) ! c) = code"
proof -
  define u where "u = upd_proc c (\<lambda>p. p\<lparr>p_state := PROC_ZOMBIE, p_exit_code := code\<rparr>) s"
  have wf: "sched_wf s c" "pids_ok s" "c < length (procs s)" using inv c(1) by (auto elim!: sched_invE simp: sched_wf_def)
  note u = exit_wf [OF wf(1) c(2) wf(2), of code, folded u_def]
  have "rr_next u c \<noteq> None" using wf_idle [OF u(1)] u(3) [of c] by auto
  then obtain n where n: "rr_next u c = Some n" by blast
  have cu: "c < length (procs u)" "c < PROC_MAX" using u(1) by (auto simp: sched_wf_def)
  note sw = schedule_switch [OF u(1) n] and st = schedule_states [OF u(1) n]
  have e: "proc_exit code s = schedule u" using c by (simp add: proc_exit_def u_def)
  have ready: "slot_state u n = PROC_READY" "n < length (procs u)"
    using rr_next_Some [OF n cu(2)] u(1) by (auto simp: sched_wf_def)
  have "p_exit_code (procs (schedule u) ! c) = p_exit_code (procs u ! c)"
    unfolding sw(1) using cu sw(2) by (simp add: swtch_def Let_def nth_list_update)
  also have "\<dots> = code" using wf(3) by (simp add: u_def)
  finally show ?thesis
    using e st(1,2) u(3) sw(2) ready(1) by (intro exI [of _ n]) auto
qed

text \<open>
  C31: a fault in user mode is contained. The process that caused it becomes a zombie with exit code -1, the processor
  goes to a process that was ready, no other process changes its state, and heap, file system, timer, keyboard, program
  table and shell are untouched.
\<close>

theorem user_fault_contained:
  assumes "kernel_inv k" "tf_int_no tf \<in> {0, 6, 13, 14}" "(tf_cs tf AND 3) = 3"
    and "current_proc (k_sched k) = Some c" "p_pid (procs (k_sched k) ! c) \<noteq> 0"
  shows "\<exists>k' n. interrupt_dispatch others sc tf k = Some (Running tf k') \<and> kernel_inv k'
    \<and> n \<noteq> c \<and> slot_state (k_sched k) n = PROC_READY \<and> current_proc (k_sched k') = Some n
    \<and> p_exit_code (procs (k_sched k') ! c) = -1
    \<and> (\<forall>i. slot_state (k_sched k') i = (if i = c then PROC_ZOMBIE else if i = n then PROC_RUNNING else slot_state (k_sched k) i))
    \<and> k_mm k' = k_mm k \<and> k_vfs k' = k_vfs k \<and> k_timer k' = k_timer k \<and> k_kbd k' = k_kbd k \<and> k_progs k' = k_progs k
    \<and> k_shell k' = k_shell k"
proof -
  have "interrupt_dispatch others sc tf k = Some (Running tf (user_fault tf k))"
    using assms(2,3) by (auto simp: interrupt_dispatch_def)
  then show ?thesis
    using proc_exit_effect [OF kernel_invD(3) [OF assms(1)] assms(4,5), of "-1"] user_fault_inv [OF assms(1)]
    by (auto simp: user_fault_frame)
qed

text \<open>A kernel that runs its first user process.\<close>

definition busy_kernel :: kernel where
  "busy_kernel = demo_kernel\<lparr>k_sched := proc_yield two_procs\<rparr>"

lemma two_procs_next: "sched_wf two_procs 0" "rr_next two_procs 0 = Some 1" "p_pid (procs two_procs ! 1) = 1"
proof -
  have e: "entry_ok 0x08000000" by (simp add: entry_ok_def)
  note p = proc_create_ok(3) [OF e blank_sched_layout(3,1)] proc_create_states [OF e blank_sched_layout(3,1)]
  have "current_proc two_procs = Some 0" unfolding two_procs_def p(1) by (simp add: proc_init_def Let_def)
  then show "sched_wf two_procs 0" using two_procs_facts(1) by (auto simp: sched_inv_def sched_wf_def)
  show "rr_next two_procs 0 = Some 1"
    using two_procs_facts(2) by (simp add: rr_next_def rr_order_def PROC_MAX_def upt_conv_Cons)
  show "p_pid (procs two_procs ! 1) = 1" unfolding two_procs_def p by (simp add: blank_sched_inv)
qed

lemma busy_kernel_facts:
  "kernel_inv busy_kernel" "current_proc (k_sched busy_kernel) = Some 1" "p_pid (procs (k_sched busy_kernel) ! 1) \<noteq> 0"
proof -
  show "kernel_inv busy_kernel"
    unfolding busy_kernel_def using demo_kernel_inv proc_yield_inv [OF two_procs_facts(1)] by blast
  show "current_proc (k_sched busy_kernel) = Some 1" "p_pid (procs (k_sched busy_kernel) ! 1) \<noteq> 0"
    using schedule_states(2,3) [OF two_procs_next(1,2)] two_procs_next(3) by (simp_all add: busy_kernel_def proc_yield_def)
qed

theorem user_fault_contained_witness:
  "\<exists>k' n. interrupt_dispatch (\<lambda>k. k) 0 ((user_frame 0x08000000 0)\<lparr>tf_int_no := 6\<rparr>) busy_kernel
     = Some (Running ((user_frame 0x08000000 0)\<lparr>tf_int_no := 6\<rparr>) k') \<and> current_proc (k_sched k') = Some n \<and> n \<noteq> 1"
proof -
  have "tf_int_no ((user_frame 0x08000000 0)\<lparr>tf_int_no := 6\<rparr>) \<in> {0, 6, 13, 14}"
    "(tf_cs ((user_frame 0x08000000 0)\<lparr>tf_int_no := 6\<rparr>) AND 3) = 3" by (simp_all add: user_frame_def SEG_UCODE_def)
  from user_fault_contained [OF busy_kernel_facts(1) this busy_kernel_facts(2,3), of "\<lambda>k. k" 0] show ?thesis by blast
qed

end
