(* ===== verification/Procfs.thy ===== *)
theory Procfs
  imports Interrupt
begin

unbundle bit_operations_syntax

text \<open>
  The readers behind \<^verbatim>\<open>/proc\<close> (\<^verbatim>\<open>kernel.c\<close>) and reading a file of the running kernel, which calls them. A reader
  returns the length of what it stored and the C string it stored. The memory reader walks the heap, so reading may
  not end on a corrupted heap; the result is then \<open>None\<close>.
\<close>

definition ERON_VERSION :: string where "ERON_VERSION = ''0.3.0''"
definition ERON_CODENAME :: string where "ERON_CODENAME = ''Nova''"
definition ERON_AUTHOR :: string where "ERON_AUTHOR = ''Llucs''"
definition ERON_HOSTNAME :: string where "ERON_HOSTNAME = ''eron''"
definition ERON_USER :: string where "ERON_USER = ''root''"
definition ERON_SHELL :: string where "ERON_SHELL = ''esh''"
definition ERON_SHELL_VER :: string where "ERON_SHELL_VER = ''1.0''"

text \<open>The four characters of a word in memory order.\<close>

definition word_chars :: "u32 \<Rightarrow> char list" where
  "word_chars v = map (\<lambda>i. char_of (unat (drop_bit (8 * i) v AND 0xFF))) [0..<4]"

definition cpu_vendor :: "machine \<Rightarrow> string" where
  "cpu_vendor m = (case m_cpuid m 0 of (eax, ebx, ecx, edx) \<Rightarrow> as_cstr (word_chars ebx @ word_chars edx @ word_chars ecx))"

definition proc_cpuinfo_read :: "machine \<Rightarrow> nat \<Rightarrow> int \<times> string" where
  "proc_cpuinfo_read m sz =
     (let vendor = cpu_vendor m in
      case m_cpuid m 1 of (eax, ebx, ecx, edx) \<Rightarrow>
      let b = str_append sz (''processor : 0'' @ NL @ ''vendor    : '') '''';
          b = str_append sz vendor b;
          b = str_append sz (NL @ ''family    : '') b;
          b = num_append sz (drop_bit 8 eax AND 0xF) b;
          b = str_append sz (NL @ ''model     : '') b;
          b = num_append sz (drop_bit 4 eax AND 0xF) b;
          b = str_append sz (NL @ ''stepping  : '') b;
          b = num_append sz (eax AND 0xF) b;
          b = str_append sz (NL @ ''flags     : '') b;
          b = (if (edx AND push_bit 0 1) \<noteq> 0 then str_append sz ''fpu '' b else b);
          b = (if (edx AND push_bit 4 1) \<noteq> 0 then str_append sz ''tsc '' b else b);
          b = (if (edx AND push_bit 23 1) \<noteq> 0 then str_append sz ''mmx '' b else b);
          b = (if (edx AND push_bit 25 1) \<noteq> 0 then str_append sz ''sse '' b else b);
          b = (if (edx AND push_bit 26 1) \<noteq> 0 then str_append sz ''sse2 '' b else b)
      in (int (length b), b))"

definition proc_meminfo_read :: "nat \<Rightarrow> mm_state \<Rightarrow> (int \<times> string) option" where
  "proc_meminfo_read sz s =
     (case mm_used s of None \<Rightarrow> None
      | Some u \<Rightarrow> (case mm_free s of None \<Rightarrow> None
        | Some f \<Rightarrow>
          let b = str_append sz ''HeapTotal : '' '''';
              b = num_append sz (mm_total s div 1024) b;
              b = str_append sz ('' kB'' @ NL @ ''HeapUsed  : '') b;
              b = num_append sz (u div 1024) b;
              b = str_append sz ('' kB'' @ NL @ ''HeapFree  : '') b;
              b = num_append sz (f div 1024) b;
              b = str_append sz ('' kB'' @ NL @ ''Stack     : 16 kB'') b
          in Some (int (length b), b)))"

definition proc_uptime_read :: "nat \<Rightarrow> timer \<Rightarrow> int \<times> string" where
  "proc_uptime_read sz t =
     (let b = num_append sz (timer_seconds t) '''';
          b = str_append sz '' seconds'' b
      in (int (length b), b))"

fun run_reader :: "machine \<Rightarrow> kernel \<Rightarrow> proc_reader \<Rightarrow> nat \<Rightarrow> int \<times> string" where
  "run_reader m k Cpuinfo_read sz = proc_cpuinfo_read m sz"
| "run_reader m k Meminfo_read sz = the (proc_meminfo_read sz (k_mm k))"
| "run_reader m k Uptime_read sz = proc_uptime_read sz (k_timer k)"

text \<open>Whether reading the path calls the memory reader.\<close>

definition reads_meminfo :: "string \<Rightarrow> kernel \<Rightarrow> bool" where
  "reads_meminfo path k = (case vfs_lookup (Some path) (k_vfs k) of None \<Rightarrow> False
     | Some i \<Rightarrow> nd_type (nodes (k_vfs k) ! i) \<noteq> VFS_DIR \<and> nd_read (nodes (k_vfs k) ! i) = Some Meminfo_read)"

definition kernel_read :: "machine \<Rightarrow> string \<Rightarrow> nat \<Rightarrow> kernel \<Rightarrow> (int \<times> string option) option" where
  "kernel_read m path sz k =
     (if reads_meminfo path k \<and> (mm_used (k_mm k) = None \<or> mm_free (k_mm k) = None) then None
      else Some (vfs_read (run_reader m k) (Some path) True sz (k_vfs k)))"

section \<open>Reading ends\<close>

lemma kernel_mm_counts:
  assumes "kernel_inv k"
  obtains u f where "mm_used (k_mm k) = Some u" "mm_free (k_mm k) = Some f"
  using kernel_invD(1) [OF assms] mm_counts(1,2) that by blast

lemma kernel_read_ends: "kernel_inv k \<Longrightarrow> \<exists>r. kernel_read m path sz k = Some r"
  by (auto simp: kernel_read_def elim!: kernel_mm_counts)

end
