(* ===== verification/Shell.thy ===== *)
theory Shell
  imports Procfs Elf
begin

unbundle bit_operations_syntax

text \<open>
  The shell of \<^verbatim>\<open>src/src/kernel/shell.c\<close>: its helpers and every registered program. A program works on the kernel
  state and its arguments as C strings and ends with \<open>Done\<close> and its result code, stops the machine (\<open>Stopped\<close>), or
  never returns (\<open>Hangs\<close>).
\<close>

datatype outcome = Done int kernel | Stopped kernel | Hangs

definition ends :: "'a option \<Rightarrow> ('a \<Rightarrow> outcome) \<Rightarrow> outcome" where
  "ends x f = (case x of None \<Rightarrow> Hangs | Some a \<Rightarrow> f a)"

section \<open>Helpers\<close>

definition str_cmp :: "string \<Rightarrow> string \<Rightarrow> int" where
  "str_cmp a b = c_strcmp a b"

definition str_ncmp :: "string \<Rightarrow> string \<Rightarrow> nat \<Rightarrow> int" where
  "str_ncmp a b n = c_strncmp a b n"

definition str_len :: "string \<Rightarrow> nat" where
  "str_len s = length s"

definition print_num :: "u32 \<Rightarrow> console_call" where
  "print_num val = W (uint_to_str val)"

definition print_num_padded :: "u32 \<Rightarrow> nat \<Rightarrow> console_call list" where
  "print_num_padded val width = (let buf = uint_to_str val; len = str_len buf in replicate (width - len) (W '' '') @ [W buf])"

definition read_cmos :: "machine \<Rightarrow> u8 \<Rightarrow> kernel \<Rightarrow> kernel \<times> u8" where
  "read_cmos m reg k = (k_outb 0x70 reg k, m_cmos m reg)"

definition bcd_to_bin :: "u8 \<Rightarrow> u8" where
  "bcd_to_bin bcd = drop_bit 4 bcd * 10 + (bcd AND 0x0F)"

abbreviation colour :: "vga_color \<Rightarrow> u8" where
  "colour c \<equiv> vga_entry_color c VGA_COLOR_BLACK"

definition print_prompt :: "kernel \<Rightarrow> kernel" where
  "print_prompt k =
     (let name_c = colour VGA_COLOR_LIGHT_CYAN; body = colour VGA_COLOR_LIGHT_GREY; accent = colour VGA_COLOR_LIGHT_GREEN
      in emit [C name_c, W ERON_USER, C accent, W ''@'', C name_c, W ERON_HOSTNAME, C body, W '':/ '', C accent, W ''$ ''] k)"

section \<open>System information\<close>

definition help_line :: "program_entry program \<Rightarrow> console_call list" where
  "help_line p = (if \<not> pg_active p then []
     else [C (colour VGA_COLOR_LIGHT_CYAN), W '' '', W (pg_name p), C (colour VGA_COLOR_LIGHT_GREY)]
       @ replicate (14 - str_len (pg_name p)) (W '' '') @ [W (pg_desc p), W NL])"

definition prog_help :: "kernel \<Rightarrow> outcome" where
  "prog_help k =
     (let k = emit [C (colour VGA_COLOR_WHITE), W (NL @ ''Eron Shell ('' @ ERON_SHELL @ '' '' @ ERON_SHELL_VER @ '')'' @ NL @ NL)] k;
          table = program_table (k_progs k); count = program_count (k_progs k)
      in Done 0 (emit (concat (map (\<lambda>i. help_line (table ! i)) [0..<count])) k))"

definition prog_about :: "machine \<Rightarrow> kernel \<Rightarrow> outcome" where
  "prog_about m k =
     (let vendor = cpu_vendor m; label = colour VGA_COLOR_WHITE; val = colour VGA_COLOR_LIGHT_GREY; dim_c = colour VGA_COLOR_DARK_GREY
      in ends (mm_free (k_mm k)) (\<lambda>free. Done 0 (emit
        [C label, W (NL @ ''Eron OS ''), C val, W (ERON_VERSION @ '' ('' @ ERON_CODENAME @ '')'' @ NL), C dim_c,
         W (concat (replicate 29 [CHR 0xE2, CHR 0x94, CHR 0x80]) @ NL),
         C label, W '' Kernel    '', C val, W (''eron-i386'' @ NL),
         C label, W '' Arch      '', C val, W (''i386 (32-bit)'' @ NL),
         C label, W '' CPU       '', C val, W vendor, W NL,
         C label, W '' Memory    '', C val, print_num (mm_total (k_mm k) div 1024), W '' kB heap ('', print_num (free div 1024), W ('' kB free)'' @ NL),
         C label, W '' Uptime    '', C val, print_num (timer_uptime_minutes (k_timer k)), W ''m '', print_num (timer_uptime_seconds (k_timer k)), W (''s'' @ NL),
         C label, W '' Shell     '', C val, W (ERON_SHELL @ '' '' @ ERON_SHELL_VER @ NL),
         C label, W '' Display   '', C val, W (''VGA 80x25'' @ NL),
         C label, W '' Processes '', C val, print_num (word_of_nat (proc_active_count (k_sched k))), W ('' active'' @ NL),
         C label, W '' Syscall   '', C val, W (''INT 0x80'' @ NL),
         C dim_c, W ('' Author    '' @ ERON_AUTHOR @ NL)] k)))"

definition prog_fastfetch :: "kernel \<Rightarrow> outcome" where
  "prog_fastfetch k =
     (let logo = colour VGA_COLOR_LIGHT_CYAN; key = colour VGA_COLOR_WHITE; val = colour VGA_COLOR_LIGHT_GREY; bs = [CHR 0x5C]
      in ends (mm_used (k_mm k)) (\<lambda>used. Done 0 (emit
        [C logo, W (NL @ ''      /'' @ bs @ NL), W (''     /  '' @ bs @ ''    ''),
         C key, W ''OS:      '', C val, W (''EronOS'' @ NL), C logo, W (''    / /'' @ bs @ '' '' @ bs @ ''   ''),
         C key, W ''Host:    '', C val, W (ERON_HOSTNAME @ NL), C logo, W (''   / ____ '' @ bs @ ''  ''),
         C key, W ''Kernel:  '', C val, W (ERON_VERSION @ ''-'' @ ERON_CODENAME @ NL), C logo, W (''  /_/    '' @ bs @ ''_'' @ bs @ '' ''),
         C key, W ''Shell:   '', C val, W (ERON_SHELL @ '' '' @ ERON_SHELL_VER @ NL),
         C key, W ''              Uptime:  '', C val, print_num (timer_uptime_hours (k_timer k)), W ''h '', print_num (timer_uptime_minutes (k_timer k)), W (''m'' @ NL),
         C key, W ''              Memory:  '', C val, print_num (used div 1024), W ''/'', print_num (mm_total (k_mm k) div 1024), W ('' kB'' @ NL),
         C key, W ''              Procs:   '', C val, print_num (word_of_nat (proc_active_count (k_sched k))), W NL] k)))"

definition prog_roadmap :: "kernel \<Rightarrow> outcome" where
  "prog_roadmap k = Done 0 (emit
     [W (NL @ ''EronOS next-level roadmap:''), W (NL @ '' [1] Stable userland ABI + libc subset''),
      W (NL @ '' [2] ELF loader hardening + per-process VM''), W (NL @ '' [3] Storage stack: initrd + ext2 driver''),
      W (NL @ '' [4] Networking: PCI probe + e1000 + TCP/IP''), W (NL @ '' [5] Graphics: VBE framebuffer + compositor''),
      W (NL @ '' [6] Package manager + signed repos'')] k)"

section \<open>Services\<close>

definition service_find :: "string \<Rightarrow> service_entry list \<Rightarrow> nat option" where
  "service_find nm sv = List.find (\<lambda>i. str_cmp (sv_name (sv ! i)) nm = 0) [0..<length sv]"

definition service_print_status :: "service_entry \<Rightarrow> console_call list" where
  "service_print_status svc =
     [W '' '', W (sv_name svc), W ''  '', W (if sv_running svc then ''running'' else ''stopped''), W ''  '',
      W (if sv_enabled svc then ''enabled'' else ''disabled''), W ''  '', W (sv_description svc), W NL]"

definition upd_service :: "nat \<Rightarrow> (service_entry \<Rightarrow> service_entry) \<Rightarrow> kernel \<Rightarrow> kernel" where
  "upd_service i f k = k_shell_update (services_update (\<lambda>sv. sv[i := f (sv ! i)])) k"

definition service_action :: "string \<Rightarrow> (service_entry \<Rightarrow> service_entry) option" where
  "service_action a =
     (if str_cmp a ''start'' = 0 then Some (\<lambda>s. s\<lparr>sv_running := True\<rparr>)
      else if str_cmp a ''stop'' = 0 then Some (\<lambda>s. s\<lparr>sv_running := False\<rparr>)
      else if str_cmp a ''enable'' = 0 then Some (\<lambda>s. s\<lparr>sv_enabled := True\<rparr>)
      else if str_cmp a ''disable'' = 0 then Some (\<lambda>s. s\<lparr>sv_enabled := False\<rparr>)
      else None)"

definition prog_service :: "string list \<Rightarrow> kernel \<Rightarrow> outcome" where
  "prog_service argv k =
     (if length argv = 1 \<or> str_cmp (argv ! 1) ''status'' = 0 then
        Done 0 (emit (W (NL @ ''SERVICE   STATE    BOOT      DESCRIPTION'' @ NL) # concat (map service_print_status (services (k_shell k)))) k)
      else if length argv < 3 then
        Done 1 (emit [W (NL @ ''service: usage: service <start|stop|enable|disable|status> <name>'')] k)
      else case service_find (argv ! 2) (services (k_shell k)) of
        None \<Rightarrow> Done 1 (emit [W (NL @ ''service: unknown service'')] k)
      | Some i \<Rightarrow> (case service_action (argv ! 1) of
          None \<Rightarrow> Done 1 (emit [W (NL @ ''service: invalid action'')] k)
        | Some f \<Rightarrow>
            let k = upd_service i f k; k = emit [W NL] k
            in Done 0 (emit (service_print_status (services (k_shell k) ! i)) k)))"

section \<open>Files\<close>

text \<open>A file system call that returns a state and a result code.\<close>

definition vfs_do :: "(proc_reader vfs \<Rightarrow> proc_reader vfs \<times> int) \<Rightarrow> kernel \<Rightarrow> kernel \<times> int" where
  "vfs_do f k = (case f (k_vfs k) of (v, r) \<Rightarrow> (k\<lparr>k_vfs := v\<rparr>, r))"

definition prog_touch :: "string list \<Rightarrow> kernel \<Rightarrow> outcome" where
  "prog_touch argv k =
     (if length argv < 2 then Done 1 (emit [W (NL @ ''touch: usage: touch <file>'')] k)
      else if vfs_lookup (Some (argv ! 1)) (k_vfs k) \<noteq> None then Done 0 k
      else case vfs_do (vfs_mkfile (Some (argv ! 1)) (Some '''')) k of (k, r) \<Rightarrow>
        if r < 0 then Done 1 (emit [W (NL @ ''touch: cannot create file'')] k) else Done 0 k)"

text \<open>The loop that joins arguments with spaces into a buffer of \<open>lim\<close> characters.\<close>

fun join_loop :: "nat \<Rightarrow> bool \<Rightarrow> string \<Rightarrow> string list \<Rightarrow> string" where
  "join_loop lim first out [] = out"
| "join_loop lim first out (a # as) =
     (if length out < lim then
        let out = (if \<not> first \<and> length out < lim then out @ '' '' else out)
        in join_loop lim False (put_chars lim out a) as
      else out)"

definition prog_write :: "string list \<Rightarrow> kernel \<Rightarrow> outcome" where
  "prog_write argv k =
     (if length argv < 3 then Done 1 (emit [W (NL @ ''write: usage: write <file> <text>'')] k)
      else case (if vfs_lookup (Some (argv ! 1)) (k_vfs k) = None then vfs_do (vfs_mkfile (Some (argv ! 1)) (Some '''')) k else (k, 0)) of (k, r) \<Rightarrow>
        if r < 0 then Done 1 (emit [W (NL @ ''write: cannot create file'')] k)
        else let buf = join_loop 511 True '''' (drop 2 argv)
             in case vfs_do (vfs_write (Some (argv ! 1)) (Some buf) (length buf)) k of (k, r) \<Rightarrow>
               if r < 0 then Done 1 (emit [W (NL @ ''write: failed'')] k) else Done 0 k)"

definition prog_rm :: "string list \<Rightarrow> kernel \<Rightarrow> outcome" where
  "prog_rm argv k =
     (if length argv < 2 then Done 1 (emit [W (NL @ ''rm: usage: rm <path>'')] k)
      else case vfs_do (vfs_remove (Some (argv ! 1))) k of (k, r) \<Rightarrow>
        if r < 0 then Done 1 (emit [W (NL @ ''rm: cannot remove'')] k) else Done 0 k)"

definition prog_mv :: "string list \<Rightarrow> kernel \<Rightarrow> outcome" where
  "prog_mv argv k =
     (if length argv < 3 then Done 1 (emit [W (NL @ ''mv: usage: mv <src> <dst>'')] k)
      else case vfs_do (vfs_rename (Some (argv ! 1)) (Some (argv ! 2))) k of (k, r) \<Rightarrow>
        if r < 0 then Done 1 (emit [W (NL @ ''mv: failed'')] k) else Done 0 k)"

definition prog_mkdir :: "string list \<Rightarrow> kernel \<Rightarrow> outcome" where
  "prog_mkdir argv k =
     (if length argv < 2 then Done 1 (emit [W (NL @ ''mkdir: usage: mkdir <dir>'')] k)
      else case vfs_do (vfs_mkdir (Some (argv ! 1))) k of (k, r) \<Rightarrow>
        if r < 0 then Done 1 (emit [W (NL @ ''mkdir: failed'')] k) else Done 0 k)"

definition prog_stat :: "string list \<Rightarrow> kernel \<Rightarrow> outcome" where
  "prog_stat argv k =
     (if length argv < 2 then Done 1 (emit [W (NL @ ''stat: usage: stat <path>'')] k)
      else case vfs_lookup (Some (argv ! 1)) (k_vfs k) of
        None \<Rightarrow> Done 1 (emit [W (NL @ ''stat: not found'')] k)
      | Some i \<Rightarrow>
          let n = nodes (k_vfs k) ! i
          in Done 0 (emit
               [W (NL @ ''Path: ''), W (nd_path n), W (NL @ ''Type: ''),
                W (if nd_type n = VFS_DIR then ''dir'' else if nd_type n = VFS_FILE then ''file''
                   else if nd_type n = VFS_DEV then ''dev'' else ''other''),
                W (NL @ ''Size: ''), print_num (nd_size n), W (NL @ ''Perm: ''),
                W (if (nd_perm n AND VFS_PERM_READ) \<noteq> 0 then ''r'' else ''-''),
                W (if (nd_perm n AND VFS_PERM_WRITE) \<noteq> 0 then ''w'' else ''-''),
                W (if (nd_perm n AND VFS_PERM_EXEC) \<noteq> 0 then ''x'' else ''-'')] k))"

definition prog_cp :: "machine \<Rightarrow> string list \<Rightarrow> kernel \<Rightarrow> outcome" where
  "prog_cp m argv k =
     (if length argv < 3 then Done 1 (emit [W (NL @ ''cp: usage: cp <src> <dst>'')] k)
      else ends (kernel_read m (argv ! 1) 1024 k) (\<lambda>(len, buf).
        if len < 0 then Done 1 (emit [W (NL @ ''cp: source read failed'')] k)
        else case (if vfs_lookup (Some (argv ! 2)) (k_vfs k) = None then vfs_do (vfs_mkfile (Some (argv ! 2)) (Some '''')) k else (k, 0)) of (k, r) \<Rightarrow>
          if r < 0 then Done 1 (emit [W (NL @ ''cp: cannot create destination'')] k)
          else (case vfs_do (vfs_write (Some (argv ! 2)) (Some (the buf)) (nat len)) k of (k, r) \<Rightarrow>
            if r < 0 then Done 1 (emit [W (NL @ ''cp: destination write failed'')] k) else Done 0 k)))"

definition prog_append :: "machine \<Rightarrow> string list \<Rightarrow> kernel \<Rightarrow> outcome" where
  "prog_append m argv k =
     (if length argv < 3 then Done 1 (emit [W (NL @ ''append: usage: append <file> <text>'')] k)
      else ends (kernel_read m (argv ! 1) 1024 k) (\<lambda>(len, current).
        case (if len < 0 then vfs_do (vfs_mkfile (Some (argv ! 1)) (Some '''')) k else (k, 0)) of (k, r) \<Rightarrow>
          if r < 0 then Done 1 (emit [W (NL @ ''append: cannot create file'')] k)
          else let cur = (if len < 0 then '''' else map (char_at (the current)) [0..<nat len]);
                   out = put_chars 1023 '''' cur;
                   out = (if 0 < length out \<and> length out < 1023 then out @ '' '' else out);
                   out = join_loop 1023 True out (drop 2 argv)
               in (case vfs_do (vfs_write (Some (argv ! 1)) (Some out) (length out)) k of (k, r) \<Rightarrow>
                 if r < 0 then Done 1 (emit [W (NL @ ''append: write failed'')] k) else Done 0 k)))"

definition prog_chmod :: "string list \<Rightarrow> kernel \<Rightarrow> outcome" where
  "prog_chmod argv k =
     (if length argv < 3 then Done 1 (emit [W (NL @ ''chmod: usage: chmod <0-7> <path>'')] k)
      else let c = char_at (argv ! 1) 0; mode = uchar c - uchar CHR ''0'' in
        if uchar c < uchar CHR ''0'' \<or> uchar c > uchar CHR ''7'' \<or> char_at (argv ! 1) 1 \<noteq> NUL then
          Done 1 (emit [W (NL @ ''chmod: invalid mode'')] k)
        else let perm = 0;
                 perm = (if mode AND 4 \<noteq> 0 then perm OR VFS_PERM_READ else perm);
                 perm = (if mode AND 2 \<noteq> 0 then perm OR VFS_PERM_WRITE else perm);
                 perm = (if mode AND 1 \<noteq> 0 then perm OR VFS_PERM_EXEC else perm)
             in (case vfs_do (vfs_chmod (Some (argv ! 2)) perm) k of (k, r) \<Rightarrow>
               if r < 0 then Done 1 (emit [W (NL @ ''chmod: failed'')] k) else Done 0 k))"

section \<open>Identification, time and memory\<close>

definition prog_uname :: "string list \<Rightarrow> kernel \<Rightarrow> outcome" where
  "prog_uname argv k =
     Done 0 (if length argv > 1 \<and> str_cmp (argv ! 1) ''-a'' = 0 then
          emit [W (NL @ ''Eron '' @ ERON_HOSTNAME @ '' '' @ ERON_VERSION @ ''-'' @ ERON_CODENAME @ '' i386 EronOS'')] k
        else if length argv > 1 \<and> str_cmp (argv ! 1) ''-r'' = 0 then emit [W (NL @ ERON_VERSION)] k
        else emit [W (NL @ ''Eron'')] k)"

text \<open>A number with a leading zero below ten.\<close>

definition two_digits :: "u32 \<Rightarrow> console_call list" where
  "two_digits v = (if v < 10 then [W ''0''] else []) @ [print_num v]"

definition prog_uptime :: "kernel \<Rightarrow> outcome" where
  "prog_uptime k =
     (let h = timer_uptime_hours (k_timer k); m = timer_uptime_minutes (k_timer k); s = timer_uptime_seconds (k_timer k)
      in Done 0 (emit ([W (NL @ ''up ''), print_num h, W '':''] @ two_digits m @ [W '':''] @ two_digits s) k))"

definition months :: "string list" where
  "months = ['''', ''Jan'', ''Feb'', ''Mar'', ''Apr'', ''May'', ''Jun'', ''Jul'', ''Aug'', ''Sep'', ''Oct'', ''Nov'', ''Dec'']"

definition prog_date :: "machine \<Rightarrow> kernel \<Rightarrow> outcome" where
  "prog_date m k =
     (case read_cmos m 0x00 k of (k, sec) \<Rightarrow> case read_cmos m 0x02 k of (k, mn) \<Rightarrow> case read_cmos m 0x04 k of (k, hour) \<Rightarrow>
      case read_cmos m 0x07 k of (k, day) \<Rightarrow> case read_cmos m 0x08 k of (k, month) \<Rightarrow> case read_cmos m 0x09 k of (k, year) \<Rightarrow>
      let month = bcd_to_bin month
      in Done 0 (emit ([W NL, W (if 1 \<le> month \<and> month \<le> 12 then months ! unat month else ''???''), W '' '']
           @ two_digits (ucast (bcd_to_bin day)) @ [W '' ''] @ two_digits (ucast (bcd_to_bin hour)) @ [W '':'']
           @ two_digits (ucast (bcd_to_bin mn)) @ [W '':''] @ two_digits (ucast (bcd_to_bin sec)) @ [W '' UTC 20'']
           @ two_digits (ucast (bcd_to_bin year))) k))"

definition prog_free :: "kernel \<Rightarrow> outcome" where
  "prog_free k =
     ends (mm_used (k_mm k)) (\<lambda>used. ends (mm_free (k_mm k)) (\<lambda>free. Done 0 (emit
       ([C (colour VGA_COLOR_WHITE), W (NL @ ''            total       used       free'' @ NL), C (colour VGA_COLOR_LIGHT_GREY), W ''Heap   '']
        @ print_num_padded (mm_total (k_mm k) div 1024) 8 @ [W '' kB ''] @ print_num_padded (used div 1024) 8 @ [W '' kB '']
        @ print_num_padded (free div 1024) 8 @ [W '' kB'']) k)))"

definition prog_cpuid :: "machine \<Rightarrow> kernel \<Rightarrow> outcome" where
  "prog_cpuid m k = ends (kernel_read m ''/proc/cpuinfo'' 256 k) (\<lambda>(len, buf).
     Done 0 (if len > 0 then emit [W NL, W (the buf)] k else k))"

definition ps_line :: "process \<Rightarrow> console_call list" where
  "ps_line p = (if p_state p = PROC_UNUSED then []
     else [W ''   '', print_num (p_pid p),
           W (case p_state p of PROC_RUNNING \<Rightarrow> ''  run      '' | PROC_READY \<Rightarrow> ''  ready    '' | PROC_ZOMBIE \<Rightarrow> ''  zombie   ''
              | _ \<Rightarrow> ''  ?        ''),
           W (p_name p), W NL])"

definition prog_ps :: "kernel \<Rightarrow> outcome" where
  "prog_ps k = Done 0 (emit ([C (colour VGA_COLOR_WHITE), W (NL @ '' PID  STATE    NAME'' @ NL), C (colour VGA_COLOR_LIGHT_GREY)]
     @ concat (map (\<lambda>i. ps_line (proc_table_ptr (k_sched k) ! i)) [0..<PROC_MAX])) k)"

definition ls_entry :: "proc_reader vfs_node \<Rightarrow> console_call list" where
  "ls_entry n =
     [C (if nd_type n = VFS_DIR then colour VGA_COLOR_LIGHT_CYAN else if nd_type n = VFS_DEV then colour VGA_COLOR_LIGHT_BROWN
         else if str_ncmp (nd_path n) ''/bin/'' 5 = 0 then colour VGA_COLOR_LIGHT_GREEN else colour VGA_COLOR_LIGHT_GREY),
      W (vfs_basename (nd_path n))] @ (if nd_type n = VFS_DIR then [W ''/''] else []) @ [W ''  '']"

definition prog_ls :: "string list \<Rightarrow> kernel \<Rightarrow> outcome" where
  "prog_ls argv k =
     (let dir = (if length argv > 1 then argv ! 1 else ''/''); entries = vfs_list dir 32 (k_vfs k)
      in if entries = [] then Done 1 (emit [C (colour VGA_COLOR_LIGHT_RED), W (NL @ ''ls: ''), W dir, W '': not found''] k)
         else Done 0 (emit (W NL # concat (map (\<lambda>i. ls_entry (nodes (k_vfs k) ! i)) entries)) k))"

definition prog_cat :: "machine \<Rightarrow> string list \<Rightarrow> kernel \<Rightarrow> outcome" where
  "prog_cat m argv k =
     (let err = colour VGA_COLOR_LIGHT_RED in
      if length argv < 2 then Done 1 (emit [C err, W (NL @ ''cat: missing file argument'')] k)
      else case vfs_lookup (Some (argv ! 1)) (k_vfs k) of
        None \<Rightarrow> Done 1 (emit [C err, W (NL @ ''cat: ''), W (argv ! 1), W '': not found''] k)
      | Some i \<Rightarrow>
          if nd_type (nodes (k_vfs k) ! i) = VFS_DIR then Done 1 (emit [C err, W (NL @ ''cat: ''), W (argv ! 1), W '': is a directory''] k)
          else ends (kernel_read m (argv ! 1) 512 k) (\<lambda>(len, buf). Done 0 (if len \<ge> 0 then emit [W NL, W (the buf)] k else k)))"

fun echo_calls :: "bool \<Rightarrow> string list \<Rightarrow> console_call list" where
  "echo_calls first [] = []"
| "echo_calls first (a # as) = (if first then [] else [W '' '']) @ W a # echo_calls False as"

definition prog_echo :: "string list \<Rightarrow> kernel \<Rightarrow> outcome" where
  "prog_echo argv k = Done 0 (emit (W NL # echo_calls True (drop 1 argv)) k)"

definition prog_whoami :: "kernel \<Rightarrow> outcome" where
  "prog_whoami k = Done 0 (emit [W (NL @ ERON_USER)] k)"

definition prog_hostname :: "kernel \<Rightarrow> outcome" where
  "prog_hostname k = Done 0 (emit [W (NL @ ERON_HOSTNAME)] k)"

definition prog_pwd :: "kernel \<Rightarrow> outcome" where
  "prog_pwd k = Done 0 (emit [W (NL @ ''/'')] k)"

definition prog_id :: "kernel \<Rightarrow> outcome" where
  "prog_id k = Done 0 (emit [W (NL @ ''uid=0('' @ ERON_USER @ '') gid=0('' @ ERON_USER @ '')'')] k)"

definition prog_arch :: "kernel \<Rightarrow> outcome" where
  "prog_arch k = Done 0 (emit [W (NL @ ''i386'')] k)"

definition prog_clear :: "kernel \<Rightarrow> outcome" where
  "prog_clear k = Done 0 (emit [C (colour VGA_COLOR_LIGHT_GREY)] (k_term_update terminal_clear k))"

section \<open>Machine control\<close>

text \<open>The reboot loop reads the controller's status until its input buffer is empty.\<close>

partial_function (option) kbc_drain :: "(nat \<Rightarrow> u8) \<Rightarrow> nat \<Rightarrow> nat option" where
  "kbc_drain st n = (if (st n AND 2) \<noteq> 0 then kbc_drain st (n + 1) else Some n)"

definition prog_reboot :: "machine \<Rightarrow> kernel \<Rightarrow> outcome" where
  "prog_reboot m k =
     (let k = emit [W (NL @ ''Restarting...'' @ NL)] k
      in ends (kbc_drain (m_kbc_status m) 0) (\<lambda>_. Done 0 (k_outb 0x64 0xFE k)))"

definition prog_halt :: "kernel \<Rightarrow> outcome" where
  "prog_halt k = Stopped (emit [W (NL @ ''System halted.'' @ NL)] k)"

definition prog_malloc_test :: "kernel \<Rightarrow> outcome" where
  "prog_malloc_test k =
     (let k = emit [C (colour VGA_COLOR_WHITE), W (NL @ ''Heap test:'' @ NL), C (colour VGA_COLOR_LIGHT_GREY)] k in
      ends (mm_used (k_mm k)) (\<lambda>u0. ends (mm_free (k_mm k)) (\<lambda>f0.
      let k = emit [W '' Before: used='', print_num u0, W '' free='', print_num f0, W NL] k in
      ends (kmalloc 64 (k_mm k)) (\<lambda>(s, p1). ends (kmalloc 128 s) (\<lambda>(s, p2). ends (kmalloc 256 s) (\<lambda>(s, p3).
      ends (mm_used s) (\<lambda>u1. ends (mm_free s) (\<lambda>f1.
      let k = emit [W ('' Allocated 64+128+256 bytes'' @ NL), W '' After:  used='', print_num u1, W '' free='', print_num f1, W NL]
                (k\<lparr>k_mm := s\<rparr>) in
      ends (kfree p1 (k_mm k)) (\<lambda>(s, _). ends (kfree p2 s) (\<lambda>(s, _). ends (kfree p3 s) (\<lambda>(s, _).
      Done 0 (emit [W '' Freed all blocks''] (k\<lparr>k_mm := s\<rparr>)))))))))))))"

definition prog_display :: "kernel \<Rightarrow> outcome" where
  "prog_display k =
     (let info = display_get_info
      in Done 0 (emit
        [C (colour VGA_COLOR_WHITE), W (NL @ ''Display:'' @ NL), C (colour VGA_COLOR_LIGHT_GREY), W '' Mode      '',
         W ((if di_mode info = DISPLAY_TEXT then ''text'' else ''framebuffer'') @ NL), W '' Size      '', print_num (di_width info), W ''x'',
         print_num (di_height info), W (NL @ '' Depth     ''), print_num (di_bpp info), W ('' bpp'' @ NL), W '' Buffer    0x'',
         W (hex_string (di_framebuffer info))] k))"

text \<open>
  \<open>exec\<close> runs an embedded program or loads a file into a buffer at \<open>m_exec_buf\<close>, creates a process and waits for it.
  \<open>others\<close> is what the machine does between the switch away in \<open>schedule\<close> and the switch back.
\<close>

partial_function (option) exec_wait :: "(kernel \<Rightarrow> kernel) \<Rightarrow> nat \<Rightarrow> kernel \<Rightarrow> kernel option" where
  "exec_wait others i k =
     (if p_state (procs (k_sched k) ! i) = PROC_READY \<or> p_state (procs (k_sched k) ! i) = PROC_RUNNING
      then exec_wait others i (others (k\<lparr>k_sched := schedule (k_sched k)\<rparr>)) else Some k)"

definition put_string :: "u32 \<Rightarrow> string \<Rightarrow> memory \<Rightarrow> memory" where
  "put_string a s m = fold (\<lambda>i m. m(a + word_of_nat i := (if i < length s then of_char (s ! i) else 0))) [0..<length s + 1] m"

text \<open>The entry point and the process name, or \<open>None\<close> for a file that is not executable.\<close>

definition exec_entry :: "machine \<Rightarrow> string \<Rightarrow> kernel \<Rightarrow> (kernel \<times> (u32 \<times> string) option) option" where
  "exec_entry m prog k =
     (if str_cmp prog ''/bin/hello'' = 0 \<or> str_cmp prog ''hello'' = 0 then Some (k, Some (m_user_hello m, ''hello''))
      else if str_cmp prog ''/bin/loop'' = 0 \<or> str_cmp prog ''loop'' = 0 then Some (k, Some (m_user_loop m, ''loop''))
      else if str_cmp prog ''/bin/crash'' = 0 \<or> str_cmp prog ''crash'' = 0 then Some (k, Some (m_user_crash m, ''crash''))
      else (case kernel_read m prog 4096 k of None \<Rightarrow> None
        | Some (len, buf) \<Rightarrow>
            if len > 0 then
              (case elf_load (m_exec_buf m) (word_of_int len) (put_string (m_exec_buf m) (the buf) (mem (k_mm k))) of (mm, entry) \<Rightarrow>
                 Some (k_mm_update (mem_update (\<lambda>_. mm)) k, if entry = 0 then None else Some (entry, vfs_basename prog)))
            else Some (k, None)))"

definition prog_exec :: "machine \<Rightarrow> (kernel \<Rightarrow> kernel) \<Rightarrow> string list \<Rightarrow> kernel \<Rightarrow> outcome" where
  "prog_exec m others argv k =
     (let err = colour VGA_COLOR_LIGHT_RED in
      if length argv < 2 then Done 1 (emit [C err, W (NL @ ''exec: usage: exec <program>'')] k)
      else ends (exec_entry m (argv ! 1) k) (\<lambda>(k, target). case target of
          None \<Rightarrow> Done 1 (emit [C err, W (NL @ ''exec: ''), W (argv ! 1), W '': not executable''] k)
        | Some (entry, nm) \<Rightarrow> let k = emit [W NL] k in
          (case proc_create (m_trapret m) nm entry (k_sched k) of (s, pid) \<Rightarrow>
            let k = k\<lparr>k_sched := s\<rparr> in
            if pid < 0 then Done 1 (emit [C err, W ''exec: process table full''] k)
            else (case List.find (\<lambda>i. p_pid (proc_table_ptr (k_sched k) ! i) = word_of_int pid) [0..<PROC_MAX] of
                None \<Rightarrow> Done 1 k
              | Some i \<Rightarrow> ends (exec_wait others i k) (\<lambda>k.
                  Done 0 (k_sched_update (upd_proc i (\<lambda>p. p\<lparr>p_state := PROC_UNUSED\<rparr>)) k))))))"

end
