(* ===== verification/Shell_Cmd.thy ===== *)
theory Shell_Cmd
  imports Shell
begin

unbundle bit_operations_syntax

text \<open>
  The command loop of \<^verbatim>\<open>src/src/kernel/shell.c\<close>: registration of the programs, splitting of a command line in
  place, execution, scripts and line editing.
\<close>

section \<open>Registration\<close>

definition shell_programs :: "(string \<times> string \<times> program_entry) list" where
  "shell_programs =
    [(''help'', ''show commands'', Prog_help), (''about'', ''system information'', Prog_about),
     (''fastfetch'', ''quick system summary'', Prog_fastfetch), (''roadmap'', ''next-level OS plan'', Prog_roadmap),
     (''service'', ''service manager'', Prog_service), (''touch'', ''create empty file'', Prog_touch),
     (''write'', ''write text to file'', Prog_write), (''rm'', ''remove file or node'', Prog_rm),
     (''mv'', ''rename file or node'', Prog_mv), (''mkdir'', ''create directory'', Prog_mkdir),
     (''chmod'', ''change permissions'', Prog_chmod), (''stat'', ''file metadata'', Prog_stat),
     (''cp'', ''copy file'', Prog_cp), (''append'', ''append text to file'', Prog_append),
     (''clear'', ''clear terminal'', Prog_clear), (''uname'', ''kernel identification'', Prog_uname),
     (''uptime'', ''system uptime'', Prog_uptime), (''date'', ''current date/time'', Prog_date),
     (''free'', ''memory usage'', Prog_free), (''cpuid'', ''CPU information'', Prog_cpuid),
     (''whoami'', ''current user'', Prog_whoami), (''hostname'', ''system hostname'', Prog_hostname),
     (''pwd'', ''current directory'', Prog_pwd), (''ls'', ''list files'', Prog_ls), (''cat'', ''read file'', Prog_cat),
     (''echo'', ''print text'', Prog_echo), (''ps'', ''process list'', Prog_ps), (''id'', ''user/group info'', Prog_id),
     (''arch'', ''architecture'', Prog_arch), (''exec'', ''run user program'', Prog_exec),
     (''display'', ''display info'', Prog_display), (''memtest'', ''test heap allocator'', Prog_malloc_test),
     (''reboot'', ''restart system'', Prog_reboot), (''halt'', ''power off'', Prog_halt)]"

definition shell_register_programs :: "program_entry programs \<Rightarrow> program_entry programs" where
  "shell_register_programs s = fold (\<lambda>(nm, desc, e) s. fst (program_register nm desc e s)) shell_programs s"

text \<open>The call through the function pointer of a table entry.\<close>

fun run_program :: "machine \<Rightarrow> (kernel \<Rightarrow> kernel) \<Rightarrow> program_entry \<Rightarrow> string list \<Rightarrow> kernel \<Rightarrow> outcome" where
  "run_program m others Prog_help argv k = prog_help k"
| "run_program m others Prog_about argv k = prog_about m k"
| "run_program m others Prog_fastfetch argv k = prog_fastfetch k"
| "run_program m others Prog_roadmap argv k = prog_roadmap k"
| "run_program m others Prog_service argv k = prog_service argv k"
| "run_program m others Prog_touch argv k = prog_touch argv k"
| "run_program m others Prog_write argv k = prog_write argv k"
| "run_program m others Prog_rm argv k = prog_rm argv k"
| "run_program m others Prog_mv argv k = prog_mv argv k"
| "run_program m others Prog_mkdir argv k = prog_mkdir argv k"
| "run_program m others Prog_chmod argv k = prog_chmod argv k"
| "run_program m others Prog_stat argv k = prog_stat argv k"
| "run_program m others Prog_cp argv k = prog_cp m argv k"
| "run_program m others Prog_append argv k = prog_append m argv k"
| "run_program m others Prog_clear argv k = prog_clear k"
| "run_program m others Prog_uname argv k = prog_uname argv k"
| "run_program m others Prog_uptime argv k = prog_uptime k"
| "run_program m others Prog_date argv k = prog_date m k"
| "run_program m others Prog_free argv k = prog_free k"
| "run_program m others Prog_cpuid argv k = prog_cpuid m k"
| "run_program m others Prog_whoami argv k = prog_whoami k"
| "run_program m others Prog_hostname argv k = prog_hostname k"
| "run_program m others Prog_pwd argv k = prog_pwd k"
| "run_program m others Prog_ls argv k = prog_ls argv k"
| "run_program m others Prog_cat argv k = prog_cat m argv k"
| "run_program m others Prog_echo argv k = prog_echo argv k"
| "run_program m others Prog_ps argv k = prog_ps k"
| "run_program m others Prog_id argv k = prog_id k"
| "run_program m others Prog_arch argv k = prog_arch k"
| "run_program m others Prog_exec argv k = prog_exec m others argv k"
| "run_program m others Prog_display argv k = prog_display k"
| "run_program m others Prog_malloc_test argv k = prog_malloc_test k"
| "run_program m others Prog_reboot argv k = prog_reboot m k"
| "run_program m others Prog_halt argv k = prog_halt k"

section \<open>Splitting a command line\<close>

text \<open>\<open>while (*p == ' ') p++\<close> and \<open>while (*p && *p != ' ') p++\<close> on the buffer, with \<open>p\<close> an index.\<close>

function skip_spaces :: "char list \<Rightarrow> nat \<Rightarrow> nat" where
  "skip_spaces buf p = (if char_at buf p = CHR '' '' then skip_spaces buf (p + 1) else p)"
  by pat_completeness auto
termination by (relation "measure (\<lambda>(buf, p). length buf - p)") (auto simp: char_at_def split: if_splits)

function skip_word :: "char list \<Rightarrow> nat \<Rightarrow> nat" where
  "skip_word buf p = (if char_at buf p \<noteq> NUL \<and> char_at buf p \<noteq> CHR '' '' then skip_word buf (p + 1) else p)"
  by pat_completeness auto
termination by (relation "measure (\<lambda>(buf, p). length buf - p)") (auto simp: char_at_def split: if_splits)

declare skip_spaces.simps [simp del] skip_word.simps [simp del]

text \<open>
  The outer loop. The value is the buffer, in which the space behind each word is overwritten by a terminator, and
  \<open>argv\<close>, the indices at which the words start.
\<close>

function parse_loop :: "nat \<Rightarrow> char list \<Rightarrow> nat \<Rightarrow> nat list \<Rightarrow> char list \<times> nat list" where
  "parse_loop n buf p argv =
     (if char_at buf p \<noteq> NUL \<and> length argv < n then
        let p = skip_spaces buf p in
        if char_at buf p = NUL then (buf, argv)
        else let argv = argv @ [p]; p = skip_word buf p in
          if char_at buf p \<noteq> NUL then parse_loop n (buf[p := NUL]) (p + 1) argv
          else parse_loop n buf p argv
      else (buf, argv))"
  by pat_completeness auto
termination by (relation "measure (\<lambda>(n, buf, p, argv). n - length argv)") auto

declare parse_loop.simps [simp del]

definition parse_args :: "char list \<Rightarrow> nat \<Rightarrow> char list \<times> nat list" where
  "parse_args buf n = parse_loop n buf 0 []"

text \<open>The C string at an index of a buffer.\<close>

definition str_at :: "char list \<Rightarrow> nat \<Rightarrow> string" where
  "str_at buf p = as_cstr (drop p buf)"

section \<open>Execution\<close>

definition prompt_unless_batch :: "kernel \<Rightarrow> kernel" where
  "prompt_unless_batch k = (if \<not> shell_batch_mode (k_shell k) then print_prompt k else k)"

definition after_command :: "kernel \<Rightarrow> kernel" where
  "after_command k = prompt_unless_batch (emit [C (colour VGA_COLOR_LIGHT_GREY), W NL] k)"

definition execute_command :: "machine \<Rightarrow> (kernel \<Rightarrow> kernel) \<Rightarrow> char list \<Rightarrow> kernel \<Rightarrow> char list \<times> outcome" where
  "execute_command m others cmd k =
     (let body = colour VGA_COLOR_LIGHT_GREY; err = colour VGA_COLOR_LIGHT_RED; k = emit [C body] k in
      if char_at cmd 0 = NUL then (cmd, Done 0 (prompt_unless_batch k))
      else case parse_args cmd 16 of (cmd, ps) \<Rightarrow>
        let argv = map (str_at cmd) ps in
        (cmd,
         if argv = [] then Done 0 (prompt_unless_batch k)
         else if str_cmp (argv ! 0) ''clear'' = 0 then
           (case prog_clear k of Done r k \<Rightarrow> Done 0 (prompt_unless_batch k) | x \<Rightarrow> x)
         else (case program_find (argv ! 0) (k_progs k) of
             Some i \<Rightarrow> (case pg_entry (prog_table (k_progs k) ! i) of
                 None \<Rightarrow> Hangs
               | Some f \<Rightarrow> (case run_program m others f argv k of Done r k \<Rightarrow> Done 0 (after_command k) | x \<Rightarrow> x))
           | None \<Rightarrow>
               if str_cmp (argv ! 0) ''exit'' = 0 then Done 0 (after_command (emit [C err, W (NL @ ''eron: no parent process'')] k))
               else if str_cmp (argv ! 0) ''shutdown'' = 0 \<or> str_cmp (argv ! 0) ''poweroff'' = 0 then prog_halt k
               else Done 0 (after_command (emit [C err, W (NL @ ''eron: ''), W (argv ! 0), W '': not found''] k)))))"

text \<open>The loop of \<open>shell_run_script\<close> over the indices of the script buffer.\<close>

primrec script_loop :: "machine \<Rightarrow> (kernel \<Rightarrow> kernel) \<Rightarrow> nat list \<Rightarrow> nat \<Rightarrow> char list \<Rightarrow> kernel \<Rightarrow> outcome" where
  "script_loop m others [] start script k = Done 0 k"
| "script_loop m others (i # is) start script k =
     (if char_at script i = CHR 0x0A \<or> char_at script i = NUL then
        let script = script[i := NUL] in
        if char_at script start \<noteq> NUL then
          (case execute_command m others (drop start script) k of (line, r) \<Rightarrow>
             (case r of Done _ k \<Rightarrow> script_loop m others is (i + 1) (take start script @ line) k | x \<Rightarrow> x))
        else script_loop m others is (i + 1) script k
      else script_loop m others is start script k)"

definition shell_run_script :: "machine \<Rightarrow> (kernel \<Rightarrow> kernel) \<Rightarrow> string \<Rightarrow> kernel \<Rightarrow> outcome" where
  "shell_run_script m others path k =
     ends (kernel_read m path 1024 k) (\<lambda>(len, script).
       if len \<le> 0 then Done 0 k
       else let k = k_shell_update (shell_batch_mode_update (\<lambda>_. True)) k in
         (case script_loop m others [0..<nat len + 1] 0 (the script @ [NUL]) k of
            Done r k \<Rightarrow> Done 0 (k_shell_update (shell_batch_mode_update (\<lambda>_. False)) k)
          | x \<Rightarrow> x))"

definition shell_input :: "machine \<Rightarrow> (kernel \<Rightarrow> kernel) \<Rightarrow> char \<Rightarrow> kernel \<Rightarrow> outcome" where
  "shell_input m others c k =
     (if c = CHR 0x0A then
        let k = k_shell_update (\<lambda>s. s\<lparr>cmd_buffer := (cmd_buffer s)[cmd_index s := NUL]\<rparr>) k in
        (case execute_command m others (cmd_buffer (k_shell k)) k of (buf, r) \<Rightarrow>
          (case r of Done v k \<Rightarrow> Done 0 (k_shell_update (\<lambda>s. s\<lparr>cmd_buffer := buf, cmd_index := 0\<rparr>) k) | x \<Rightarrow> x))
      else if c = CHR 0x08 then
        (if cmd_index (k_shell k) > 0 then
           Done 0 (k_term_update (terminal_putchar CHR 0x08) (k_shell_update (cmd_index_update (\<lambda>i. i - 1)) k))
         else Done 0 k)
      else if cmd_index (k_shell k) < 127 then
        Done 0 (k_shell_update (\<lambda>s. s\<lparr>cmd_buffer := (cmd_buffer s)[cmd_index s := c], cmd_index := cmd_index s + 1\<rparr>) k)
      else Done 0 k)"

end
