(* ===== verification/Exec.thy ===== *)
theory Exec
  imports Shell_Cmd
begin

unbundle bit_operations_syntax

text \<open>
  The \<open>exec\<close> program. Files and the texts of the \<^verbatim>\<open>/proc\<close> readers are C strings, so no file carries the zero byte that
  the header of an executable needs, and the embedded programs lie below user space: \<open>exec\<close> ends in one of its error
  messages, whatever it is given, and starts no process.
\<close>

section \<open>What can be read is a C string\<close>

text \<open>A text that fits a buffer of \<open>n\<close> bytes together with its terminator.\<close>

definition text_in :: "nat \<Rightarrow> string \<Rightarrow> bool" where
  "text_in n b \<longleftrightarrow> c_string b \<and> length b < n"

lemma put_chars_text: "text_in n b \<Longrightarrow> c_string s \<Longrightarrow> text_in n (put_chars (n - 1) b s)"
  by (induction s arbitrary: b) (auto simp: text_in_def)

named_theorems text_intros \<open>rules for texts built in a bounded buffer\<close>

lemma text_empty [text_intros]: "0 < n \<Longrightarrow> text_in n ''''"
  by (simp add: text_in_def)

lemma text_str_append [text_intros]: "0 < n \<Longrightarrow> c_string s \<Longrightarrow> text_in n b \<Longrightarrow> text_in n (str_append n s b)"
  by (simp add: str_append_def size_pred_def put_chars_text del: One_nat_def)

lemma c_string_dec_loop: "c_string (dec_loop v)"
proof (induction v rule: dec_loop.induct)
  case (1 v)
  have "unat (v mod 10) < 10" by (simp add: unat_mod)
  then show ?case using 1 digit_props(3) by (subst dec_loop.simps) simp
qed

lemma text_num_append [text_intros]: "0 < n \<Longrightarrow> text_in n b \<Longrightarrow> text_in n (num_append n v b)"
  using c_string_dec_loop [of v] put_chars_text [of n b] by (simp add: num_append_def size_pred_def c_string_def del: One_nat_def)

lemma text_if [text_intros]: "text_in n a \<Longrightarrow> text_in n b \<Longrightarrow> text_in n (if c then a else b)"
  by simp

lemma readers_text:
  assumes "0 < n"
  shows "text_in n (snd (proc_cpuinfo_read m n)) \<and> fst (proc_cpuinfo_read m n) = int (length (snd (proc_cpuinfo_read m n)))"
    "proc_meminfo_read n s = Some r \<Longrightarrow> text_in n (snd r) \<and> fst r = int (length (snd r))"
    "text_in n (snd (proc_uptime_read n t)) \<and> fst (proc_uptime_read n t) = int (length (snd (proc_uptime_read n t)))"
proof -
  show "text_in n (snd (proc_cpuinfo_read m n)) \<and> fst (proc_cpuinfo_read m n) = int (length (snd (proc_cpuinfo_read m n)))"
    unfolding proc_cpuinfo_read_def Let_def cpu_vendor_def case_prod_unfold fst_conv snd_conv
    by (intro conjI refl text_intros assms) simp_all
  show "text_in n (snd r) \<and> fst r = int (length (snd r))" if r: "proc_meminfo_read n s = Some r"
    using r unfolding proc_meminfo_read_def Let_def
    by (auto split: option.splits intro!: text_intros assms)
  show "text_in n (snd (proc_uptime_read n t)) \<and> fst (proc_uptime_read n t) = int (length (snd (proc_uptime_read n t)))"
    unfolding proc_uptime_read_def Let_def fst_conv snd_conv by (intro conjI refl text_intros assms) simp_all
qed

lemma run_reader_text:
  assumes k: "kernel_inv k" and n: "0 < n"
  shows "text_in n (snd (run_reader m k f n)) \<and> fst (run_reader m k f n) = int (length (snd (run_reader m k f n)))"
proof (cases f)
  case Meminfo_read
  obtain u v where "mm_used (k_mm k) = Some u" "mm_free (k_mm k) = Some v" using k by (rule kernel_mm_counts)
  then obtain r where "proc_meminfo_read n (k_mm k) = Some r" by (auto simp: proc_meminfo_read_def Let_def)
  then show ?thesis using readers_text(2) [OF n] Meminfo_read by simp
qed (simp_all add: readers_text(1,3) [OF n])

text \<open>What \<open>vfs_read\<close> stores is a C string shorter than the buffer, and a positive result is its length.\<close>

lemma vfs_read_text:
  assumes inv: "vfs_inv s" and n: "0 < n" "n \<le> MAX_READ_SIZE"
    and call: "\<And>f. text_in n (snd (call f n)) \<and> fst (call f n) = int (length (snd (call f n)))"
  obtains (none) "fst (vfs_read call (Some p) True n s) \<le> 0"
  | (content) c where "vfs_read call (Some p) True n s = (int (length c), Some c)" "text_in n c"
proof (cases "vfs_lookup (Some p) s")
  case None
  then show thesis using none by (simp add: vfs_read_def Let_def)
next
  case (Some i)
  let ?nd = "nodes s ! i"
  have "i < node_count s" using Some by (auto simp: vfs_lookup_def find_upt_Some split: if_splits)
  then have i: "i < node_count s" "node_ok s i" using vfs_invD(4,5) [OF inv] by auto
  note r = vfs_read_def [of call "Some p" True n s, unfolded Some Let_def]
  show thesis
  proof (cases "nd_type ?nd = VFS_DIR \<or> (nd_perm ?nd AND VFS_PERM_READ) = 0 \<and> nd_read ?nd = None")
    case True
    then show thesis using none n by (auto simp: r)
  next
    case ok: False
    show thesis
    proof (cases "nd_read ?nd")
      case (Some f)
      then show thesis using content [of "snd (call f n)"] call [of f] ok n by (auto simp: r case_prod_unfold)
    next
      case None
      show thesis
      proof (cases "nd_data ?nd")
        case (Some row)
        let ?c = "take (n - 1) (file_data_pool s ! row)"
        have "c_string (file_data_pool s ! row)" using i Some by (auto simp: node_ok_def Let_def)
        then have "text_in n ?c" using n(1) by (auto simp: text_in_def)
        moreover have "vfs_read call (Some p) True n s = (int (length ?c), Some ?c)"
          using ok n Some None by (auto simp: r vfs_strlen_def)
        ultimately show thesis using content by blast
      qed (use none ok n None in \<open>auto simp: r\<close>)
    qed
  qed
qed

section \<open>A C string is no executable\<close>

lemma of_char_zero: "of_char c = (0 :: u8) \<longleftrightarrow> c = NUL"
proof
  assume "of_char c = (0 :: u8)"
  then have "unat (word_of_nat (of_char c) :: u8) = 0" by (simp add: of_nat_of_char)
  then have "(of_char c :: nat) = of_char NUL" by (simp add: unat_of_nat)
  then show "c = NUL" by (simp only: of_char_eq_iff)
qed simp

lemma fold_put_byte:
  assumes "distinct is" "\<forall>i\<in>set is. i < 2 ^ 32" "j < 2 ^ 32"
  shows "fold (\<lambda>i m. m(a + word_of_nat i := f i)) is m (a + word_of_nat j) = (if j \<in> set is then f j else (m :: memory) (a + word_of_nat j))"
  using assms
proof (induction "is" arbitrary: m)
  case (Cons i "is")
  have "a + word_of_nat j \<noteq> a + word_of_nat i" if "j \<noteq> i"
    using that Cons.prems(2,3) by (metis add_left_cancel list.set_intros(1) unat_of_nat_u32)
  then show ?case using Cons by auto
qed simp

lemma put_string_byte:
  "j \<le> length s \<Longrightarrow> length s < 2 ^ 32 \<Longrightarrow> put_string a s m (a + word_of_nat j) = (if j < length s then of_char (s ! j) else 0)"
  using fold_put_byte [of "[0..<length s + 1]" j a "\<lambda>i. if i < length s then of_char (s ! i) else 0"] by (simp add: put_string_def)

lemma put_string_outside:
  "unat a + length s < 2 ^ 32 \<Longrightarrow> unat x < unat a \<or> unat a + length s < unat x \<Longrightarrow> put_string a s m x = m x"
proof -
  assume a: "unat a + length s < 2 ^ 32" "unat x < unat a \<or> unat a + length s < unat x"
  have "fold (\<lambda>i m. m(a + word_of_nat i := f i)) [0..<n] m x = m x" if "n \<le> length s + 1" for f :: "nat \<Rightarrow> u8" and n
    using that
  proof (induction n)
    case (Suc n)
    have "unat (a + word_of_nat n) = unat a + n" using a(1) Suc.prems by (intro unat_offset) simp
    then have "x \<noteq> a + word_of_nat n" using a(2) Suc.prems by auto
    then show ?case using Suc by simp
  qed simp
  then show ?thesis by (simp add: put_string_def del: upt_Suc)
qed

lemma load16_high: "load16 m a = v \<Longrightarrow> v < 256 \<Longrightarrow> m (a + 1) = 0"
proof -
  assume v: "load16 m a = v" "v < 256"
  have "unat (drop_bit 8 v) = 0" using v(2) by (simp add: drop_bit_eq_div unat_div word_less_nat_alt)
  then have "drop_bit 8 v = 0" by (simp add: unat_eq_zero)
  then have "\<not> bit (drop_bit 8 v) (n - 8)" for n by simp
  then have "\<not> bit v n" if "8 \<le> n" for n using that by (metis bit_drop_bit_eq comp_apply le_add_diff_inverse)
  moreover have "bit (m (a + 1)) n = bit v (n + 8)" if "n < 8" for n
    using that v(1) [symmetric] by (auto simp: load16_def bit_simps dest: bit_imp_le_length)
  ultimately have "\<not> bit (m (a + 1)) n" if "n < 8" for n using that by simp
  then show ?thesis by (intro bit_word_eqI) simp
qed

lemma elf_load_text:
  assumes "text_in 4096 s"
  shows "elf_load a (word_of_nat (length s)) (put_string a s m) = (put_string a s m, 0)"
proof -
  have len: "length s < 4096" "c_string s" using assms by (simp_all add: text_in_def)
  have "elf_validate a (word_of_nat (length s)) (put_string a s m) \<noteq> 0"
  proof (cases "length s < 52")
    case True
    then show ?thesis using len by (simp add: elf_validate_def sizeof_ehdr_def word_less_nat_alt unat_of_nat)
  next
    case False
    let ?m = "put_string a s m"
    have "?m (a + word_of_nat 17) = of_char (s ! 17)" using put_string_byte [of 17 s a m] False len by simp
    moreover have "s ! 17 \<in> set s" using False by (intro nth_mem) simp
    then have "s ! 17 \<noteq> NUL" using len(2) by (auto simp: c_string_def)
    ultimately have "?m (a + 17) \<noteq> 0" by (simp add: of_char_zero)
    then have "load16 ?m (a + 16) \<noteq> ET_EXEC" using load16_high [of ?m "a + 16" 2] by (auto simp: ET_EXEC_def add.assoc)
    then show ?thesis by (simp add: elf_validate_def load_ehdr_def Let_def)
  qed
  then show ?thesis by (simp add: elf_load_def)
qed

section \<open>The program\<close>

text \<open>
  The layout the linker script gives: the kernel stack with the buffer of \<open>prog_exec\<close> and the embedded programs are
  part of the image, which lies below the heap and below user space.
\<close>

definition layout_ok :: "machine \<Rightarrow> kernel \<Rightarrow> bool" where
  "layout_ok m k \<longleftrightarrow> unat (m_exec_buf m) + 4096 \<le> unat (heap_start (k_mm k))
     \<and> m_user_hello m < USER_SPACE_START \<and> m_user_loop m < USER_SPACE_START \<and> m_user_crash m < USER_SPACE_START"

lemma low_write_inv:
  assumes inv: "heap_inv s bs" and f: "\<And>x. unat (heap_start s) \<le> unat x \<Longrightarrow> f (mem s) x = mem s x"
  shows "heap_inv (mem_update f s) bs"
proof -
  have wf: "heap_wf s bs" using heap_invD(1) [OF inv] .
  have "chain (f (mem s)) (unat (heap_start s)) bs = chain (mem s) (unat (heap_start s)) bs"
  proof (rule chain_cong)
    show "unat (heap_start s) + extent bs \<le> 2 ^ 32" using wf u32_bound [of "heap_end s"] by (simp add: heap_wf_def)
    show "f (mem s) x = mem s x" if "unat x \<in> header_cells (unat (heap_start s)) bs" for x
      by (rule f) (use that in \<open>auto dest: header_cells_bounds\<close>)
  qed
  then show ?thesis using inv by (simp add: heap_inv_def heap_wf_def)
qed

lemma mem_set: "k_mm_update (mem_update (\<lambda>_. f (mem (k_mm k)))) k = k_mm_update (mem_update f) k"
  by (rule kernel.equality) (simp_all add: mm_state.equality)

lemma exec_entry_cases:
  assumes k: "kernel_inv k" and m: "layout_ok m k"
  obtains (refused) e nm where "exec_entry m prog k = Some (k, Some (e, nm))" "e < USER_SPACE_START"
  | (unreadable) "exec_entry m prog k = Some (k, None)"
  | (no_elf) s where "exec_entry m prog k = Some (k_mm_update (mem_update (put_string (m_exec_buf m) s)) k, None)" "text_in 4096 s"
proof (cases "\<exists>p\<in>{''/bin/hello'', ''hello'', ''/bin/loop'', ''loop'', ''/bin/crash'', ''crash''}. str_cmp prog p = 0")
  case True
  let ?e = "if str_cmp prog ''/bin/hello'' = 0 \<or> str_cmp prog ''hello'' = 0 then (m_user_hello m, ''hello'')
    else if str_cmp prog ''/bin/loop'' = 0 \<or> str_cmp prog ''loop'' = 0 then (m_user_loop m, ''loop'') else (m_user_crash m, ''crash'')"
  have "exec_entry m prog k = Some (k, Some (fst ?e, snd ?e))" using True by (auto simp: exec_entry_def)
  moreover have "fst ?e < USER_SPACE_START" using m by (simp add: layout_ok_def)
  ultimately show thesis by (rule refused)
next
  case False
  then have e: "exec_entry m prog k = (case kernel_read m prog 4096 k of None \<Rightarrow> None
        | Some (len, buf) \<Rightarrow>
            if len > 0 then
              (case elf_load (m_exec_buf m) (word_of_int len) (put_string (m_exec_buf m) (the buf) (mem (k_mm k))) of (mm, entry) \<Rightarrow>
                 Some (k_mm_update (mem_update (\<lambda>_. mm)) k, if entry = 0 then None else Some (entry, vfs_basename prog)))
            else Some (k, None))"
    by (simp add: exec_entry_def)
    let ?call = "run_reader m k"
    have rd: "kernel_read m prog 4096 k = Some (vfs_read ?call (Some prog) True 4096 (k_vfs k))"
      using kernel_mm_counts [OF k] by (auto simp: kernel_read_def)
    have call: "text_in 4096 (snd (?call f 4096)) \<and> fst (?call f 4096) = int (length (snd (?call f 4096)))" for f
      by (rule run_reader_text [OF k]) simp
    show thesis
    proof (cases rule: vfs_read_text [OF kernel_invD(2) [OF k], of 4096 ?call prog, OF _ _ call])
      case 3
      then show thesis using unreadable e rd by (auto simp: case_prod_unfold)
    next
      case (4 c)
      have "elf_load a (word_of_int (int (length c))) (put_string a c mm) = (put_string a c mm, 0)" for a mm
        using elf_load_text [OF 4(2), of a mm] by simp
      then show thesis using unreadable no_elf [of c] e rd 4 by (cases c) (simp_all add: mem_set)
    qed (simp_all add: MAX_READ_SIZE_def)
qed

lemma prog_exec_fails:
  assumes k: "kernel_inv k" and m: "layout_ok m k"
  obtains k' f cs where "prog_exec m others argv k = Done 1 (emit cs k')" "k' = k \<or> k' = k_mm_update (mem_update f) k" "kernel_inv k'"
proof (cases "length argv < 2")
  case True
  then show thesis using that [of _ k] k by (auto simp: prog_exec_def Let_def)
next
  case len: False
  show thesis
  proof (cases rule: exec_entry_cases [OF k m, of "argv ! 1"])
    case (1 e nm)
    have "proc_create (m_trapret m) nm e s = (s, -1)" for s
      by (rule proc_create_error) (use 1(2) in \<open>auto simp: entry_ok_def USER_SPACE_START_def\<close>)
    moreover have u: "(emit cs k)\<lparr>k_sched := k_sched k\<rparr> = emit cs k" for cs by (rule kernel.equality) simp_all
    ultimately show thesis using len k 1(1) that [of "_ @ _" k]
      by (auto simp: prog_exec_def ends_def Let_def emit_append u)
  next
    case 2
    then show thesis using len k that [of _ k] by (auto simp: prog_exec_def ends_def Let_def)
  next
    case (3 s)
    obtain bs where bs: "heap_inv (k_mm k) bs" using kernel_invD(1) [OF k] by blast
    have "put_string (m_exec_buf m) s mm x = mm x" if "unat (heap_start (k_mm k)) \<le> unat x" for mm x
      by (rule put_string_outside)
        (use m 3(2) that u32_bound [of "heap_start (k_mm k)"] in \<open>auto simp: layout_ok_def text_in_def\<close>)
    then have "heap_inv (mem_update (put_string (m_exec_buf m) s) (k_mm k)) bs" by (intro low_write_inv [OF bs]) 
    then have "kernel_inv (k_mm_update (mem_update (put_string (m_exec_buf m) s)) k)" using k by (auto simp: kernel_inv_def)
    then show thesis using len 3(1) that by (auto simp: prog_exec_def ends_def Let_def)
  qed
qed

end
