(* ===== verification/Shell_Frame.thy ===== *)
theory Shell_Frame
  imports Exec
begin

unbundle bit_operations_syntax

text \<open>
  What no command of the shell changes: the keyboard, the program table, the process table, the extent of the heap and
  the frequency of the timer.
\<close>

section \<open>Heap calls\<close>

definition heap_span :: "mm_state \<Rightarrow> u32 \<times> u32" where
  "heap_span s = (heap_start s, heap_end s)"

lemma heap_calls_end:
  assumes "heap_inv s bs"
  shows "\<exists>s' p bs'. kmalloc n s = Some (s', p) \<and> heap_inv s' bs' \<and> heap_span s' = heap_span s"
    "\<exists>s' r bs'. kfree q s = Some (s', r) \<and> heap_inv s' bs' \<and> heap_span s' = heap_span s"
    "\<exists>u. mm_used s = Some u" "\<exists>f. mm_free s = Some f"
proof -
  show "\<exists>s' p bs'. kmalloc n s = Some (s', p) \<and> heap_inv s' bs' \<and> heap_span s' = heap_span s"
  proof (cases "n = 0")
    case False
    show ?thesis using kmalloc_spec [OF assms False] assms by (auto simp: heap_span_def split: option.splits)
  qed (use assms in \<open>auto simp: kmalloc_def\<close>)
  show "\<exists>s' r bs'. kfree q s = Some (s', r) \<and> heap_inv s' bs' \<and> heap_span s' = heap_span s"
    using kfree_spec [OF assms, of q] assms by (auto simp: heap_span_def split: if_splits)
  show "\<exists>u. mm_used s = Some u" "\<exists>f. mm_free s = Some f" using mm_counts [OF assms] by auto
qed

text \<open>The heap test allocates and releases three blocks and prints four numbers.\<close>

lemma prog_malloc_test_result:
  assumes k: "kernel_inv k"
  obtains s cs ds bs where "prog_malloc_test k = Done 0 (emit ds ((emit cs k)\<lparr>k_mm := s\<rparr>))" "heap_inv s bs" "heap_span s = heap_span (k_mm k)"
proof -
  obtain b0 where h0: "heap_inv (k_mm k) b0" using kernel_invD(1) [OF k] by blast
  obtain s1 p1 b1 where h1: "kmalloc 64 (k_mm k) = Some (s1, p1)" "heap_inv s1 b1" "heap_span s1 = heap_span (k_mm k)" using heap_calls_end(1) [OF h0] by blast
  obtain s2 p2 b2 where h2: "kmalloc 128 s1 = Some (s2, p2)" "heap_inv s2 b2" "heap_span s2 = heap_span s1" using heap_calls_end(1) [OF h1(2)] by blast
  obtain s3 p3 b3 where h3: "kmalloc 256 s2 = Some (s3, p3)" "heap_inv s3 b3" "heap_span s3 = heap_span s2" using heap_calls_end(1) [OF h2(2)] by blast
  obtain s4 r4 b4 where h4: "kfree p1 s3 = Some (s4, r4)" "heap_inv s4 b4" "heap_span s4 = heap_span s3" using heap_calls_end(2) [OF h3(2)] by blast
  obtain s5 r5 b5 where h5: "kfree p2 s4 = Some (s5, r5)" "heap_inv s5 b5" "heap_span s5 = heap_span s4" using heap_calls_end(2) [OF h4(2)] by blast
  obtain s6 r6 b6 where h6: "kfree p3 s5 = Some (s6, r6)" "heap_inv s6 b6" "heap_span s6 = heap_span s5" using heap_calls_end(2) [OF h5(2)] by blast
  obtain u0 f0 u1 f1 where c: "mm_used (k_mm k) = Some u0" "mm_free (k_mm k) = Some f0" "mm_used s3 = Some u1" "mm_free s3 = Some f1"
    using heap_calls_end(3,4) [OF h0] heap_calls_end(3,4) [OF h3(2)] by blast
  have e: "(emit xs (k'\<lparr>k_mm := s\<rparr>))\<lparr>k_mm := t\<rparr> = (emit xs k')\<lparr>k_mm := t\<rparr>" for xs k' s t
  proof (rule kernel.equality)
    have "k_term (emit xs (k'\<lparr>k_mm := s\<rparr>)) = k_term (emit xs k')"
    proof (induction xs arbitrary: k')
      case (Cons x xs)
      have "console_do x (k'\<lparr>k_mm := s\<rparr>) = (console_do x k')\<lparr>k_mm := s\<rparr>" by (cases x) simp_all
      then show ?case using Cons by (simp add: emit_def)
    qed (simp add: emit_def)
    then show "k_term ((emit xs (k'\<lparr>k_mm := s\<rparr>))\<lparr>k_mm := t\<rparr>) = k_term ((emit xs k')\<lparr>k_mm := t\<rparr>)" by simp
  qed simp_all
  have "\<exists>ds cs. prog_malloc_test k = Done 0 (emit ds ((emit cs k)\<lparr>k_mm := s6\<rparr>))"
    by (simp add: prog_malloc_test_def ends_def Let_def c h1(1) h2(1) h3(1) h4(1) h5(1) h6(1) e flip: emit_append) blast
  then show thesis using that h6(2) h6(3) h5(3) h4(3) h3(3) h2(3) h1(3) by auto
qed

section \<open>Frame\<close>

text \<open>The part of the state that commands leave alone.\<close>

type_synonym core_state = "keyboard \<times> program_entry programs \<times> sched \<times> (u32 \<times> u32) \<times> u32"

definition core :: "kernel \<Rightarrow> core_state" where
  "core k = (k_kbd k, k_progs k, k_sched k, heap_span (k_mm k), frequency (k_timer k))"

definition kept :: "core_state \<Rightarrow> outcome \<Rightarrow> bool" where
  "kept b r \<longleftrightarrow> (case r of Done _ k \<Rightarrow> core k = b | Stopped k \<Rightarrow> core k = b | Hangs \<Rightarrow> True)"

named_theorems kept_intros \<open>rules for programs that keep the core\<close>

lemma core_simps [simp]: "core (emit cs k) = core k" "core (k_term_update f k) = core k" "core (k_timer_update (ports_update g) k) = core k"
  "core (k_shell_update h k) = core k" "core (k\<lparr>k_vfs := v\<rparr>) = core k" "core (k_mm_update (mem_update w) k) = core k"
  by (simp_all add: core_def heap_span_def)

lemma kept_simps [simp]: "kept b (Done v k) \<longleftrightarrow> core k = b" "kept b (Stopped k) \<longleftrightarrow> core k = b" "kept b Hangs"
  by (simp_all add: kept_def)

lemma kept_if [kept_intros]: "(c \<Longrightarrow> kept b x) \<Longrightarrow> (\<not> c \<Longrightarrow> kept b y) \<Longrightarrow> kept b (if c then x else y)"
  by simp

lemma kept_Let [kept_intros]: "kept b (f x) \<Longrightarrow> kept b (let y = x in f y)"
  by simp

lemma kept_option [kept_intros]:
  "(x = None \<Longrightarrow> kept b u) \<Longrightarrow> (\<And>y. x = Some y \<Longrightarrow> kept b (f y)) \<Longrightarrow> kept b (case x of None \<Rightarrow> u | Some y \<Rightarrow> f y)"
  by (cases x) auto

lemma kept_pair [kept_intros]: "(\<And>x y. p = (x, y) \<Longrightarrow> kept b (f x y)) \<Longrightarrow> kept b (case p of (x, y) \<Rightarrow> f x y)"
  by (cases p) auto

lemma kept_ends [kept_intros]: "(\<And>a. x = Some a \<Longrightarrow> kept b (f a)) \<Longrightarrow> kept b (ends x f)"
  by (cases x) (simp_all add: ends_def)

lemma kept_end [kept_intros]: "core k = b \<Longrightarrow> kept b (Done v k)" "core k = b \<Longrightarrow> kept b (Stopped k)" "kept b Hangs"
  by simp_all

lemma vfs_do_core: "vfs_do f k = (k', r) \<Longrightarrow> core k' = core k"
  by (auto simp: vfs_do_def split: prod.splits)

lemma file_programs_kept:
  "kept (core k) (prog_touch argv k)" "kept (core k) (prog_write argv k)" "kept (core k) (prog_rm argv k)"
  "kept (core k) (prog_mv argv k)" "kept (core k) (prog_mkdir argv k)" "kept (core k) (prog_chmod argv k)"
  "kept (core k) (prog_cp m argv k)" "kept (core k) (prog_append m argv k)"
  unfolding prog_touch_def prog_write_def prog_rm_def prog_mv_def prog_mkdir_def prog_chmod_def prog_cp_def prog_append_def
  by (intro kept_intros; auto dest!: vfs_do_core split: if_splits)+

lemma info_programs_kept:
  "kept (core k) (prog_help k)" "kept (core k) (prog_about m k)" "kept (core k) (prog_fastfetch k)" "kept (core k) (prog_roadmap k)"
  "kept (core k) (prog_stat argv k)" "kept (core k) (prog_uname argv k)" "kept (core k) (prog_uptime k)"
  "kept (core k) (prog_free k)" "kept (core k) (prog_cpuid m k)" "kept (core k) (prog_ps k)" "kept (core k) (prog_ls argv k)"
  "kept (core k) (prog_cat m argv k)" "kept (core k) (prog_echo argv k)" "kept (core k) (prog_display k)" "kept (core k) (prog_clear k)"
  "kept (core k) (prog_halt k)"
  unfolding prog_help_def prog_about_def prog_fastfetch_def prog_roadmap_def prog_stat_def prog_uname_def prog_uptime_def
    prog_free_def prog_cpuid_def prog_ps_def prog_ls_def prog_cat_def prog_echo_def prog_display_def prog_clear_def prog_halt_def
  by (intro kept_intros; auto split: if_splits)+

lemma constant_programs_kept:
  "kept (core k) (prog_whoami k)" "kept (core k) (prog_hostname k)" "kept (core k) (prog_pwd k)" "kept (core k) (prog_id k)"
  "kept (core k) (prog_arch k)"
  by (simp_all add: prog_whoami_def prog_hostname_def prog_pwd_def prog_id_def prog_arch_def)

lemma other_programs_kept:
  "kept (core k) (prog_service argv k)" "kept (core k) (prog_date m k)" "kernel_inv k \<Longrightarrow> kept (core k) (prog_malloc_test k)"
  "kernel_inv k \<Longrightarrow> layout_ok m k \<Longrightarrow> kept (core k) (prog_exec m others argv k)"
proof -
  show "kept (core k) (prog_service argv k)" unfolding prog_service_def by (intro kept_intros; simp add: upd_service_def)
  show "kept (core k) (prog_date m k)" by (simp add: prog_date_def read_cmos_def k_outb_def Let_def core_def)
  show "kept (core k) (prog_malloc_test k)" if "kernel_inv k"
    by (rule prog_malloc_test_result [OF that]) (simp add: core_def)
  show "kept (core k) (prog_exec m others argv k)" if "kernel_inv k" "layout_ok m k"
    by (rule prog_exec_fails [OF that, of others argv]) auto
qed

lemma run_program_kept:
  "kernel_inv k \<Longrightarrow> layout_ok m k \<Longrightarrow> f \<noteq> Prog_reboot \<Longrightarrow> kept (core k) (run_program m others f argv k)"
  by (cases f) (simp_all add: file_programs_kept info_programs_kept constant_programs_kept other_programs_kept)

lemma prompt_core [simp]: "core (prompt_unless_batch k) = core k" "core (after_command k) = core k"
  by (simp_all add: prompt_unless_batch_def after_command_def print_prompt_def Let_def)

lemma then_kept: "kept b r \<Longrightarrow> (\<And>k. core (g k) = core k) \<Longrightarrow>
    kept b (case r of Done v k \<Rightarrow> Done 0 (g k) | Stopped k \<Rightarrow> Stopped k | Hangs \<Rightarrow> Hangs)"
  by (cases r) auto

section \<open>Commands\<close>

text \<open>Every program in the table has an entry point, and none is \<open>reboot\<close>, for which the table of the shell has no room.\<close>

definition table_ok :: "program_entry programs \<Rightarrow> bool" where
  "table_ok ps \<longleftrightarrow> (\<forall>nm i. program_find nm ps = Some i \<longrightarrow> pg_entry (prog_table ps ! i) \<notin> {None, Some Prog_reboot})"

text \<open>The invariants of the components, with what the image and the program table are.\<close>

definition sys_inv :: "machine \<Rightarrow> kernel \<Rightarrow> bool" where
  "sys_inv m k \<longleftrightarrow> kernel_inv k \<and> layout_ok m k \<and> table_ok (k_progs k)"

lemma layout_ok_core: "core k' = core k \<Longrightarrow> layout_ok m k' = layout_ok m k"
  by (simp add: layout_ok_def core_def heap_span_def)

lemma sys_inv_core: "core k' = core k \<Longrightarrow> kernel_inv k' \<Longrightarrow> sys_inv m k \<Longrightarrow> sys_inv m k'"
  using layout_ok_core [of k' k m] by (simp add: sys_inv_def core_def)

lemma execute_command_kept:
  assumes k: "sys_inv m k"
  shows "kept (core k) (snd (execute_command m others cmd k))"
proof -
  let ?k = "emit [C (colour VGA_COLOR_LIGHT_GREY)] k"
  have k': "kernel_inv ?k" "layout_ok m ?k" "core ?k = core k" using k by (simp_all add: sys_inv_def layout_ok_def)
  have run: "kept (core k) (run_program m others f argv ?k)"
    if "program_find nm (k_progs ?k) = Some i" "pg_entry (prog_table (k_progs ?k) ! i) = Some f" for nm i f argv
    using run_program_kept [OF k'(1,2), of f others argv] k'(3) that k by (auto simp: sys_inv_def table_ok_def)
  have clear: "kept (core k) (prog_clear ?k)" using info_programs_kept(15) [of ?k] by simp
  have halt: "kept (core k) (prog_halt ?k)" using info_programs_kept(16) [of ?k] by simp
  have snd_if: "snd (if c then x else y) = (if c then snd x else snd y)" for c and x y :: "char list \<times> outcome" by simp
  have snd_case: "snd (case q of (a, b) \<Rightarrow> g a b) = (case q of (a, b) \<Rightarrow> snd (g a b))" for q and g :: "char list \<Rightarrow> nat list \<Rightarrow> char list \<times> outcome"
    by (cases q) simp
  show ?thesis
    unfolding execute_command_def Let_def snd_if snd_case snd_conv
    by (intro kept_intros then_kept run clear halt; (assumption | simp)?)
qed

end
