(* ===== verification/Shell_Props.thy ===== *)
theory Shell_Props
  imports Shell_Frame
begin

unbundle bit_operations_syntax

text \<open>
  The properties of the shell: command lines are split into their words, every command keeps the kernel consistent,
  and line editing.
\<close>

section \<open>Splitting into words\<close>

text \<open>The specification: the maximal runs of characters other than the space.\<close>

function split_words :: "string \<Rightarrow> string list" where
  "split_words s = (case dropWhile (\<lambda>c. c = CHR '' '') s of [] \<Rightarrow> []
     | t \<Rightarrow> takeWhile (\<lambda>c. c \<noteq> CHR '' '') t # split_words (dropWhile (\<lambda>c. c \<noteq> CHR '' '') t))"
  by pat_completeness auto
termination
proof (relation "measure length")
  fix s :: string and x xs
  assume t: "dropWhile (\<lambda>c. c = CHR '' '') s = x # xs"
  then have "x \<noteq> CHR '' ''" using hd_dropWhile [of "\<lambda>c. c = CHR '' ''" s] by simp
  then have "length (dropWhile (\<lambda>c. c \<noteq> CHR '' '') (x # xs)) \<le> length xs" by (simp add: length_dropWhile_le)
  moreover have "length (x # xs) \<le> length s" using length_dropWhile_le [of "\<lambda>c. c = CHR '' ''" s] t by simp
  ultimately show "(dropWhile (\<lambda>c. c \<noteq> CHR '' '') (x # xs), s) \<in> measure length" by simp
qed simp

declare split_words.simps [simp del]

lemma split_words_simps [simp]: "split_words [] = []" "split_words (CHR '' '' # s) = split_words s"
  by (simp_all add: split_words.simps)

lemma split_words_word: "w \<noteq> [] \<Longrightarrow> CHR '' '' \<notin> set w \<Longrightarrow> split_words (w @ s) =
    (case s of [] \<Rightarrow> [w] | c # t \<Rightarrow> if c = CHR '' '' then w # split_words t else split_words (w @ s))"
proof -
  assume w: "w \<noteq> []" "CHR '' '' \<notin> set w"
  then obtain c w' where c: "w = c # w'" "c \<noteq> CHR '' ''" by (cases w) auto
  have tw: "takeWhile (\<lambda>c. c \<noteq> CHR '' '') (w @ u) = w @ takeWhile (\<lambda>c. c \<noteq> CHR '' '') u"
    "dropWhile (\<lambda>c. c \<noteq> CHR '' '') (w @ u) = dropWhile (\<lambda>c. c \<noteq> CHR '' '') u" for u
    using w(2) by (induction w) auto
  have d: "dropWhile (\<lambda>c. c = CHR '' '') (w @ s) = w @ s" using c by simp
  show ?thesis
  proof (cases s)
    case Nil
    have "dropWhile (\<lambda>c. c \<noteq> CHR '' '') w' = []" using w(2) c by auto
    then have "split_words w = [w]" using c tw(1) [of "[]"] by (subst split_words.simps) (simp del: dropWhile_eq_Nil_conv)
    then show ?thesis using Nil by simp
  next
    case (Cons a t)
    have "split_words (w @ CHR '' '' # t) = w # split_words (CHR '' '' # t)"
      using tw [of "CHR '' '' # t"] c by (subst split_words.simps) simp
    then show ?thesis using Cons by auto
  qed
qed

lemma char_at_drop: "char_at buf (p + n) = char_at (drop p buf) n"
  by (auto simp: char_at_def)

lemma skip_spaces_eq: "skip_spaces buf p = p + length (takeWhile (\<lambda>c. c = CHR '' '') (drop p buf))"
proof (induction buf p rule: skip_spaces.induct)
  case (1 buf p)
  show ?case
  proof (cases "p < length buf")
    case True
    then show ?thesis using 1 by (simp add: skip_spaces.simps [of buf p] Cons_nth_drop_Suc [symmetric] char_at_def)
  qed (simp add: skip_spaces.simps [of buf p] char_at_def)
qed

lemma skip_word_eq: "skip_word buf p = p + length (takeWhile (\<lambda>c. c \<noteq> NUL \<and> c \<noteq> CHR '' '') (drop p buf))"
proof (induction buf p rule: skip_word.induct)
  case (1 buf p)
  show ?case
  proof (cases "p < length buf")
    case True
    then show ?thesis using 1 by (simp add: skip_word.simps [of buf p] Cons_nth_drop_Suc [symmetric] char_at_def)
  qed (simp add: skip_word.simps [of buf p] char_at_def)
qed

lemma str_at_skip: "split_words (str_at buf (skip_spaces buf p)) = split_words (str_at buf p)"
proof (induction buf p rule: skip_spaces.induct)
  case (1 buf p)
  show ?case
  proof (cases "char_at buf p = CHR '' ''")
    case True
    then have "p < length buf" "buf ! p = CHR '' ''" by (auto simp: char_at_def split: if_splits)
    then have "str_at buf p = CHR '' '' # str_at buf (p + 1)"
      by (simp add: str_at_def as_cstr_def Cons_nth_drop_Suc [symmetric])
    then show ?thesis using 1 True by (simp add: skip_spaces.simps [of buf p])
  qed (simp add: skip_spaces.simps [of buf p])
qed

text \<open>The word that starts at \<open>p\<close> ends at \<open>skip_word\<close>.\<close>

lemma str_at_word:
  "str_at buf p = takeWhile (\<lambda>c. c \<noteq> NUL \<and> c \<noteq> CHR '' '') (drop p buf) @ str_at buf (skip_word buf p)"
proof (induction buf p rule: skip_word.induct)
  case (1 buf p)
  show ?case
  proof (cases "char_at buf p \<noteq> NUL \<and> char_at buf p \<noteq> CHR '' ''")
    case True
    then have p: "p < length buf" "buf ! p \<noteq> NUL" "buf ! p \<noteq> CHR '' ''" by (auto simp: char_at_def split: if_splits)
    then have "str_at buf p = buf ! p # str_at buf (p + 1)"
      by (simp add: str_at_def as_cstr_def Cons_nth_drop_Suc [symmetric])
    then show ?thesis using 1 True p by (simp add: skip_word.simps [of buf p] Cons_nth_drop_Suc [symmetric])
  next
    case False
    then have "takeWhile (\<lambda>c. c \<noteq> NUL \<and> c \<noteq> CHR '' '') (drop p buf) = []"
      by (cases "p < length buf") (auto simp: char_at_def Cons_nth_drop_Suc [symmetric])
    then show ?thesis using False by (auto simp: skip_word.simps [of buf p])
  qed
qed

lemma str_at_take: "take n buf' = take n buf \<Longrightarrow> p < n \<Longrightarrow> n \<le> length buf \<Longrightarrow> buf ! (n - 1) = NUL \<Longrightarrow> str_at buf' p = str_at buf p"
proof -
  assume a: "take n buf' = take n buf" "p < n" "n \<le> length buf" "buf ! (n - 1) = NUL"
  have "str_at b p = as_cstr (drop p (take n buf))" if b: "take n b = take n buf" for b
  proof -
    have len: "length (take n b) = n" using b a(3) by simp
    have "drop p (take n buf) ! (n - 1 - p) = NUL" "n - 1 - p < length (drop p (take n buf))" using a(2-4) by simp_all
    then have nul: "NUL \<in> set (drop p (take n buf))" by (metis nth_mem)
    have "drop p b = drop p (take n b @ drop n b)" by simp
    also have "\<dots> = drop p (take n b) @ drop n b" by (subst drop_append) (use len a(2) in simp)
    finally show ?thesis using nul b by (simp add: str_at_def as_cstr_def takeWhile_append1 [of NUL])
  qed
  then show ?thesis using a(1) by simp
qed

lemma skip_stops:
  "char_at buf (skip_spaces buf p) \<noteq> CHR '' ''"
  "char_at buf (skip_word buf p) = NUL \<or> char_at buf (skip_word buf p) = CHR '' ''"
proof -
  show "char_at buf (skip_spaces buf p) \<noteq> CHR '' ''"
    by (induction buf p rule: skip_spaces.induct) (subst skip_spaces.simps, auto)
  show "char_at buf (skip_word buf p) = NUL \<or> char_at buf (skip_word buf p) = CHR '' ''"
  proof (induction buf p rule: skip_word.induct)
    case (1 buf p)
    then show ?case by (cases "char_at buf p \<noteq> NUL \<and> char_at buf p \<noteq> CHR '' ''") (auto simp: skip_word.simps [of buf p])
  qed
qed

lemma str_at_nul: "char_at buf p = NUL \<Longrightarrow> str_at buf p = []"
  by (cases "p < length buf") (auto simp: str_at_def as_cstr_def char_at_def Cons_nth_drop_Suc [symmetric])

lemma str_at_Cons: "char_at buf p \<noteq> NUL \<Longrightarrow> p < length buf \<and> str_at buf p = char_at buf p # str_at buf (p + 1)"
  by (cases "p < length buf") (auto simp: str_at_def as_cstr_def char_at_def Cons_nth_drop_Suc [symmetric])

text \<open>One word of the line: it starts at \<open>q\<close> and ends at \<open>e\<close>, where its space is overwritten.\<close>

lemma word_at:
  fixes buf :: "char list"
  assumes q: "char_at buf q \<noteq> NUL" "char_at buf q \<noteq> CHR '' ''"
  defines "e \<equiv> skip_word buf q"
  obtains w where "w \<noteq> []" "CHR '' '' \<notin> set w" "NUL \<notin> set w" "e = q + length w" "str_at buf q = w @ str_at buf e"
    "char_at buf e \<noteq> NUL \<Longrightarrow> e < length buf \<and> str_at buf e = CHR '' '' # str_at buf (e + 1) \<and> str_at (buf[e := NUL]) q = w"
proof -
  define w where "w = takeWhile (\<lambda>c. c \<noteq> NUL \<and> c \<noteq> CHR '' '') (drop q buf)"
  have ql: "q < length buf" using str_at_Cons [OF q(1)] by simp
  have w: "w \<noteq> []" "CHR '' '' \<notin> set w" "NUL \<notin> set w" "e = q + length w" "str_at buf q = w @ str_at buf e"
    using q ql str_at_word [of buf q] by (auto simp: w_def e_def skip_word_eq char_at_def Cons_nth_drop_Suc [symmetric] dest: set_takeWhileD)
  have "e < length buf \<and> str_at buf e = CHR '' '' # str_at buf (e + 1) \<and> str_at (buf[e := NUL]) q = w" if "char_at buf e \<noteq> NUL"
  proof (intro conjI)
    have sp: "char_at buf e = CHR '' ''" using skip_stops(2) [of buf q] that by (simp add: e_def)
    show "e < length buf" "str_at buf e = CHR '' '' # str_at buf (e + 1)" using str_at_Cons [OF that] sp by simp_all
    have "drop q (buf[e := NUL]) = take (length w) (drop q buf) @ NUL # drop (e + 1) buf"
      using \<open>e < length buf\<close> w(4) by (simp add: upd_conv_take_nth_drop take_drop add.commute)
    moreover have "take (length w) (drop q buf) = w" by (simp add: w_def takeWhile_eq_take [symmetric])
    moreover have "\<forall>c\<in>set w. c \<noteq> NUL" using w(3) by auto
    ultimately show "str_at (buf[e := NUL]) q = w" by (simp add: str_at_def as_cstr_def)
  qed
  then show thesis using that w by blast
qed

lemma parse_loop_spec:
  "\<exists>ps. snd (parse_loop n buf p argv) = argv @ ps \<and> take p (fst (parse_loop n buf p argv)) = take p buf
     \<and> map (str_at (fst (parse_loop n buf p argv))) ps = take (n - length argv) (split_words (str_at buf p))"
proof (induction n buf p argv rule: parse_loop.induct)
  case (1 n buf p argv)
  define q where "q = skip_spaces buf p"
  define e where "e = skip_word buf q"
  note unf = parse_loop.simps [of n buf p argv] q_def [symmetric] e_def [symmetric]
  have pq: "p \<le> q" "split_words (str_at buf p) = split_words (str_at buf q)"
    using str_at_skip [of buf p] by (simp_all add: q_def skip_spaces_eq)
  consider (none) "char_at buf p = NUL \<or> n \<le> length argv" | (spaces) "char_at buf p \<noteq> NUL" "length argv < n" "char_at buf q = NUL"
    | (word) "char_at buf p \<noteq> NUL" "length argv < n" "char_at buf q \<noteq> NUL" by fastforce
  then show ?case
  proof cases
    case none
    then have "split_words (str_at buf p) = [] \<or> n - length argv = 0" by (auto simp: str_at_nul)
    then show ?thesis using none by (auto simp: unf)
  next
    case spaces
    then show ?thesis using pq(2) by (simp add: unf str_at_nul)
  next
    case word
    have qs: "char_at buf q \<noteq> CHR '' ''" using skip_stops(1) [of buf p] by (simp add: q_def)
    obtain w where w: "w \<noteq> []" "CHR '' '' \<notin> set w" "NUL \<notin> set w" "e = q + length w" "str_at buf q = w @ str_at buf e"
        "char_at buf e \<noteq> NUL \<Longrightarrow> e < length buf \<and> str_at buf e = CHR '' '' # str_at buf (e + 1) \<and> str_at (buf[e := NUL]) q = w"
      using word_at [OF word(3) qs] unfolding e_def by blast
    show ?thesis
    proof (cases "char_at buf e = NUL")
      case True
      have "parse_loop n buf p argv = (buf, argv @ [q])"
        using word True by (simp add: unf Let_def parse_loop.simps [of n buf e])
      moreover have "split_words (str_at buf q) = [w]" using split_words_word [OF w(1,2), of "[]"] w(5) str_at_nul [OF True] by simp
      ultimately show ?thesis using pq(2) w(5) str_at_nul [OF True] word(2) by simp
    next
      case False
      let ?b = "buf[e := NUL]"
      note e = w(6) [OF False]
      have r: "parse_loop n buf p argv = parse_loop n ?b (e + 1) (argv @ [q])"
        using word False by (simp add: unf Let_def)
      from "1.IH"(1) [OF _ q_def _ refl e_def] word False
      obtain ps where ps: "snd (parse_loop n ?b (e + 1) (argv @ [q])) = (argv @ [q]) @ ps"
          "take (e + 1) (fst (parse_loop n ?b (e + 1) (argv @ [q]))) = take (e + 1) ?b"
          "map (str_at (fst (parse_loop n ?b (e + 1) (argv @ [q])))) ps
             = take (n - length (argv @ [q])) (split_words (str_at ?b (e + 1)))" by blast
      let ?b' = "fst (parse_loop n ?b (e + 1) (argv @ [q]))"
      have "str_at ?b' q = str_at ?b q" using str_at_take [OF ps(2), of q] e w(4) by simp
      moreover have "str_at ?b (e + 1) = str_at buf (e + 1)" by (simp add: str_at_def)
      moreover have "split_words (str_at buf q) = w # split_words (str_at buf (e + 1))"
        using split_words_word [OF w(1,2), of "str_at buf e"] w(5) e by simp
      moreover have "take p ?b' = take p buf"
      proof -
        have "take p ?b' = take p (take (e + 1) ?b')" using pq(1) w(4) by (simp add: min_def)
        then show ?thesis unfolding ps(2) using pq(1) w(4) by (simp add: min_def)
      qed
      moreover have "take (n - length argv) (x # xs) = x # take (n - length (argv @ [q])) xs" for x :: string and xs
        using word(2) by (simp add: take_Cons')
      ultimately show ?thesis
        using ps(1,3) pq(2) e unfolding r by (intro exI [of _ "q # ps"]) simp
    qed
  qed
qed

text \<open>
  C13: a command line is split into its words: \<open>parse_args\<close> gives, as the C strings at the pointers it stores, exactly
  the first \<open>n\<close> maximal runs of non-space characters of the line, whatever number of spaces separate them.
\<close>

theorem parse_args_words:
  "map (str_at (fst (parse_args buf n))) (snd (parse_args buf n)) = take n (split_words (as_cstr buf))"
  using parse_loop_spec [of n buf 0 "[]"] by (auto simp: parse_args_def str_at_def)

section \<open>Programs keep the kernel consistent\<close>

named_theorems ok_intros \<open>rules for the outcome of a program\<close>

definition outcome_ok :: "outcome \<Rightarrow> bool" where
  "outcome_ok r = (case r of Done _ k \<Rightarrow> kernel_inv k | Stopped k \<Rightarrow> kernel_inv k | Hangs \<Rightarrow> False)"

definition vfs_keeps :: "(proc_reader vfs \<Rightarrow> proc_reader vfs \<times> int) \<Rightarrow> bool" where
  "vfs_keeps f \<longleftrightarrow> (\<forall>v. vfs_inv v \<longrightarrow> vfs_inv (fst (f v)))"

lemma outcome_ok_simps [simp]: "outcome_ok (Done r k) = kernel_inv k" "outcome_ok (Stopped k) = kernel_inv k" "\<not> outcome_ok Hangs"
  by (simp_all add: outcome_ok_def)

lemma outcome_ok_if [ok_intros]: "(c \<Longrightarrow> outcome_ok a) \<Longrightarrow> (\<not> c \<Longrightarrow> outcome_ok b) \<Longrightarrow> outcome_ok (if c then a else b)"
  by simp

lemma outcome_ok_Let [ok_intros]: "outcome_ok (f x) \<Longrightarrow> outcome_ok (let y = x in f y)"
  by simp

lemma outcome_ok_option [ok_intros]:
  "(x = None \<Longrightarrow> outcome_ok a) \<Longrightarrow> (\<And>y. x = Some y \<Longrightarrow> outcome_ok (f y)) \<Longrightarrow> outcome_ok (case x of None \<Rightarrow> a | Some y \<Rightarrow> f y)"
  by (cases x) auto

lemma outcome_ok_Done [ok_intros]: "kernel_inv k \<Longrightarrow> outcome_ok (Done r k)"
  by simp

lemma ends_ok: "x = Some a \<Longrightarrow> outcome_ok (f a) \<Longrightarrow> outcome_ok (ends x f)"
  by (simp add: ends_def)

lemma ends_used: "kernel_inv k \<Longrightarrow> (\<And>u. outcome_ok (f u)) \<Longrightarrow> outcome_ok (ends (mm_used (k_mm k)) f)"
  by (erule kernel_mm_counts) (rule ends_ok)

lemma ends_free: "kernel_inv k \<Longrightarrow> (\<And>u. outcome_ok (f u)) \<Longrightarrow> outcome_ok (ends (mm_free (k_mm k)) f)"
  by (erule kernel_mm_counts) (rule ends_ok)

lemma ends_read: "kernel_inv k \<Longrightarrow> (\<And>len buf. outcome_ok (f len buf)) \<Longrightarrow> outcome_ok (ends (kernel_read m path sz k) (\<lambda>(len, buf). f len buf))"
  using kernel_read_ends [of k m path sz] by (auto intro: ends_ok)

lemma vfs_do_ok: "kernel_inv k \<Longrightarrow> vfs_keeps f \<Longrightarrow> kernel_inv (fst (vfs_do f k))"
  using kernel_invD(2) [of k] by (auto simp: vfs_do_def vfs_keeps_def case_prod_unfold)

lemma ok_vfs_do:
  assumes "kernel_inv k" "vfs_keeps f" "\<And>k r. kernel_inv k \<Longrightarrow> outcome_ok (g k r)"
  shows "outcome_ok (case vfs_do f k of (k, r) \<Rightarrow> g k r)"
    "outcome_ok (case (if c then vfs_do f k else (k, x)) of (k, r) \<Rightarrow> g k r)"
  using vfs_do_ok [OF assms(1,2)] assms(1,3) by (auto simp: case_prod_unfold)

lemma vfs_keeps_ops:
  "c_string p \<Longrightarrow> c_string c \<Longrightarrow> vfs_keeps (vfs_mkfile (Some p) (Some c))" "c_string p \<Longrightarrow> vfs_keeps (vfs_mkdir (Some p))"
  "c_string p \<Longrightarrow> vfs_keeps (vfs_write (Some p) d n)" "c_string p \<Longrightarrow> vfs_keeps (vfs_remove (Some p))"
  "c_string p \<Longrightarrow> c_string q \<Longrightarrow> vfs_keeps (vfs_rename (Some p) (Some q))" "c_string p \<Longrightarrow> vfs_keeps (vfs_chmod (Some p) x)"
  unfolding vfs_keeps_def
  by (auto intro!: vfs_step_inv [OF vfs_step.mkfile] vfs_step_inv [OF vfs_step.mkdir] vfs_step_inv [OF vfs_step.wr]
      vfs_step_inv [OF vfs_step.remove] vfs_rename_inv vfs_chmod_inv simp: cstr_ok_def)

definition args_ok :: "string list \<Rightarrow> bool" where
  "args_ok argv \<longleftrightarrow> argv \<noteq> [] \<and> (\<forall>a\<in>set argv. c_string a)"

lemma args_okD: "args_ok argv \<Longrightarrow> i < length argv \<Longrightarrow> c_string (argv ! i)"
  by (simp add: args_ok_def)

lemma file_programs_ok:
  assumes k: "kernel_inv k" and a: "args_ok argv"
  shows "outcome_ok (prog_touch argv k)" "outcome_ok (prog_write argv k)" "outcome_ok (prog_rm argv k)" "outcome_ok (prog_mv argv k)"
    "outcome_ok (prog_mkdir argv k)" "outcome_ok (prog_chmod argv k)" "outcome_ok (prog_cp m argv k)" "outcome_ok (prog_append m argv k)"
proof -
  note d = ok_vfs_do vfs_keeps_ops args_okD [OF a] k emit_inv ends_read ok_intros c_string_simps(1)
  show "outcome_ok (prog_touch argv k)" unfolding prog_touch_def by (intro d) auto
  show "outcome_ok (prog_write argv k)" unfolding prog_write_def by (intro d) auto
  show "outcome_ok (prog_rm argv k)" unfolding prog_rm_def by (intro d) auto
  show "outcome_ok (prog_mv argv k)" unfolding prog_mv_def by (intro d) auto
  show "outcome_ok (prog_mkdir argv k)" unfolding prog_mkdir_def by (intro d) auto
  show "outcome_ok (prog_chmod argv k)" unfolding prog_chmod_def by (intro d) auto
  show "outcome_ok (prog_cp m argv k)" unfolding prog_cp_def by (intro d) auto
  show "outcome_ok (prog_append m argv k)" unfolding prog_append_def by (intro d) auto
qed

lemma kernel_inv_shell: "kernel_inv k \<Longrightarrow> kernel_inv (k_shell_update (services_update f) k)"
    "kernel_inv k \<Longrightarrow> kernel_inv (k_shell_update (shell_batch_mode_update g) k)"
  by (simp_all add: kernel_inv_def shell_ok_def)

lemma kernel_inv_clear: "kernel_inv k \<Longrightarrow> kernel_inv (k_term_update terminal_clear k)"
  by (simp add: kernel_inv_def)

lemma info_programs_ok:
  assumes k: "kernel_inv k"
  shows "outcome_ok (prog_help k)" "outcome_ok (prog_about m k)" "outcome_ok (prog_fastfetch k)" "outcome_ok (prog_roadmap k)"
    "outcome_ok (prog_stat argv k)" "outcome_ok (prog_uname argv k)" "outcome_ok (prog_uptime k)" "outcome_ok (prog_date m k)"
    "outcome_ok (prog_free k)" "outcome_ok (prog_cpuid m k)" "outcome_ok (prog_ps k)" "outcome_ok (prog_ls argv k)"
    "outcome_ok (prog_cat m argv k)" "outcome_ok (prog_echo argv k)" "outcome_ok (prog_display k)" "outcome_ok (prog_clear k)"
    "outcome_ok (prog_halt k)"
  using k
  by (simp_all add: prog_help_def prog_about_def prog_fastfetch_def prog_roadmap_def prog_stat_def prog_uname_def prog_uptime_def
      prog_date_def read_cmos_def prog_free_def prog_cpuid_def prog_ps_def prog_ls_def prog_cat_def prog_echo_def prog_display_def
      prog_clear_def prog_halt_def Let_def ends_used ends_free ends_read kernel_inv_clear split: option.splits)

lemma constant_programs_ok:
  assumes "kernel_inv k"
  shows "outcome_ok (prog_whoami k)" "outcome_ok (prog_hostname k)" "outcome_ok (prog_pwd k)" "outcome_ok (prog_id k)" "outcome_ok (prog_arch k)"
  using assms by (simp_all add: prog_whoami_def prog_hostname_def prog_pwd_def prog_id_def prog_arch_def)

lemma prog_service_ok: "kernel_inv k \<Longrightarrow> outcome_ok (prog_service argv k)"
  by (simp add: prog_service_def upd_service_def Let_def kernel_inv_shell split: option.splits)

lemma prog_malloc_test_ok: "kernel_inv k \<Longrightarrow> outcome_ok (prog_malloc_test k)"
  by (rule prog_malloc_test_result) (auto intro!: emit_inv kernel_inv_update(1))

lemma prog_exec_ok: "kernel_inv k \<Longrightarrow> layout_ok m k \<Longrightarrow> outcome_ok (prog_exec m others argv k)"
  by (rule prog_exec_fails [where others = others and argv = argv]) auto

lemma run_program_ok:
  assumes "kernel_inv k" "layout_ok m k" "args_ok argv" "f \<noteq> Prog_reboot"
  shows "outcome_ok (run_program m others f argv k)"
  using assms by (cases f) (simp_all add: file_programs_ok info_programs_ok constant_programs_ok prog_service_ok prog_malloc_test_ok prog_exec_ok)

section \<open>Commands keep the kernel consistent\<close>

lemma prompt_inv: "kernel_inv k \<Longrightarrow> kernel_inv (prompt_unless_batch k)" "kernel_inv k \<Longrightarrow> kernel_inv (after_command k)"
  by (auto simp: prompt_unless_batch_def after_command_def print_prompt_def Let_def)

lemma run_then_ok: "outcome_ok r \<Longrightarrow> (\<And>k. kernel_inv k \<Longrightarrow> kernel_inv (g k)) \<Longrightarrow>
    outcome_ok (case r of Done v k \<Rightarrow> Done 0 (g k) | Stopped k \<Rightarrow> Stopped k | Hangs \<Rightarrow> Hangs)"
  by (cases r) auto

lemma command_args: "map (str_at (fst (parse_args cmd n))) (snd (parse_args cmd n)) \<noteq> [] \<Longrightarrow>
    args_ok (map (str_at (fst (parse_args cmd n))) (snd (parse_args cmd n)))"
  by (auto simp: args_ok_def str_at_def)

lemma parse_words: "map (str_at (fst (parse_args buf n))) (snd (parse_args buf n)) = take n (split_words (as_cstr buf))"
  using parse_loop_spec [of n buf 0 "[]"] by (auto simp: parse_args_def str_at_def)

lemma execute_command_result:
  assumes k: "sys_inv m k"
  shows "outcome_ok (snd (execute_command m others cmd k))"
proof -
  obtain cmd' ps where pa: "parse_args cmd 16 = (cmd', ps)" by fastforce
  let ?argv = "map (str_at cmd') ps"
  have ok: "?argv \<noteq> [] \<Longrightarrow> args_ok ?argv" using command_args [of cmd 16] pa by simp
  let ?k = "emit [C (colour VGA_COLOR_LIGHT_GREY)] k"
  have k': "kernel_inv ?k" "layout_ok m ?k" using k by (simp_all add: sys_inv_def layout_ok_def)
  have run: "outcome_ok (case run_program m others f ?argv ?k of Done r k \<Rightarrow> Done 0 (after_command k) | Stopped k \<Rightarrow> Stopped k | Hangs \<Rightarrow> Hangs)"
    if "?argv \<noteq> []" "f \<noteq> Prog_reboot" for f
    by (rule run_then_ok [OF run_program_ok [OF k' ok [OF that(1)] that(2)] prompt_inv(2)])
  have clear: "outcome_ok (case prog_clear ?k of Done r k \<Rightarrow> Done 0 (prompt_unless_batch k) | Stopped k \<Rightarrow> Stopped k | Hangs \<Rightarrow> Hangs)"
    by (rule run_then_ok [OF info_programs_ok(16) [OF k'(1)] prompt_inv(1)])
  have found: "pg_entry (prog_table (k_progs ?k) ! i) \<noteq> None \<and> the (pg_entry (prog_table (k_progs ?k) ! i)) \<noteq> Prog_reboot"
    if "program_find (?argv ! 0) (k_progs ?k) = Some i" for i
    using k that by (fastforce simp: sys_inv_def table_ok_def)
  show ?thesis
    unfolding execute_command_def Let_def
    using k'(1) clear run found by (auto simp: pa prompt_inv info_programs_ok(17) split: option.splits)
qed

lemma length_parse_loop: "length (fst (parse_loop n buf p argv)) = length buf"
proof (induction n buf p argv rule: parse_loop.induct)
  case (1 n buf p argv)
  then show ?case by (subst parse_loop.simps) (simp add: Let_def)
qed

lemma length_execute_command: "length (fst (execute_command m others cmd k)) = length cmd"
  using length_parse_loop [of 16 cmd 0 "[]"]
  by (auto simp: execute_command_def Let_def parse_args_def split: prod.splits)


lemma shell_input_kept:
  assumes "sys_inv m k"
  shows "kept (core k) (shell_input m others c k)"
proof (cases "c = CHR 0x0A")
  case True
  define k1 where "k1 = k_shell_update (\<lambda>s. s\<lparr>cmd_buffer := (cmd_buffer s)[cmd_index s := NUL]\<rparr>) k"
  have k1: "core k1 = core k" "sys_inv m k1"
    using assms by (simp_all add: k1_def sys_inv_def kernel_inv_def layout_ok_def shell_ok_def)
  from execute_command_kept [OF k1(2), of others "cmd_buffer (k_shell k1)"] show ?thesis
    unfolding shell_input_def Let_def k1_def [symmetric] case_prod_unfold
    by (cases "snd (execute_command m others (cmd_buffer (k_shell k1)) k1)") (simp_all add: True k1(1))
next
  case False
  then show ?thesis by (simp add: shell_input_def Let_def)
qed

lemma shell_input_result:
  assumes k: "sys_inv m k"
  shows "outcome_ok (shell_input m others c k)"
proof -
  have inv: "kernel_inv k" using k by (simp add: sys_inv_def)
  have s: "length (cmd_buffer (k_shell k)) = 128" "cmd_index (k_shell k) < 128"
    using kernel_invD(7) [OF inv] by (simp_all add: shell_ok_def)
  define k1 where "k1 = k_shell_update (\<lambda>s. s\<lparr>cmd_buffer := (cmd_buffer s)[cmd_index s := NUL]\<rparr>) k"
  have k1: "sys_inv m k1" "cmd_buffer (k_shell k1) = (cmd_buffer (k_shell k))[cmd_index (k_shell k) := NUL]"
    using k by (simp_all add: k1_def sys_inv_def kernel_inv_def layout_ok_def shell_ok_def)
  let ?e = "execute_command m others (cmd_buffer (k_shell k1)) k1"
  have len: "length (fst ?e) = 128" using length_execute_command k1(2) s(1) by simp
  have "outcome_ok (snd ?e)" by (rule execute_command_result [OF k1(1)])
  then have nl: "outcome_ok (case ?e of (buf, r) \<Rightarrow> (case r of Done v k \<Rightarrow>
      Done 0 (k_shell_update (\<lambda>s. s\<lparr>cmd_buffer := buf, cmd_index := 0\<rparr>) k) | Stopped k \<Rightarrow> Stopped k | Hangs \<Rightarrow> Hangs))"
    using len by (cases ?e; cases "snd ?e") (auto simp: kernel_inv_def shell_ok_def)
  have bs: "kernel_inv (k_term_update (terminal_putchar CHR 0x08) (k_shell_update (cmd_index_update (\<lambda>i. i - 1)) k))"
    using inv s cursor_putchar by (simp add: kernel_inv_def shell_ok_def)
  have ch: "kernel_inv (k_shell_update (\<lambda>s. s\<lparr>cmd_buffer := (cmd_buffer s)[cmd_index s := c], cmd_index := cmd_index s + 1\<rparr>) k)"
    if "cmd_index (k_shell k) < 127" using inv s that by (simp add: kernel_inv_def shell_ok_def)
  show ?thesis
    unfolding shell_input_def Let_def k1_def [symmetric] using nl bs ch inv by simp
qed

text \<open>An outcome in which the machine goes on or stops, consistent.\<close>

definition sys_outcome :: "machine \<Rightarrow> outcome \<Rightarrow> bool" where
  "sys_outcome m r \<longleftrightarrow> (\<exists>v k'. r \<in> {Done v k', Stopped k'} \<and> sys_inv m k')"

lemma shell_input_sys: "sys_inv m k \<Longrightarrow> sys_outcome m (shell_input m others c k)"
  using shell_input_result [of m k others c] shell_input_kept [of m k others c] sys_inv_core [of _ k m]
  by (cases "shell_input m others c k") (auto simp: sys_outcome_def)

text \<open>
  C33: the shell never leaves the kernel inconsistent. Whatever character arrives and whatever command line it
  completes, input handling ends, and the invariants of the heap, the file system, the process table, the terminal,
  the keyboard, the program table and the shell's line buffer hold afterwards; no command touches the keyboard buffer,
  the process table, the program table or the extent of the heap.
\<close>

theorem shell_input_safe:
  assumes "sys_inv m k"
  shows "\<exists>v k'. shell_input m others c k \<in> {Done v k', Stopped k'} \<and> sys_inv m k' \<and> core k' = core k"
  using shell_input_sys [OF assms, of others c] shell_input_kept [OF assms, of others c]
  by (cases "shell_input m others c k") (auto simp: sys_outcome_def)

definition demo_machine :: machine where
  "demo_machine = \<lparr>m_isr0 = 0x100500, m_isr6 = 0x100510, m_isr13 = 0x100520, m_isr14 = 0x100530, m_timer_handler_asm = 0x100540,
     m_keyboard_handler_asm = 0x100550, m_syscall_handler_asm = 0x100560, m_trapret = 0x100200, m_kernel_end = 0x200000,
     m_stack_top = 0x190000, m_user_hello = 0x104000, m_user_loop = 0x104100, m_user_crash = 0x104200, m_exec_buf = 0x180000,
     m_cpuid = (\<lambda>_. (0, 0, 0, 0)), m_cmos = (\<lambda>_. 0), m_kbc_status = (\<lambda>_. 0)\<rparr>"

lemma demo_kernel_sys: "sys_inv demo_machine demo_kernel"
  using demo_kernel_inv
  by (simp add: sys_inv_def layout_ok_def table_ok_def demo_kernel_def blank_kernel_def blank_programs_def program_find_def demo_machine_def
      USER_SPACE_START_def boot_heap_def mm_init_def ALIGN8_def Let_def)

theorem shell_input_safe_witness:
  "\<exists>v k'. shell_input demo_machine (\<lambda>k. k) CHR 0x0A demo_kernel \<in> {Done v k', Stopped k'} \<and> sys_inv demo_machine k' \<and> core k' = core demo_kernel"
  by (rule shell_input_safe [OF demo_kernel_sys])

section \<open>Line editing\<close>

primrec feed :: "machine \<Rightarrow> (kernel \<Rightarrow> kernel) \<Rightarrow> char list \<Rightarrow> kernel \<Rightarrow> outcome" where
  "feed m others [] k = Done 0 k"
| "feed m others (c # cs) k = (case shell_input m others c k of Done _ k \<Rightarrow> feed m others cs k | Stopped k \<Rightarrow> Stopped k | Hangs \<Rightarrow> Hangs)"

text \<open>The specification: a line that grows at its end, to 127 characters at most, and loses its last character on backspace.\<close>

definition edit_key :: "char \<Rightarrow> string \<Rightarrow> string" where
  "edit_key c line = (if c = CHR 0x08 then butlast line else if length line < 127 then line @ [c] else line)"

lemma edit_step:
  assumes s: "length (cmd_buffer (k_shell k)) = 128" "cmd_index (k_shell k) < 128" and c: "c \<noteq> CHR 0x0A"
  obtains k' where "shell_input m others c k = Done 0 k'" "length (cmd_buffer (k_shell k')) = 128" "cmd_index (k_shell k') < 128"
    "take (cmd_index (k_shell k')) (cmd_buffer (k_shell k')) = edit_key c (take (cmd_index (k_shell k)) (cmd_buffer (k_shell k)))"
    "k_vfs k' = k_vfs k" "k_mm k' = k_mm k" "k_sched k' = k_sched k" "k_progs k' = k_progs k"
proof -
  let ?b = "cmd_buffer (k_shell k)" and ?i = "cmd_index (k_shell k)"
  have t: "take (?i + 1) (?b[?i := c]) = take ?i ?b @ [c]" using s by (simp add: take_Suc_conv_app_nth)
  have bl: "take (?i - 1) ?b = butlast (take ?i ?b)" using s by (simp add: butlast_take)
  show thesis
  proof (cases "c = CHR 0x08")
    case True
    then show thesis using that s bl by (cases "?i > 0") (auto simp: shell_input_def edit_key_def)
  next
    case False
    then show thesis using that s c t by (cases "?i < 127") (auto simp: shell_input_def edit_key_def)
  qed
qed

lemma feed_line:
  assumes "length (cmd_buffer (k_shell k)) = 128" "cmd_index (k_shell k) < 128" "CHR 0x0A \<notin> set cs"
  shows "\<exists>k'. feed m others cs k = Done 0 k' \<and> length (cmd_buffer (k_shell k')) = 128 \<and> cmd_index (k_shell k') < 128
    \<and> take (cmd_index (k_shell k')) (cmd_buffer (k_shell k')) = fold edit_key cs (take (cmd_index (k_shell k)) (cmd_buffer (k_shell k)))
    \<and> k_vfs k' = k_vfs k \<and> k_mm k' = k_mm k \<and> k_sched k' = k_sched k \<and> k_progs k' = k_progs k"
  using assms
proof (induction cs arbitrary: k)
  case (Cons c cs)
  have "c \<noteq> CHR 0x0A" "CHR 0x0A \<notin> set cs" using Cons.prems(3) by auto
  then obtain k1 where k1: "shell_input m others c k = Done 0 k1" "length (cmd_buffer (k_shell k1)) = 128" "cmd_index (k_shell k1) < 128"
      "take (cmd_index (k_shell k1)) (cmd_buffer (k_shell k1)) = edit_key c (take (cmd_index (k_shell k)) (cmd_buffer (k_shell k)))"
      "k_vfs k1 = k_vfs k" "k_mm k1 = k_mm k" "k_sched k1 = k_sched k" "k_progs k1 = k_progs k"
    using edit_step [OF Cons.prems(1,2), of c m others] by blast
  from Cons.IH [OF k1(2,3) \<open>CHR 0x0A \<notin> set cs\<close>] show ?case by (simp add: k1(1,4-8))
qed simp

lemma c_string_edit: "c_string l \<Longrightarrow> c_string cs \<Longrightarrow> c_string (fold edit_key cs l)"
proof (induction cs arbitrary: l)
  case (Cons c cs)
  have "c_string (edit_key c l)" using Cons.prems by (auto simp: edit_key_def c_string_def dest: in_set_butlastD)
  then show ?case using Cons by simp
qed simp

lemma feed_append: "feed m others (cs @ ds) k = (case feed m others cs k of Done _ k \<Rightarrow> feed m others ds k | x \<Rightarrow> x)"
  by (induction cs arbitrary: k) (auto split: outcome.splits)

text \<open>The Enter key ends the line in the buffer, whatever was left behind it, and executes it.\<close>

lemma enter_line:
  assumes "length (cmd_buffer (k_shell k)) = 128" "cmd_index (k_shell k) < 128"
    and "take (cmd_index (k_shell k)) (cmd_buffer (k_shell k)) = line" "c_string line"
  obtains buf where "length buf = 128" "as_cstr buf = line"
    "shell_input m others CHR 0x0A k = (case execute_command m others buf (k_shell_update (cmd_buffer_update (\<lambda>_. buf)) k) of (b, x) \<Rightarrow>
       (case x of Done v k2 \<Rightarrow> Done 0 (k_shell_update (\<lambda>s. s\<lparr>cmd_buffer := b, cmd_index := 0\<rparr>) k2) | x \<Rightarrow> x))"
proof (rule that [of "(cmd_buffer (k_shell k))[cmd_index (k_shell k) := NUL]"])
  let ?b = "cmd_buffer (k_shell k)" and ?i = "cmd_index (k_shell k)"
  show "length (?b[?i := NUL]) = 128" using assms(1) by simp
  have "?b[?i := NUL] = line @ NUL # drop (Suc ?i) ?b" using assms(1-3) by (simp add: upd_conv_take_nth_drop)
  moreover have "takeWhile (\<lambda>c. c \<noteq> NUL) (line @ NUL # r) = line" for r using assms(4) by (induction line) (auto simp: c_string_def)
  ultimately show "as_cstr (?b[?i := NUL]) = line" by (simp add: as_cstr_def)
  have eq: "k_shell_update (\<lambda>s. s\<lparr>cmd_buffer := (cmd_buffer s)[cmd_index s := NUL]\<rparr>) k = k_shell_update (cmd_buffer_update (\<lambda>_. ?b[?i := NUL])) k"
    by (intro kernel.equality) simp_all
  show "shell_input m others CHR 0x0A k = (case execute_command m others (?b[?i := NUL]) (k_shell_update (cmd_buffer_update (\<lambda>_. ?b[?i := NUL])) k) of (b, x) \<Rightarrow>
       (case x of Done v k2 \<Rightarrow> Done 0 (k_shell_update (\<lambda>s. s\<lparr>cmd_buffer := b, cmd_index := 0\<rparr>) k2) | x \<Rightarrow> x))"
    unfolding shell_input_def Let_def if_P [OF refl] eq by simp
qed

text \<open>
  C34: typing edits a line, and Enter executes it. Characters typed at an empty line build the line the editor specifies, with
  backspaces removing the last character and everything past 127 characters ignored; until Enter neither files, heap,
  processes nor program table change. The Enter key then hands \<open>execute_command\<close> a buffer of 128 characters whose C string is
  exactly that line, whatever earlier lines left in the buffer, and starts a new line when the command returns.
\<close>

theorem shell_typing:
  assumes "shell_ok (k_shell k)" "cmd_index (k_shell k) = 0" "c_string cs" "CHR 0x0A \<notin> set cs"
  shows "\<exists>k' buf. feed m others cs k = Done 0 k'
    \<and> k_vfs k' = k_vfs k \<and> k_mm k' = k_mm k \<and> k_sched k' = k_sched k \<and> k_progs k' = k_progs k
    \<and> length buf = 128 \<and> as_cstr buf = fold edit_key cs ''''
    \<and> feed m others (cs @ [CHR 0x0A]) k =
        (case execute_command m others buf (k_shell_update (cmd_buffer_update (\<lambda>_. buf)) k') of (b, x) \<Rightarrow>
          (case x of Done v k2 \<Rightarrow> Done 0 (k_shell_update (\<lambda>s. s\<lparr>cmd_buffer := b, cmd_index := 0\<rparr>) k2) | x \<Rightarrow> x))"
proof -
  have s: "length (cmd_buffer (k_shell k)) = 128" "cmd_index (k_shell k) < 128" using assms(1) by (simp_all add: shell_ok_def)
  obtain k' where k': "feed m others cs k = Done 0 k'" "length (cmd_buffer (k_shell k')) = 128" "cmd_index (k_shell k') < 128"
      "take (cmd_index (k_shell k')) (cmd_buffer (k_shell k')) = fold edit_key cs ''''"
      "k_vfs k' = k_vfs k" "k_mm k' = k_mm k" "k_sched k' = k_sched k" "k_progs k' = k_progs k"
    using feed_line [OF s assms(4), of m others] assms(2) by auto
  have "c_string (fold edit_key cs '''')" by (rule c_string_edit) (simp_all add: assms(3))
  then obtain buf where b: "length buf = 128" "as_cstr buf = fold edit_key cs ''''"
    "shell_input m others CHR 0x0A k' = (case execute_command m others buf (k_shell_update (cmd_buffer_update (\<lambda>_. buf)) k') of (b, x) \<Rightarrow>
       (case x of Done v k2 \<Rightarrow> Done 0 (k_shell_update (\<lambda>s. s\<lparr>cmd_buffer := b, cmd_index := 0\<rparr>) k2) | x \<Rightarrow> x))"
    by (rule enter_line [OF k'(2-4)])
  have "feed m others (cs @ [CHR 0x0A]) k = shell_input m others CHR 0x0A k'"
    by (auto simp: feed_append k'(1) b(3) split: outcome.splits prod.splits)
  then show ?thesis using k'(1,5-8) b by (intro exI [of _ k'] exI [of _ buf]) simp
qed

theorem shell_typing_witness:
  "\<exists>k' buf. feed demo_machine (\<lambda>k. k) (''lss'' @ [CHR 0x08] @ '' /etc'') demo_kernel = Done 0 k' \<and> as_cstr buf = ''ls /etc''
     \<and> feed demo_machine (\<lambda>k. k) ((''lss'' @ [CHR 0x08] @ '' /etc'') @ [CHR 0x0A]) demo_kernel
       = (case execute_command demo_machine (\<lambda>k. k) buf (k_shell_update (cmd_buffer_update (\<lambda>_. buf)) k') of (b, x) \<Rightarrow>
          (case x of Done v k2 \<Rightarrow> Done 0 (k_shell_update (\<lambda>s. s\<lparr>cmd_buffer := b, cmd_index := 0\<rparr>) k2) | x \<Rightarrow> x))"
proof -
  let ?cs = "''lss'' @ [CHR 0x08] @ '' /etc''"
  have e: "fold edit_key ?cs '''' = ''ls /etc''" by (simp add: edit_key_def)
  have "cmd_index (k_shell demo_kernel) = 0" "c_string ?cs" "CHR 0x0A \<notin> set ?cs" by (simp_all add: demo_kernel_def blank_kernel_def)
  from shell_typing [OF kernel_invD(7) [OF demo_kernel_inv] this, of demo_machine "\<lambda>k. k"] show ?thesis unfolding e by blast
qed

end
