(* ===== verification/Boot.thy ===== *)
theory Boot
  imports Shell_Props
begin

unbundle bit_operations_syntax

text \<open>
  The boot sequence and the main loop of \<^verbatim>\<open>src/src/kernel/kernel.c\<close>. The loop that waits for interrupts is one step:
  the characters typed so far are handed to the shell and zombies are reaped; interrupts arrive between steps.
\<close>

section \<open>Definitions\<close>

definition HEAP_SIZE :: u32 where "HEAP_SIZE = 0x100000"

definition enable_paging :: "kernel \<Rightarrow> kernel" where
  "enable_paging k = k_cr0_update (\<lambda>cr0. cr0 OR 0x80000000) k"

definition boot_log :: "string \<Rightarrow> kernel \<Rightarrow> kernel" where
  "boot_log msg k = (let arrow = colour VGA_COLOR_LIGHT_CYAN; txt = colour VGA_COLOR_LIGHT_GREY
     in emit [C arrow, W '' >> '', C txt, W msg, W NL] k)"

definition populate_nodes :: "(string \<times> proc_reader node_kind) list" where
  "populate_nodes =
    [(''/'', KDir), (''/bin'', KDir), (''/dev'', KDir), (''/etc'', KDir), (''/home'', KDir), (''/proc'', KDir), (''/tmp'', KDir), (''/var'', KDir),
     (''/etc/hostname'', KFile (Some ERON_HOSTNAME)),
     (''/etc/version'', KFile (Some (''Eron OS '' @ ERON_VERSION @ '' ('' @ ERON_CODENAME @ '')''))),
     (''/etc/motd'', KFile (Some (''Welcome to Eron OS.'' @ NL @ ''Type '' @ [CHR 0x27] @ ''help'' @ [CHR 0x27] @ '' for commands.''))),
     (''/etc/init.rc'', KFile (Some (''mkdir /var/log'' @ NL @ ''touch /var/log/boot.log'' @ NL
        @ ''append /var/log/boot.log boot sequence complete'' @ NL @ ''service start netd''))),
     (''/etc/os-release'', KFile (Some (''NAME=EronOS'' @ NL @ ''VERSION='' @ ERON_VERSION @ NL @ ''CODENAME='' @ ERON_CODENAME
        @ NL @ ''ARCH=i386'' @ NL @ ''AUTHOR='' @ ERON_AUTHOR))),
     (''/proc/cpuinfo'', KProc (Some Cpuinfo_read)), (''/proc/meminfo'', KProc (Some Meminfo_read)),
     (''/proc/uptime'', KProc (Some Uptime_read)), (''/proc/version'', KFile (Some (''Eron '' @ ERON_VERSION @ '' (i386)''))),
     (''/dev/tty0'', KDev), (''/dev/kbd0'', KDev), (''/dev/null'', KDev), (''/dev/vga0'', KDev),
     (''/bin/hello'', KFile (Some ''[elf32-i386] user-mode hello'')), (''/bin/loop'', KFile (Some ''[elf32-i386] user-mode loop test'')),
     (''/bin/crash'', KFile (Some ''[elf32-i386] user-mode fault test''))]"

definition vfs_populate :: "proc_reader vfs \<Rightarrow> proc_reader vfs" where
  "vfs_populate s = fold (\<lambda>(p, kind) s. fst (vfs_make kind (Some p) s)) populate_nodes s"

definition set_gates :: "machine \<Rightarrow> cpu_tables \<Rightarrow> cpu_tables" where
  "set_gates m t =
     (let t = idt_set_gate 0 (m_isr0 m) 0x08 0x8E t;
          t = idt_set_gate 6 (m_isr6 m) 0x08 0x8E t;
          t = idt_set_gate 13 (m_isr13 m) 0x08 0x8E t;
          t = idt_set_gate 14 (m_isr14 m) 0x08 0x8E t;
          t = idt_set_gate 32 (m_timer_handler_asm m) 0x08 0x8E t
      in idt_set_gate 33 (m_keyboard_handler_asm m) 0x08 0x8E t)"

text \<open>The initialisation words of the two interrupt controllers, in the order they are sent.\<close>

definition pic_remap :: "kernel \<Rightarrow> kernel" where
  "pic_remap k = fold (\<lambda>(p, v). k_outb p v)
     [(0x20, 0x11), (0xA0, 0x11), (0x21, 0x20), (0xA1, 0x28), (0x21, 0x04), (0xA1, 0x02), (0x21, 0x01), (0xA1, 0x01), (0x21, 0xFC), (0xA1, 0xFF)] k"

text \<open>The message that counts the programs: \<open>while (pc > 0 && d < 10) { digits[d++] = '0' + (pc % 10); pc /= 10; }\<close>.\<close>

fun count_digits :: "nat \<Rightarrow> nat \<Rightarrow> string" where
  "count_digits d pc = (if 0 < pc \<and> d < 10 then char_of (48 + pc mod 10) # count_digits (d + 1) (pc div 10) else [])"

declare count_digits.simps [simp del]

definition prog_msg :: "nat \<Rightarrow> string" where
  "prog_msg pc = ''Programs: '' @ (if pc = 0 then ''0'' else rev (count_digits 0 pc)) @ '' registered''"

definition tables_do :: "(cpu_tables \<Rightarrow> cpu_tables) \<Rightarrow> kernel \<Rightarrow> kernel" where
  "tables_do f k = k_sched_update (tables_update f) k"

definition boot_banner :: "kernel \<Rightarrow> kernel" where
  "boot_banner k =
     (let k = k_term_update terminal_initialize k;
          white = colour VGA_COLOR_WHITE; grey = colour VGA_COLOR_LIGHT_GREY; dim = colour VGA_COLOR_DARK_GREY
      in emit [C white, W (NL @ '' Eron OS ''), C grey, W ERON_VERSION, C dim, W ('' ('' @ ERON_CODENAME @ '')'' @ NL), C grey,
               W ('' (c) '' @ ERON_AUTHOR @ NL @ NL)] k)"

text \<open>The hardware part of \<open>kernel_main\<close>, up to the interrupt timer; \<open>None\<close> stands for a division by zero in \<open>timer_init\<close>.\<close>

definition boot_hardware :: "machine \<Rightarrow> kernel \<Rightarrow> kernel option" where
  "boot_hardware m k =
     (let k = boot_banner k;
          k = tables_do gdt_init k;
          k = boot_log ''GDT: kernel/user segments loaded'' k;
          k = tables_do idt_install k;
          k = tables_do (set_gates m) k;
          k = boot_log ''IDT: 256 interrupt gates'' k;
          k = pic_remap k;
          k = boot_log ''PIC: remapped to INT 32-47'' k;
          k = tables_do (tss_init 0x10 (m_stack_top m)) k;
          k = boot_log ''TSS: ring transition ready'' k
      in case timer_init PIT_FREQ (k_timer k) of None \<Rightarrow> None
         | Some t \<Rightarrow>
            let k = k\<lparr>k_timer := t\<rparr>;
                k = boot_log ''PIT: timer at 100 Hz'' k;
                k = boot_log ''PS/2: keyboard ready'' k
            in Some (boot_log ''VGA: 80x25 text mode'' k))"

text \<open>Memory, paging and the file system.\<close>

definition boot_memory :: "machine \<Rightarrow> kernel \<Rightarrow> kernel option" where
  "boot_memory m k =
     (let k = k_mm_update (mm_init (m_kernel_end m) HEAP_SIZE) k;
          k = boot_log ''Memory: 1 MB heap initialized'' k
      in case vmm_init (m_kernel_end m + 0x100000) (k_vmm k, k_mm k) of None \<Rightarrow> None
         | Some (v, mm) \<Rightarrow>
            let k = k\<lparr>k_vmm := v, k_mm := mm\<rparr>;
                k = enable_paging k;
                k = boot_log ''Paging: virtual memory enabled'' k;
                k = k_vfs_update vfs_init k;
                k = k_vfs_update vfs_populate k
            in Some (boot_log ''VFS: filesystem mounted'' k))"

text \<open>Processes, programs, the start script and the system calls, up to the main loop.\<close>

definition boot_services_up :: "machine \<Rightarrow> (kernel \<Rightarrow> kernel) \<Rightarrow> kernel \<Rightarrow> outcome" where
  "boot_services_up m others k =
     (let k = k_sched_update proc_init k;
          k = boot_log ''Process: scheduler initialized'' k;
          k = k_progs_update programs_init k;
          k = k_progs_update shell_register_programs k
      in case shell_run_script m others ''/etc/init.rc'' k of
           Done r k \<Rightarrow>
             let k = boot_log (prog_msg (program_count (k_progs k))) k;
                 k = syscall_init (m_syscall_handler_asm m) k;
                 k = boot_log ''Syscall: INT 0x80 handler active'' k;
                 k = emit [W NL, C (colour VGA_COLOR_WHITE), W ('' System ready.'' @ NL @ NL), C (colour VGA_COLOR_LIGHT_GREY)] k
             in Done 0 (print_prompt k)
         | x \<Rightarrow> x)"

definition kernel_boot :: "machine \<Rightarrow> (kernel \<Rightarrow> kernel) \<Rightarrow> kernel \<Rightarrow> outcome" where
  "kernel_boot m others k = ends (boot_hardware m k) (\<lambda>k. ends (boot_memory m k) (boot_services_up m others))"

text \<open>\<open>while ((c = keyboard_getchar()) != 0) shell_input(c)\<close>\<close>

partial_function (option) drain_input :: "machine \<Rightarrow> (kernel \<Rightarrow> kernel) \<Rightarrow> kernel \<Rightarrow> outcome option" where
  "drain_input m others k =
     (case keyboard_getchar (k_kbd k) of (c, b) \<Rightarrow>
        let k = k\<lparr>k_kbd := b\<rparr> in
        if c \<noteq> NUL then (case shell_input m others c k of Done r k \<Rightarrow> drain_input m others k | x \<Rightarrow> Some x)
        else Some (Done 0 k))"

definition main_step :: "machine \<Rightarrow> (kernel \<Rightarrow> kernel) \<Rightarrow> kernel \<Rightarrow> outcome" where
  "main_step m others k = ends (drain_input m others k) (\<lambda>r. case r of
     Done v k \<Rightarrow> Done 0 (k_sched_update reap_zombies k) | x \<Rightarrow> x)"

end
