(* ===== verification/Shell_Script.thy ===== *)
theory Shell_Script
  imports Shell_Props
begin

unbundle bit_operations_syntax

text \<open>
  Scripts. \<open>shell_run_script\<close> cuts the script in place and each command cuts its line in place again, in the same
  buffer; it is shown to execute the lines of the file one after the other as if each had been typed on its own.
\<close>

section \<open>Specification\<close>

text \<open>The lines of a text, without their line feeds.\<close>

function split_lines :: "string \<Rightarrow> string list" where
  "split_lines s = takeWhile (\<lambda>c. c \<noteq> CHR 0x0A) s #
     (case dropWhile (\<lambda>c. c \<noteq> CHR 0x0A) s of [] \<Rightarrow> [] | c # t \<Rightarrow> split_lines t)"
  by pat_completeness auto
termination
proof (relation "measure length")
  fix s :: string and c t
  assume "dropWhile (\<lambda>c. c \<noteq> CHR 0x0A) s = c # t"
  then have "length (c # t) \<le> length s" by (metis length_dropWhile_le)
  then show "(t, s) \<in> measure length" by simp
qed simp

declare split_lines.simps [simp del]

text \<open>Executing lines one by one; empty lines are skipped.\<close>

primrec run_lines :: "machine \<Rightarrow> (kernel \<Rightarrow> kernel) \<Rightarrow> string list \<Rightarrow> kernel \<Rightarrow> outcome" where
  "run_lines m others [] k = Done 0 k"
| "run_lines m others (l # ls) k =
     (if l = [] then run_lines m others ls k
      else case snd (execute_command m others l k) of Done _ k \<Rightarrow> run_lines m others ls k | x \<Rightarrow> x)"

lemma split_lines_line:
  assumes "CHR 0x0A \<notin> set l"
  shows "split_lines l = [l]" "split_lines (l @ CHR 0x0A # t) = l # split_lines t"
proof -
  have l: "takeWhile (\<lambda>c. c \<noteq> CHR 0x0A) l = l" "dropWhile (\<lambda>c. c \<noteq> CHR 0x0A) l = []" using assms by (induction l) auto
  show "split_lines l = [l]" by (subst split_lines.simps) (simp only: l list.case)
  have lt: "takeWhile (\<lambda>c. c \<noteq> CHR 0x0A) (l @ CHR 0x0A # t) = l" "dropWhile (\<lambda>c. c \<noteq> CHR 0x0A) (l @ CHR 0x0A # t) = CHR 0x0A # t"
    using assms by (induction l) auto
  show "split_lines (l @ CHR 0x0A # t) = l # split_lines t" by (subst split_lines.simps) (simp only: lt list.case)
qed

section \<open>A command depends on its line only\<close>

definition dispatch :: "machine \<Rightarrow> (kernel \<Rightarrow> kernel) \<Rightarrow> string list \<Rightarrow> kernel \<Rightarrow> outcome" where
  "dispatch m others argv k =
     (let k = emit [C (colour VGA_COLOR_LIGHT_GREY)] k in
      if argv = [] then Done 0 (prompt_unless_batch k)
      else if str_cmp (argv ! 0) ''clear'' = 0 then
        (case prog_clear k of Done r k \<Rightarrow> Done 0 (prompt_unless_batch k) | x \<Rightarrow> x)
      else (case program_find (argv ! 0) (k_progs k) of
          Some i \<Rightarrow> (case pg_entry (prog_table (k_progs k) ! i) of
              None \<Rightarrow> Hangs
            | Some f \<Rightarrow> (case run_program m others f argv k of Done r k \<Rightarrow> Done 0 (after_command k) | x \<Rightarrow> x))
        | None \<Rightarrow>
            if str_cmp (argv ! 0) ''exit'' = 0 then
              Done 0 (after_command (emit [C (colour VGA_COLOR_LIGHT_RED), W (NL @ ''eron: no parent process'')] k))
            else if str_cmp (argv ! 0) ''shutdown'' = 0 \<or> str_cmp (argv ! 0) ''poweroff'' = 0 then prog_halt k
            else Done 0 (after_command (emit [C (colour VGA_COLOR_LIGHT_RED), W (NL @ ''eron: ''), W (argv ! 0), W '': not found''] k))))"

lemma execute_command_dispatch:
  "snd (execute_command m others cmd k) = dispatch m others (take 16 (split_words (as_cstr cmd))) k"
proof (cases "char_at cmd 0 = NUL")
  case True
  then have "as_cstr cmd = []" by (cases cmd) (simp_all add: char_at_def as_cstr_def)
  then show ?thesis using True by (simp add: execute_command_def dispatch_def Let_def)
next
  case False
  have "snd (execute_command m others cmd k) =
      dispatch m others (map (str_at (fst (parse_args cmd 16))) (snd (parse_args cmd 16))) k"
    unfolding execute_command_def dispatch_def Let_def case_prod_unfold snd_conv if_not_P [OF False] ..
  then show ?thesis by (simp only: parse_words)
qed

lemma execute_command_cstr: "snd (execute_command m others cmd k) = snd (execute_command m others (as_cstr cmd) k)"
  by (simp add: execute_command_dispatch)

lemma skip_bound:
  assumes "p \<le> e" "e < length buf" "buf ! e = NUL"
  shows "skip_spaces buf p \<le> e" "skip_word buf p \<le> e"
proof -
  have tw: "length (takeWhile P (drop p buf)) \<le> e - p" if "\<not> P NUL" for P
  proof (rule ccontr)
    assume "\<not> length (takeWhile P (drop p buf)) \<le> e - p"
    then have "e - p < length (takeWhile P (drop p buf))" by simp
    then have "P (takeWhile P (drop p buf) ! (e - p))" by (metis nth_mem set_takeWhileD)
    moreover have "takeWhile P (drop p buf) ! (e - p) = NUL"
      using \<open>e - p < _\<close> assms by (simp add: takeWhile_nth)
    ultimately show False using that by simp
  qed
  show "skip_spaces buf p \<le> e" "skip_word buf p \<le> e"
    using tw [of "\<lambda>c. c = CHR '' ''"] tw [of "\<lambda>c. c \<noteq> NUL \<and> c \<noteq> CHR '' ''"] assms(1)
    by (simp_all add: skip_spaces_eq skip_word_eq)
qed

text \<open>Splitting a command writes only in front of its terminator.\<close>

lemma parse_loop_behind:
  assumes "p \<le> e" "e < length buf" "buf ! e = NUL"
  shows "drop e (fst (parse_loop n buf p argv)) = drop e buf"
  using assms
proof (induction n buf p argv rule: parse_loop.induct)
  case (1 n buf p argv)
  let ?q = "skip_spaces buf p"
  let ?r = "skip_word buf ?q"
  note b = skip_bound(1) [OF 1(3-5)]
  note r = skip_bound(2) [OF b 1(4,5)]
  show ?case
  proof (cases "char_at buf p \<noteq> NUL \<and> length argv < n \<and> char_at buf ?q \<noteq> NUL")
    case True
    show ?thesis
    proof (cases "char_at buf ?r = NUL")
      case False
      then have "?r < e" using r 1(4,5) by (cases "?r = e") (auto simp: char_at_def)
      then show ?thesis using 1(1) True False 1(4,5)
        by (subst parse_loop.simps) (simp add: Let_def)
    next
      case nul: True
      then show ?thesis using 1(2) True r 1(4,5) by (subst parse_loop.simps) (simp add: Let_def)
    qed
  next
    case False
    then show ?thesis by (subst parse_loop.simps) (auto simp: Let_def)
  qed
qed

lemma execute_command_behind:
  assumes "e < length cmd" "cmd ! e = NUL"
  shows "drop e (fst (execute_command m others cmd k)) = drop e cmd"
  using parse_loop_behind [of 0 e cmd 16 "[]"] assms
  by (auto simp: execute_command_def Let_def parse_args_def split: prod.splits)

section \<open>A script is its lines\<close>

lemma as_cstr_stop: "c_string l \<Longrightarrow> as_cstr (l @ NUL # t) = l"
  by (induction l) (auto simp: as_cstr_def c_string_def)

text \<open>What is left of the script behind a line, whether its command was executed in the buffer or not.\<close>

lemma line_in_buffer:
  assumes S: "length S = length c + 1" "drop st S = drop st (c @ [NUL])" "st \<le> i" "i \<le> length c" and c: "c_string c"
  shows "as_cstr (drop st (S[i := NUL])) = take (i - st) (drop st c)"
    "drop (i + 1) (S[i := NUL]) = drop (i + 1) (c @ [NUL])"
    "drop (i + 1) (take st (S[i := NUL]) @ fst (execute_command m others (drop st (S[i := NUL])) k)) = drop (i + 1) (c @ [NUL])"
    "length (take st (S[i := NUL]) @ fst (execute_command m others (drop st (S[i := NUL])) k)) = length c + 1"
proof -
  let ?S = "S[i := NUL]"
  have iS: "i < length S" using S by simp
  have t: "take (i - st) (drop st S) = take (i - st) (drop st c)" using S by simp
  have d: "drop (i + 1) S = drop (i + 1) (c @ [NUL])"
  proof -
    have "drop (i + 1 - st) (drop st S) = drop (i + 1 - st) (drop st (c @ [NUL]))" using S(2) by simp
    then show ?thesis using S(3) by (simp del: drop_append)
  qed
  have "?S = take i S @ NUL # drop (Suc i) S" using iS by (rule upd_conv_take_nth_drop)
  then have "drop st ?S = take (i - st) (drop st S) @ NUL # drop (Suc i) S" using S(3) iS by (simp add: drop_take)
  moreover have "c_string (take (i - st) (drop st c))" using c by (auto simp: c_string_def dest!: in_set_takeD in_set_dropD)
  ultimately show "as_cstr (drop st ?S) = take (i - st) (drop st c)" using t as_cstr_stop by simp
  show r: "drop (i + 1) ?S = drop (i + 1) (c @ [NUL])" using d by simp
  let ?f = "fst (execute_command m others (drop st ?S) k)"
  have "drop (i - st) ?f = drop (i - st) (drop st ?S)"
    by (rule execute_command_behind) (use S iS in \<open>simp_all\<close>)
  then have "drop 1 (drop (i - st) ?f) = drop 1 (drop (i - st) (drop st ?S))" by (rule arg_cong)
  then have "drop (i + 1 - st) ?f = drop (i + 1) ?S" using S(3) by (simp add: Suc_diff_le)
  moreover have "length (take st ?S) = st" using S iS by simp
  ultimately show "drop (i + 1) (take st ?S @ ?f) = drop (i + 1) (c @ [NUL])" using r S(3) by simp
  show "length (take st ?S @ ?f) = length c + 1" using S iS by (simp add: length_execute_command)
qed

lemma script_loop_command:
  assumes "char_at S i = CHR 0x0A \<or> char_at S i = NUL" "char_at (S[i := NUL]) st \<noteq> NUL"
  shows "script_loop m others (i # is) st S k = (case snd (execute_command m others (drop st (S[i := NUL])) k) of
    Done _ k' \<Rightarrow> script_loop m others is (i + 1)
      (take st (S[i := NUL]) @ fst (execute_command m others (drop st (S[i := NUL])) k)) k' | x \<Rightarrow> x)"
  using assms by (simp add: Let_def case_prod_unfold split: outcome.split)

lemma script_loop_lines:
  assumes "length S = length c + 1" "drop st S = drop st (c @ [NUL])" "c_string c" "st \<le> i" "i \<le> length c + 1"
    and "i = length c + 1 \<longrightarrow> st = i" "CHR 0x0A \<notin> set (take (i - st) (drop st c))"
  shows "script_loop m others [i..<length c + 1] st S k
    = (if st = length c + 1 then Done 0 k else run_lines m others (split_lines (drop st c)) k)"
  using assms
proof (induction "length c + 1 - i" arbitrary: i st S k)
  case (Suc d)
  have i: "i \<le> length c" "[i..<length c + 1] = i # [i + 1..<length c + 1]" using Suc.hyps(2) by (auto simp: upt_conv_Cons)
  have st: "st \<noteq> length c + 1" using Suc.prems(4) i(1) by simp
  have d: "d = length c + 1 - (i + 1)" using Suc.hyps(2) by simp
  have "drop st S ! (j - st) = drop st (c @ [NUL]) ! (j - st)" for j using Suc.prems(2) by simp
  from this [of i] have ch: "char_at S i = (c @ [NUL]) ! i" using Suc.prems(1,4) i(1) by (simp add: char_at_def del: drop_append)
  have nonul: "c ! j \<noteq> NUL" if "j < length c" for j using Suc.prems(3) that by (auto simp: c_string_def in_set_conv_nth)
  let ?line = "take (i - st) (drop st c)"
  note b = line_in_buffer [OF Suc.prems(1,2,4) i(1) Suc.prems(3)]
  show ?case
  proof (cases "char_at S i = CHR 0x0A \<or> char_at S i = NUL")
    case True
    have rest: "split_lines (drop st c) = ?line # (if i = length c then [] else split_lines (drop (i + 1) c))"
    proof (cases "i = length c")
      case False
      then have il: "i < length c" "c ! i = CHR 0x0A" using i(1) True ch nonul [of i] by (auto simp: nth_append)
      have "drop st c = ?line @ drop (i - st) (drop st c)" by (rule append_take_drop_id [symmetric])
      also have "drop (i - st) (drop st c) = c ! i # drop (i + 1) c" using il(1) Suc.prems(4) by (simp add: Cons_nth_drop_Suc)
      finally have "split_lines (drop st c) = split_lines (?line @ c ! i # drop (i + 1) c)" by (rule arg_cong)
      then show ?thesis using split_lines_line(2) [OF Suc.prems(7)] False il(2) by simp
    qed (use split_lines_line(1) [OF Suc.prems(7)] in simp)
    have next_line: "script_loop m others [i + 1..<length c + 1] (i + 1) T k
        = (if i = length c then Done 0 k else run_lines m others (split_lines (drop (i + 1) c)) k)"
      if "length T = length c + 1" "drop (i + 1) T = drop (i + 1) (c @ [NUL])" for T k
      using Suc.hyps(1) [OF d that Suc.prems(3)] i(1) by simp
    have e: "char_at (S[i := NUL]) st = NUL \<longleftrightarrow> ?line = []"
    proof -
      have "as_cstr (drop st (S[i := NUL])) = [] \<longleftrightarrow> char_at (drop st (S[i := NUL])) 0 = NUL"
        by (cases "drop st (S[i := NUL])") (auto simp: as_cstr_def char_at_def)
      then show ?thesis using b(1) char_at_drop [of "S[i := NUL]" st 0] by simp
    qed
    show ?thesis
    proof (cases "?line = []")
      case nl: True
      have "script_loop m others [i..<length c + 1] st S k = script_loop m others [i + 1..<length c + 1] (i + 1) (S[i := NUL]) k"
        unfolding i(2) using True e nl by (simp add: Let_def)
      also have "\<dots> = (if i = length c then Done 0 k else run_lines m others (split_lines (drop (i + 1) c)) k)"
        by (rule next_line) (use b(2) Suc.prems(1) in simp_all)
      finally show ?thesis using st rest nl by simp
    next
      case nl: False
      let ?x = "execute_command m others (drop st (S[i := NUL])) k"
      have x: "snd ?x = snd (execute_command m others ?line k)" by (simp add: execute_command_cstr [of m others "drop st _"] b(1))
      have "script_loop m others [i..<length c + 1] st S k = (case snd ?x of
          Done _ k \<Rightarrow> script_loop m others [i + 1..<length c + 1] (i + 1) (take st (S[i := NUL]) @ fst ?x) k | x \<Rightarrow> x)"
        unfolding i(2) by (rule script_loop_command [OF True]) (use e nl in simp)
      also have "\<dots> = (case snd ?x of Done _ k \<Rightarrow> (if i = length c then Done 0 k else run_lines m others (split_lines (drop (i + 1) c)) k) | x \<Rightarrow> x)"
        by (simp only: next_line [OF b(4,3)])
      finally show ?thesis using st rest nl by (simp add: x split: outcome.splits)
    qed
  next
    case False
    have "i \<noteq> length c" using False ch by (auto simp: nth_append)
    then have il: "i < length c" "c ! i \<noteq> CHR 0x0A" using i(1) False ch by (auto simp: nth_append)
    have "take (i + 1 - st) (drop st c) = ?line @ [c ! i]"
      using il(1) Suc.prems(4) by (simp add: Suc_diff_le take_Suc_conv_app_nth)
    then have "CHR 0x0A \<notin> set (take (i + 1 - st) (drop st c))" using Suc.prems(7) il(2) by simp
    then show ?thesis
      using Suc.hyps(1) [OF d Suc.prems(1-3)] Suc.prems(4) il(1) False unfolding i(2) by simp
  qed
qed auto

lemma shell_run_script_eq:
  assumes "kernel_read m path 1024 k = Some (int (length c), Some c)" "c_string c" "c \<noteq> ''''"
  shows "shell_run_script m others path k =
    (case run_lines m others (split_lines c) (k_shell_update (shell_batch_mode_update (\<lambda>_. True)) k) of
       Done r k \<Rightarrow> Done 0 (k_shell_update (shell_batch_mode_update (\<lambda>_. False)) k) | x \<Rightarrow> x)"
  using script_loop_lines [of "c @ [NUL]" c 0 0] assms by (simp add: shell_run_script_def ends_def Let_def)

text \<open>
  C35: a script file is executed line by line. When reading the file gives a non-empty C string that fits the buffer,
  \<open>shell_run_script\<close> executes each of its non-empty lines in order, as \<open>execute_command\<close> does with the line on
  its own, stops where a command stops the machine or never returns, and runs them in batch mode. Cutting the lines
  and the words of each line in the one buffer loses and changes nothing.
\<close>

theorem shell_run_script_lines:
  assumes "kernel_read m path 1024 k = Some (int (length c), Some c)" "c_string c" "c \<noteq> ''''"
  shows "shell_run_script m others path k =
    (case run_lines m others (split_lines c) (k_shell_update (shell_batch_mode_update (\<lambda>_. True)) k) of
       Done r k \<Rightarrow> Done 0 (k_shell_update (shell_batch_mode_update (\<lambda>_. False)) k) | x \<Rightarrow> x)"
  by (rule shell_run_script_eq [OF assms])

lemma kernel_read_inv: "kernel_inv k \<Longrightarrow> kernel_read m p sz k = Some (vfs_read (run_reader m k) (Some p) True sz (k_vfs k))"
  by (auto simp: kernel_read_def elim!: kernel_mm_counts)

text \<open>A kernel with a script of two lines.\<close>

definition script_kernel :: kernel where
  "script_kernel = demo_kernel\<lparr>k_vfs := fst (vfs_mkfile (Some ''/s'') (Some (''pwd'' @ NL @ ''id'')) (vfs_init blank_vfs))\<rparr>"

lemma script_kernel_read: "kernel_read m ''/s'' 1024 script_kernel = Some (6, Some (''pwd'' @ NL @ ''id''))"
proof -
  let ?c = "''pwd'' @ NL @ ''id''"
  obtain t where t: "vfs_make (KFile (Some ?c)) (Some ''/s'') (vfs_init blank_vfs :: proc_reader vfs) = (t, 0)"
    "made (vfs_init blank_vfs) ''/s'' VFS_FILE (Some ?c) None t"
    by (rule vfs_make_made [OF blank_vfs_inv, of "''/s''" "KFile (Some ?c)"])
      (auto simp: path_ok_def VFS_PATH_LEN_def VFS_MAX_NODES_def VFS_MAX_FILE_SIZE_def)
  have k: "k_vfs script_kernel = t" using t(1) by (simp add: script_kernel_def)
  have "vfs_inv t" using t(2) by (rule made_inv)
  then have inv: "kernel_inv script_kernel" using demo_kernel_inv t(1) by (auto simp: script_kernel_def)
  have "vfs_view t ''/s'' = Some (new_entry VFS_FILE (Some ?c) None 0)"
    using made_view [OF blank_vfs_inv t(2)] by (simp add: vfs_strcpy_def c_strcpy_def VFS_PATH_LEN_def new_entry_def)
  from vfs_read_view [OF this, of ?c 1024] have "vfs_read call (Some ''/s'') True 1024 t = (6, Some ?c)" for call
    by (simp add: new_entry_def VFS_PERM_READ_def VFS_PERM_WRITE_def)
  then show ?thesis by (simp add: kernel_read_inv [OF inv] k)
qed

theorem shell_run_script_lines_witness:
  "shell_run_script demo_machine (\<lambda>k. k) ''/s'' script_kernel =
    (case run_lines demo_machine (\<lambda>k. k) [''pwd'', ''id''] (k_shell_update (shell_batch_mode_update (\<lambda>_. True)) script_kernel) of
       Done r k \<Rightarrow> Done 0 (k_shell_update (shell_batch_mode_update (\<lambda>_. False)) k) | x \<Rightarrow> x)"
proof -
  have "split_lines (''pwd'' @ NL @ ''id'') = [''pwd'', ''id'']"
    using split_lines_line(2) [of "''pwd''" "''id''"] split_lines_line(1) [of "''id''"] by simp
  then show ?thesis
    using shell_run_script_lines [of demo_machine "''/s''" script_kernel "''pwd'' @ NL @ ''id''" "\<lambda>k. k"] script_kernel_read by simp
qed

section \<open>The embedded user programs\<close>

text \<open>
  The embedded programs are functions of the kernel image, which lies below user space; \<open>proc_create\<close> refuses such
  entry points, so \<open>exec\<close> of them always fails, with the message of a full process table.
\<close>

lemma exec_builtin_refused:
  assumes "m_user_hello m < 0x08000000" "m_user_loop m < 0x08000000" "m_user_crash m < 0x08000000"
    and "prog \<in> {''/bin/hello'', ''hello'', ''/bin/loop'', ''loop'', ''/bin/crash'', ''crash''}"
  shows "prog_exec m others [''exec'', prog] k =
    Done 1 (emit [C (colour VGA_COLOR_LIGHT_RED), W ''exec: process table full''] (emit [W NL] k))"
proof -
  have z: "str_cmp a b = 0 \<longleftrightarrow> a = b" if "c_string a" "c_string b" for a b
    using that by (simp add: str_cmp_def c_strcmp_zero)
  obtain e nm where "exec_entry m prog k = Some (k, Some (e, nm))" "e < 0x08000000"
    using assms that by (auto simp: exec_entry_def z)
  moreover have u: "(emit cs k)\<lparr>k_sched := k_sched k\<rparr> = emit cs k" for cs by (rule kernel.equality) simp_all
  ultimately show ?thesis by (simp add: prog_exec_def ends_def Let_def proc_create_def u)
qed

text \<open>
  C15: \<open>exec\<close> never starts a process. In a consistent kernel, on an image that lies below the heap and below user space,
  every call returns 1 after an error message, whatever its arguments and whatever the files hold; the process table,
  the files, the keyboard, the program table and the extent of the heap are unchanged.
\<close>

theorem exec_never_runs:
  assumes "sys_inv m k"
  shows "\<exists>k'. prog_exec m others argv k = Done 1 k' \<and> sys_inv m k' \<and> core k' = core k \<and> k_vfs k' = k_vfs k"
proof -
  have k: "kernel_inv k" "layout_ok m k" using assms by (simp_all add: sys_inv_def)
  obtain k' f cs where e: "prog_exec m others argv k = Done 1 (emit cs k')" "k' = k \<or> k' = k_mm_update (mem_update f) k" "kernel_inv k'"
    by (rule prog_exec_fails [OF k])
  moreover have "core (emit cs k') = core k" "k_vfs (emit cs k') = k_vfs k" using e(2) by auto
  ultimately show ?thesis using sys_inv_core [of "emit cs k'" k m] assms by auto
qed

theorem exec_never_runs_witness:
  "\<exists>k'. prog_exec demo_machine (\<lambda>k. k) [''exec'', ''/bin/hello''] demo_kernel = Done 1 k' \<and> core k' = core demo_kernel"
  using exec_never_runs [OF demo_kernel_sys, of "\<lambda>k. k" "[''exec'', ''/bin/hello'']"] by blast

end
