(* ===== verification/Boot_Props.thy ===== *)
theory Boot_Props
  imports Boot Shell_Script
begin

unbundle bit_operations_syntax

text \<open>
  What \<open>kernel_main\<close> has established when it enters its loop: the invariants of all components, the file system of
  \<open>vfs_populate\<close>, the programs of the shell, and the effects of the start script.
\<close>

section \<open>The program table\<close>

abbreviation register_all :: "(string \<times> string \<times> 'p) list \<Rightarrow> 'p programs \<Rightarrow> 'p programs" where
  "register_all xs s \<equiv> fold (\<lambda>(nm, desc, e) s. fst (program_register nm desc e s)) xs s"

definition program_of :: "string \<times> string \<times> 'p \<Rightarrow> 'p program" where
  "program_of x = (case x of (nm, desc, e) \<Rightarrow> \<lparr>pg_name = task_strcpy nm PROG_NAME_LEN, pg_desc = task_strcpy desc PROG_DESC_LEN,
     pg_entry = Some e, pg_active = True\<rparr>)"

lemma register_one:
  "fst (program_register nm desc e s) = (if prog_count s \<ge> MAX_PROGRAMS then s
     else s\<lparr>prog_table := (prog_table s)[prog_count s := program_of (nm, desc, e)], prog_count := prog_count s + 1\<rparr>)"
  by (simp add: program_register_def program_of_def)

lemma register_all_table:
  assumes "length (prog_table s) = MAX_PROGRAMS" "prog_count s \<le> MAX_PROGRAMS"
  shows "prog_count (register_all xs s) = min MAX_PROGRAMS (prog_count s + length xs)
    \<and> (\<forall>j<prog_count s. prog_table (register_all xs s) ! j = prog_table s ! j)
    \<and> (\<forall>i<length xs. prog_count s + i < MAX_PROGRAMS \<longrightarrow> prog_table (register_all xs s) ! (prog_count s + i) = program_of (xs ! i))"
  using assms
proof (induction xs arbitrary: s)
  case (Cons x xs)
  define t where "t = (case x of (nm, desc, e) \<Rightarrow> fst (program_register nm desc e s))"
  have t: "t = (if prog_count s \<ge> MAX_PROGRAMS then s
      else s\<lparr>prog_table := (prog_table s)[prog_count s := program_of x], prog_count := prog_count s + 1\<rparr>)"
    by (cases x) (simp add: t_def register_one)
  have r: "register_all (x # xs) s = register_all xs t" by (cases x) (simp add: t_def)
  have IH: "prog_count (register_all xs t) = min MAX_PROGRAMS (prog_count t + length xs)"
      "\<And>j. j < prog_count t \<Longrightarrow> prog_table (register_all xs t) ! j = prog_table t ! j"
      "\<And>i. i < length xs \<Longrightarrow> prog_count t + i < MAX_PROGRAMS \<Longrightarrow> prog_table (register_all xs t) ! (prog_count t + i) = program_of (xs ! i)"
    using Cons.IH [of t] Cons.prems by (auto simp: t)
  show ?case
  proof (cases "prog_count s \<ge> MAX_PROGRAMS")
    case True
    then have "t = s" by (simp add: t)
    then show ?thesis using IH True unfolding r by simp
  next
    case False
    then have c: "prog_count t = prog_count s + 1" "prog_table t = (prog_table s)[prog_count s := program_of x]" by (simp_all add: t)
    have "prog_table (register_all xs t) ! (prog_count s + i) = program_of ((x # xs) ! i)"
      if "i < length (x # xs)" "prog_count s + i < MAX_PROGRAMS" for i
      using that c IH(2) [of "prog_count s"] IH(3) [of "i - 1"] Cons.prems(1) False by (cases i) simp_all
    then show ?thesis using IH(1,2) c unfolding r by auto
  qed
qed auto

lemma register_all_inv: "programs_inv s \<Longrightarrow> \<forall>x\<in>set xs. c_string (fst x) \<Longrightarrow> programs_inv (register_all xs s)"
  by (induction xs arbitrary: s) (auto simp: program_register_inv)

lemma shell_programs_names:
  "distinct (map fst shell_programs)" "\<forall>x\<in>set shell_programs. c_string (fst x) \<and> length (fst x) < PROG_NAME_LEN" "length shell_programs = 34"
  by (simp_all add: shell_programs_def PROG_NAME_LEN_def)

text \<open>The shell finds each of its first 32 programs under its name, with its entry point.\<close>

lemma shell_table:
  assumes "length (prog_table s) = MAX_PROGRAMS"
  defines "t \<equiv> shell_register_programs (programs_init s)"
  shows "programs_inv t" "prog_count t = 32" "\<And>i. i < 32 \<Longrightarrow> program_find (fst (shell_programs ! i)) t = Some i"
    "\<And>i. i < 32 \<Longrightarrow> pg_entry (prog_table t ! i) = Some (snd (snd (shell_programs ! i)))"
proof -
  have init: "length (prog_table (programs_init s)) = MAX_PROGRAMS" "prog_count (programs_init s) = 0"
    using assms(1) by (simp_all add: programs_init_def)
  have "prog_count (programs_init s) \<le> MAX_PROGRAMS" using init(2) by simp
  note a = register_all_table [OF init(1) this, of shell_programs]
  show inv: "programs_inv t"
    unfolding t_def shell_register_programs_def
    by (rule register_all_inv [OF programs_init_inv [OF assms(1)]]) (use shell_programs_names(2) in blast)
  show c: "prog_count t = 32" using a init(2) by (simp add: t_def shell_register_programs_def shell_programs_names(3) MAX_PROGRAMS_def)
  have tab: "prog_table t ! i = program_of (shell_programs ! i)" if "i < 32" for i
    using a init(2) that by (simp add: t_def shell_register_programs_def shell_programs_names(3) MAX_PROGRAMS_def)
  have mem: "shell_programs ! i \<in> set shell_programs" if "i < 32" for i using that shell_programs_names(3) by simp
  have nm: "pg_name (prog_table t ! i) = fst (shell_programs ! i)" if "i < 32" for i
    using shell_programs_names(2) mem [OF that] tab [OF that]
    by (auto simp: program_of_def task_strcpy_def c_strcpy_short split: prod.splits)
  fix i :: nat assume i: "i < 32"
  show "pg_entry (prog_table t ! i) = Some (snd (snd (shell_programs ! i)))"
    using tab [OF i] by (simp add: program_of_def split: prod.splits)
  have "fst (shell_programs ! j) \<noteq> fst (shell_programs ! i)" if "j < i" for j
    using shell_programs_names(1,3) i that by (auto simp: distinct_conv_nth)
  then show "program_find (fst (shell_programs ! i)) t = Some i"
    using shell_programs_names(2) mem [OF i] i by (simp add: program_find_eq [OF inv] find_upt_Some nm c)
qed

section \<open>The file system\<close>

abbreviation make_all :: "(string \<times> 'r node_kind) list \<Rightarrow> 'r vfs \<Rightarrow> 'r vfs" where
  "make_all xs s \<equiv> fold (\<lambda>(p, kind) s. fst (vfs_make kind (Some p) s)) xs s"

definition kind_entry :: "'r node_kind \<Rightarrow> u16 \<Rightarrow> 'r entry" where
  "kind_entry kind perm = new_entry (kind_type kind) (kind_content kind) (kind_read kind) perm"

lemma make_one:
  assumes "vfs_inv s" "path_ok p" "kind_ok kind" "node_count s < VFS_MAX_NODES"
  obtains t perm where "vfs_make kind (Some p) s = (t, 0)" "vfs_inv t" "node_count t = Suc (node_count s)"
    "\<And>q. c_string q \<Longrightarrow> vfs_view t q = (case vfs_view s q of Some e \<Rightarrow> Some e | None \<Rightarrow> if p = q then Some (kind_entry kind perm) else None)"
proof -
  obtain t where t: "vfs_make kind (Some p) s = (t, 0)" "made s p (kind_type kind) (kind_content kind) (kind_read kind) t"
    by (rule vfs_make_made [OF assms])
  have p: "vfs_strcpy p VFS_PATH_LEN = p" using assms(2) by (simp add: path_ok_def vfs_strcpy_def c_strcpy_short)
  show thesis
  proof (rule that [OF t(1) made_inv [OF t(2)]])
    show "node_count t = Suc (node_count s)" using t(2) by (simp add: made_def Let_def)
    show "vfs_view t q = (case vfs_view s q of Some e \<Rightarrow> Some e
        | None \<Rightarrow> if p = q then Some (kind_entry kind (nd_perm (nodes s ! node_count s))) else None)" if "c_string q" for q
      using made_view [OF assms(1) t(2) kind_type_used that] p by (simp add: kind_entry_def split: option.split)
  qed
qed

lemma make_all_view:
  assumes "vfs_inv s" "\<forall>(p, kind)\<in>set xs. path_ok p \<and> kind_ok kind" "node_count s + length xs \<le> VFS_MAX_NODES"
  shows "vfs_inv (make_all xs s) \<and> node_count (make_all xs s) = node_count s + length xs
    \<and> (\<forall>q. c_string q \<longrightarrow> (case vfs_view s q of Some e \<Rightarrow> vfs_view (make_all xs s) q = Some e
        | None \<Rightarrow> (case map_of xs q of None \<Rightarrow> vfs_view (make_all xs s) q = None
           | Some kind \<Rightarrow> \<exists>perm. vfs_view (make_all xs s) q = Some (kind_entry kind perm))))"
  using assms
proof (induction xs arbitrary: s)
  case (Cons x xs)
  obtain p kind where x: "x = (p, kind)" by (cases x)
  have pk: "path_ok p" "kind_ok kind" "node_count s < VFS_MAX_NODES" using Cons.prems x by simp_all
  obtain t perm where t: "vfs_make kind (Some p) s = (t, 0)" "vfs_inv t" "node_count t = Suc (node_count s)"
    "\<And>q. c_string q \<Longrightarrow> vfs_view t q = (case vfs_view s q of Some e \<Rightarrow> Some e | None \<Rightarrow> if p = q then Some (kind_entry kind perm) else None)"
    by (rule make_one [OF Cons.prems(1) pk]) blast
  have r: "make_all (x # xs) s = make_all xs t" using t(1) by (simp add: x)
  have IH: "vfs_inv (make_all xs t)" "node_count (make_all xs t) = node_count t + length xs"
    "\<And>q. c_string q \<Longrightarrow> (case vfs_view t q of Some e \<Rightarrow> vfs_view (make_all xs t) q = Some e
        | None \<Rightarrow> (case map_of xs q of None \<Rightarrow> vfs_view (make_all xs t) q = None
           | Some kind \<Rightarrow> \<exists>perm. vfs_view (make_all xs t) q = Some (kind_entry kind perm)))"
    using Cons.IH [OF t(2)] Cons.prems(2,3) t(3) by simp_all
  show ?case
    unfolding r
  proof (intro conjI allI impI)
    fix q :: string assume q: "c_string q"
    show "case vfs_view s q of None \<Rightarrow> (case map_of (x # xs) q of None \<Rightarrow> vfs_view (make_all xs t) q = None
         | Some kind \<Rightarrow> \<exists>perm. vfs_view (make_all xs t) q = Some (kind_entry kind perm))
      | Some e \<Rightarrow> vfs_view (make_all xs t) q = Some e"
      using IH(3) [OF q] t(4) [OF q] by (auto simp: x split: option.splits if_splits)
  qed (use IH(1,2) t(3) in simp_all)
qed (simp split: option.splits)

lemma populate_paths:
  "\<forall>(p, kind)\<in>set populate_nodes. path_ok p \<and> kind_ok kind" "length populate_nodes = 24"
  by (simp_all add: populate_nodes_def path_ok_def VFS_PATH_LEN_def VFS_MAX_FILE_SIZE_def char_at_def
      ERON_HOSTNAME_def ERON_VERSION_def ERON_CODENAME_def ERON_AUTHOR_def)

text \<open>After \<open>vfs_populate\<close> every path it names has its entry, and no other path has one.\<close>

lemma vfs_populate_view:
  assumes "vfs_inv (vfs_init s)"
  defines "t \<equiv> vfs_populate (vfs_init s)"
  shows "vfs_inv t" "node_count t = 24"
    "c_string q \<Longrightarrow> map_of populate_nodes q = None \<Longrightarrow> vfs_view t q = None"
    "c_string q \<Longrightarrow> map_of populate_nodes q = Some kind \<Longrightarrow> \<exists>perm. vfs_view t q = Some (kind_entry kind perm)"
proof -
  have "node_count (vfs_init s) + length populate_nodes \<le> VFS_MAX_NODES" by (simp add: populate_paths(2) VFS_MAX_NODES_def)
  note m = make_all_view [OF assms(1) populate_paths(1) this]
  show "vfs_inv t" "node_count t = 24" using m by (simp_all add: t_def vfs_populate_def populate_paths(2))
  show "c_string q \<Longrightarrow> map_of populate_nodes q = None \<Longrightarrow> vfs_view t q = None"
    "c_string q \<Longrightarrow> map_of populate_nodes q = Some kind \<Longrightarrow> \<exists>perm. vfs_view t q = Some (kind_entry kind perm)"
    using m by (auto simp: t_def vfs_populate_def split: option.splits dest!: spec [of _ q])
qed

section \<open>Memory\<close>

lemma fold_outside: "(\<And>i m. i \<in> set is \<Longrightarrow> f i m x = m x) \<Longrightarrow> fold f is m x = (m :: memory) x"
  by (induction "is" arbitrary: m) auto

lemma clear_entries_outside:
  assumes "table_fits a" "unat x < unat a \<or> unat a + 4096 \<le> unat x"
  shows "clear_entries a m x = m x"
  unfolding clear_entries_def
  by (rule fold_outside) (use assms in \<open>auto simp: unat_of_nat intro!: set_entry_outside\<close>)

lemma kernel_pde_outside:
  assumes "table_fits a" "unat x < unat a \<or> unat a + 4096 \<le> unat x" "i < 1024"
  shows "kernel_pde a e i m x = m x"
proof -
  have "set_entry a (word_of_nat i) v m x = m x" for v m
    by (rule set_entry_outside) (use assms in \<open>auto simp: unat_of_nat\<close>)
  then show ?thesis unfolding kernel_pde_def Let_def by (subst fold_outside) simp_all
qed

text \<open>Writing the payload of a live block keeps the heap.\<close>

lemma payload_write_inv:
  assumes inv: "heap_inv s (xs @ (n, True) # ys)"
    and f: "\<And>x. unat x < unat (heap_start s) + extent xs + 12 \<or> unat (heap_start s) + extent xs + 12 + n \<le> unat x \<Longrightarrow> f (mem s) x = mem s x"
  shows "heap_inv (mem_update f s) (xs @ (n, True) # ys)"
proof -
  let ?bs = "xs @ (n, True) # ys"
  have wf: "heap_wf s ?bs" using heap_invD(1) [OF inv] .
  have "chain (f (mem s)) (unat (heap_start s)) ?bs = chain (mem s) (unat (heap_start s)) ?bs"
  proof (rule chain_cong)
    show "unat (heap_start s) + extent ?bs \<le> 2 ^ 32" using wf u32_bound [of "heap_end s"] by (simp add: heap_wf_def)
    show "f (mem s) x = mem s x" if "unat x \<in> header_cells (unat (heap_start s)) ?bs" for x
      by (rule f) (use that in \<open>auto dest: header_cells_bounds\<close>)
  qed
  then show ?thesis using inv by (simp add: heap_inv_def heap_wf_def)
qed

lemma vmm_init_heap:
  assumes len: "length (tracked_blocks mm) = MAX_TRACKED_BLOCKS" and fit: "unat (ALIGN8 ke) + 0x100000 < 2 ^ 32"
  shows "\<exists>v' mm' bs. vmm_init e (v, mm_init ke HEAP_SIZE mm) = Some (v', mm') \<and> heap_inv mm' bs
    \<and> heap_span mm' = (ALIGN8 ke, ALIGN8 ke + HEAP_SIZE)"
proof -
  let ?s = "mm_init ke HEAP_SIZE mm"
  have inv: "heap_inv ?s [(0xFFFF4, False)]" using mm_init_inv_aux(1) [OF len, of ke HEAP_SIZE] fit by (simp add: HEAP_SIZE_def)
  have st: "heap_start ?s = ALIGN8 ke" "heap_end ?s = ALIGN8 ke + HEAP_SIZE" by (simp_all add: mm_init_def Let_def)
  let ?b = "unat (ALIGN8 ke)"
  let ?bs = "[(4096, True), (0xFFFF4 - 4096 - 12, False)] :: blocks"
  have "alloc_spec (unat (heap_start ?s)) (unat (ALIGN8 sizeof_page_directory)) [(0xFFFF4, False)] = Some (?b + 12, ?bs)"
    by (simp add: alloc_spec_def carve_def ALIGN8_def sizeof_page_directory_def st)
  then obtain s' where s': "kmalloc sizeof_page_directory ?s = Some (s', word_of_nat (?b + 12))" "heap_inv s' ?bs" "heap_start s' = ALIGN8 ke"
    "heap_end s' = ALIGN8 ke + HEAP_SIZE"
    using kmalloc_spec [OF inv, of sizeof_page_directory] st by (auto simp: sizeof_page_directory_def)
  define p :: u32 where "p = word_of_nat (?b + 12)"
  have p: "unat p = ?b + 12" using fit by (simp add: p_def unat_of_nat unat_word_ariths)
  then have p0: "p \<noteq> 0" "table_fits p" using fit by (auto simp: table_fits_def)
  define g where "g e m = fold (kernel_pde p e) [unat (drop_bit 22 KERNEL_VIRT_START)..<1024] (clear_entries p m)" for e m
  have out: "g e m x = m x" if "unat x < ?b + 12 \<or> ?b + 12 + 4096 \<le> unat x" for e m x
  proof -
    have x: "unat x < unat p \<or> unat p + 4096 \<le> unat x" using that p by simp
    have "fold (kernel_pde p e) [unat (drop_bit 22 KERNEL_VIRT_START)..<1024] m x = m x" for m
      by (rule fold_outside) (simp add: kernel_pde_outside [OF p0(2) x])
    then show ?thesis using clear_entries_outside [OF p0(2) x] by (simp add: g_def)
  qed
  have "heap_inv (mem_update (g e) s') ?bs" for e
    using payload_write_inv [of s' "[]" 4096 _ "g e"] s'(2,3) out by simp
  moreover have "fold (kernel_pde p e) [unat (drop_bit 22 KERNEL_VIRT_START)..<1024] \<circ> clear_entries p = g e" for e
    by (rule ext) (simp add: g_def)
  moreover have "kmalloc sizeof_page_directory ?s = Some (s', p)" unfolding p_def by (rule s'(1))
  ultimately show ?thesis using p0(1) s'(3,4) by (auto simp: vmm_init_def Let_def heap_span_def)
qed

section \<open>The start script\<close>

definition running :: "kernel \<Rightarrow> program_entry programs \<Rightarrow> proc_reader vfs \<Rightarrow> shell \<Rightarrow> bool" where
  "running k P v sh \<longleftrightarrow> kernel_inv k \<and> k_progs k = P \<and> k_vfs k = v \<and> k_shell k = sh"

lemma running_emit [simp]: "running k P v sh \<Longrightarrow> running (emit cs k) P v sh"
  by (simp add: running_def)

lemma after_command_frame [simp]:
  "k_progs (after_command k) = k_progs k" "k_vfs (after_command k) = k_vfs k" "k_shell (after_command k) = k_shell k"
  by (simp_all add: after_command_def prompt_unless_batch_def print_prompt_def Let_def)

lemma running_after: "running k P v sh \<Longrightarrow> running (after_command k) P v sh"
  by (simp add: running_def prompt_inv)

text \<open>A command whose first word names a registered program runs it.\<close>

lemma dispatch_program:
  assumes P: "P = shell_register_programs (programs_init s)" "length (prog_table s) = MAX_PROGRAMS"
    and k: "running k P v sh" and i: "i < 32" "argv = fst (shell_programs ! i) # args" "fst (shell_programs ! i) \<noteq> ''clear''"
    and r: "\<And>k. running k P v sh \<Longrightarrow> \<exists>x k'. run_program m others (snd (snd (shell_programs ! i))) argv k = Done x k' \<and> running k' P v' sh'"
  shows "\<exists>k'. dispatch m others argv k = Done 0 k' \<and> running k' P v' sh'"
proof -
  let ?k = "emit [C (colour VGA_COLOR_LIGHT_GREY)] k"
  note t = shell_table [OF P(2)]
  obtain x k' where k': "run_program m others (snd (snd (shell_programs ! i))) argv ?k = Done x k'" "running k' P v' sh'"
    using r [OF running_emit [OF k]] by blast
  have "shell_programs ! i \<in> set shell_programs" using i(1) shell_programs_names(3) by simp
  then have "c_string (fst (shell_programs ! i))" using shell_programs_names(2) by blast
  then have "str_cmp (argv ! 0) ''clear'' \<noteq> 0" using i(2,3) by (simp add: str_cmp_def c_strcmp_zero)
  moreover have "k_progs k = shell_register_programs (programs_init s)" using k P(1) by (simp add: running_def)
  ultimately have "dispatch m others argv k = Done 0 (after_command k')"
    using t(3,4) [OF i(1)] k'(1) i(2) by (simp add: dispatch_def Let_def)
  then show ?thesis using running_after [OF k'(2)] by blast
qed

lemma run_mkdir:
  assumes "running k P v sh" "vfs_mkdir (Some p) v = (t, 0)" "vfs_inv t"
  shows "\<exists>x k'. prog_mkdir [''mkdir'', p] k = Done x k' \<and> running k' P t sh"
  using assms by (auto simp: prog_mkdir_def vfs_do_def running_def)

lemma run_touch:
  assumes "running k P v sh" "vfs_view v p = None" "vfs_mkfile (Some p) (Some '''') v = (t, 0)" "vfs_inv t"
  shows "\<exists>x k'. prog_touch [''touch'', p] k = Done x k' \<and> running k' P t sh"
  using assms by (auto simp: prog_touch_def vfs_do_def running_def vfs_view_def)

definition boot_text :: string where "boot_text = ''boot sequence complete''"

lemma run_append:
  assumes "running k P v sh" "\<And>call. vfs_read call (Some p) True 1024 v = (0, Some '''')"
    and "vfs_write (Some p) (Some boot_text) (length boot_text) v = (t, r)" "0 \<le> r" "vfs_inv t"
  shows "\<exists>x k'. prog_append m [''append'', p, ''boot'', ''sequence'', ''complete''] k = Done x k' \<and> running k' P t sh"
proof -
  have "join_loop 1023 True '''' [''boot'', ''sequence'', ''complete''] = boot_text"
    by (simp add: Let_def boot_text_def)
  then show ?thesis
    using assms kernel_read_inv [of k m p 1024]
    by (auto simp: prog_append_def vfs_do_def running_def ends_def simp del: join_loop.simps)
qed

definition netd_up :: "shell \<Rightarrow> shell" where
  "netd_up sh = sh\<lparr>services := (services sh)[0 := (services sh ! 0)\<lparr>sv_running := True\<rparr>]\<rparr>"

lemma run_service:
  assumes "running k P v sh" "services sh = boot_services"
  shows "\<exists>x k'. prog_service [''service'', ''start'', ''netd''] k = Done x k' \<and> running k' P v (netd_up sh)"
proof -
  have f: "service_find ''netd'' boot_services = Some 0" by (simp add: service_find_def boot_services_def str_cmp_def c_strcmp_zero)
  have "str_cmp ''start'' ''status'' \<noteq> 0" "service_action ''start'' = Some (sv_running_update (\<lambda>_. True))"
    by (simp_all add: str_cmp_def c_strcmp_zero service_action_def)
  then show ?thesis
    using assms f by (auto simp: prog_service_def running_def upd_service_def Let_def netd_up_def kernel_inv_shell)
qed

definition init_rc :: string where
  "init_rc = ''mkdir /var/log'' @ CHR 0x0A # ''touch /var/log/boot.log'' @ CHR 0x0A #
     ''append /var/log/boot.log boot sequence complete'' @ CHR 0x0A # ''service start netd''"

lemma init_rc_facts:
  "map_of populate_nodes ''/etc/init.rc'' = Some (KFile (Some init_rc))" "c_string init_rc" "init_rc \<noteq> ''''" "length init_rc < 1024"
  "split_lines init_rc = [''mkdir /var/log'', ''touch /var/log/boot.log'', ''append /var/log/boot.log boot sequence complete'', ''service start netd'']"
  "map_of populate_nodes ''/var/log'' = None" "map_of populate_nodes ''/var/log/boot.log'' = None"
proof -
  show "map_of populate_nodes ''/etc/init.rc'' = Some (KFile (Some init_rc))" by (simp add: populate_nodes_def init_rc_def)
  show "c_string init_rc" "init_rc \<noteq> ''''" "length init_rc < 1024" by (simp_all add: init_rc_def)
  show "split_lines init_rc = [''mkdir /var/log'', ''touch /var/log/boot.log'', ''append /var/log/boot.log boot sequence complete'', ''service start netd'']"
    unfolding init_rc_def
    by (subst split_lines_line(2), simp, subst split_lines_line(2), simp, subst split_lines_line(2), simp, subst split_lines_line(1)) simp_all
  show "map_of populate_nodes ''/var/log'' = None" "map_of populate_nodes ''/var/log/boot.log'' = None" by (simp_all add: populate_nodes_def)
qed

lemma init_rc_words:
  "split_words ''mkdir /var/log'' = [''mkdir'', ''/var/log'']" "split_words ''touch /var/log/boot.log'' = [''touch'', ''/var/log/boot.log'']"
  "split_words ''append /var/log/boot.log boot sequence complete'' = [''append'', ''/var/log/boot.log'', ''boot'', ''sequence'', ''complete'']"
  "split_words ''service start netd'' = [''service'', ''start'', ''netd'']"
  by (simp_all add: split_words.simps)

text \<open>What the script does to a file system that has neither path.\<close>

lemma script_files:
  fixes v :: "proc_reader vfs"
  assumes "vfs_inv v" "node_count v \<le> 126" "vfs_view v ''/var/log'' = None" "vfs_view v ''/var/log/boot.log'' = None"
  obtains t1 t2 t3 e r where "vfs_mkdir (Some ''/var/log'') v = (t1, 0)" "vfs_inv t1" "vfs_view t1 ''/var/log/boot.log'' = None"
    "vfs_mkfile (Some ''/var/log/boot.log'') (Some '''') t1 = (t2, 0)" "vfs_inv t2"
    "\<And>call. vfs_read call (Some ''/var/log/boot.log'') True 1024 t2 = (0, Some '''')"
    "vfs_write (Some ''/var/log/boot.log'') (Some boot_text) (length boot_text) t2 = (t3, r)" "0 \<le> r" "vfs_inv t3"
    "vfs_view t3 ''/var/log'' \<noteq> None" "\<And>call. vfs_read call (Some ''/var/log/boot.log'') True 1024 t3 = (22, Some boot_text)"
    "\<And>q. c_string q \<Longrightarrow> vfs_view v q \<noteq> None \<Longrightarrow> vfs_view t3 q = vfs_view v q"
proof -
  let ?d = "''/var/log''" and ?f = "''/var/log/boot.log''"
  have ok: "path_ok ?d" "path_ok ?f" by (simp_all add: path_ok_def VFS_PATH_LEN_def char_at_def)
  have c: "c_string ?d" "c_string ?f" by simp_all
  have n: "node_count v < VFS_MAX_NODES" using assms(2) by (simp add: VFS_MAX_NODES_def)
  obtain t1 p1 where t1: "vfs_mkdir (Some ?d) v = (t1, 0)" "vfs_inv t1" "node_count t1 = Suc (node_count v)"
    "\<And>q. c_string q \<Longrightarrow> vfs_view t1 q = (case vfs_view v q of Some e \<Rightarrow> Some e | None \<Rightarrow> if ?d = q then Some (kind_entry KDir p1) else None)"
    by (rule make_one [OF assms(1) ok(1) _ n, of KDir]) simp_all
  have n1: "node_count t1 < VFS_MAX_NODES" using assms(2) t1(3) by (simp add: VFS_MAX_NODES_def)
  obtain t2 p2 where t2: "vfs_mkfile (Some ?f) (Some '''') t1 = (t2, 0)" "vfs_inv t2"
    "\<And>q. c_string q \<Longrightarrow> vfs_view t2 q = (case vfs_view t1 q of Some e \<Rightarrow> Some e | None \<Rightarrow> if ?f = q then Some (kind_entry (KFile (Some '''')) p2) else None)"
    by (rule make_one [OF t1(2) ok(2) _ n1, of "KFile (Some '''')"]) (simp_all add: VFS_MAX_FILE_SIZE_def)
  define e :: "proc_reader entry" where "e = kind_entry (KFile (Some '''')) p2"
  have e: "en_type e = VFS_FILE" "en_read e = None" "en_content e = Some ''''" "(en_perm e AND VFS_PERM_WRITE) \<noteq> 0" "(en_perm e AND VFS_PERM_READ) \<noteq> 0"
    by (simp_all add: e_def kind_entry_def new_entry_def VFS_PERM_READ_def VFS_PERM_WRITE_def)
  have f1: "vfs_view t1 ?f = None" using t1(4) [OF c(2)] assms(4) by simp
  have f2: "vfs_view t2 ?f = Some e" using t2(3) [OF c(2)] f1 by (simp add: e_def)
  define w where "w = vfs_write (Some ?f) (Some boot_text) (length boot_text) t2"
  note w = vfs_write_view [OF t2(2) c(2) _ f2 e(1,2,4), of _ boot_text "length boot_text", folded w_def]
  have "map (char_at boot_text) [0..<length boot_text] = boot_text" by (rule nth_equalityI) (simp_all add: char_at_def)
  then have bt: "as_cstr (map (char_at boot_text) [0..<min (length boot_text) 4095]) = boot_text" "c_string boot_text" "length boot_text = 22"
    by (simp_all add: boot_text_def)
  have f3: "vfs_view (fst w) ?f = Some (e\<lparr>en_content := Some boot_text\<rparr>)" using w(2) [OF c(2)] bt by simp
  have t3: "vfs_view (fst w) q = vfs_view t2 q" if "c_string q" "q \<noteq> ?f" for q using w(2) [OF that(1)] that(2) by simp
  show thesis
  proof (rule that [OF t1(1,2) f1 t2(1,2), of "fst w" "snd w"])
    show "vfs_read call (Some ?f) True 1024 t2 = (0, Some '''')" for call using vfs_read_view [OF f2 _ e(2,5,3), of 1024 call] e(1) by simp
    show "vfs_write (Some ?f) (Some boot_text) (length boot_text) t2 = (fst w, snd w)" by (simp add: w_def)
    show "0 \<le> snd w" using w(1) [OF c(2)] by simp
    show "vfs_inv (fst w)" using vfs_write_inv [OF t2(2)] c(2) by (simp add: w_def cstr_ok_def)
    show "vfs_view (fst w) ?d \<noteq> None" using t3 [OF c(1)] t2(3) [OF c(1)] t1(4) [OF c(1)] assms(3) by simp
    show "vfs_read call (Some ?f) True 1024 (fst w) = (22, Some boot_text)" for call
      using vfs_read_view [OF f3, of boot_text 1024 call] e bt(3) by simp
    show "vfs_view (fst w) q = vfs_view v q" if "c_string q" "vfs_view v q \<noteq> None" for q
    proof -
      have "q \<noteq> ?f" using that(2) assms(4) by auto
      then show ?thesis using t3 [OF that(1)] t2(3) [OF that(1)] t1(4) [OF that(1)] that(2) by auto
    qed
  qed
qed

lemma boot_script:
  assumes P: "P = shell_register_programs (programs_init s)" "length (prog_table s) = MAX_PROGRAMS"
    and k: "running k P v sh" and sv: "services sh = boot_services"
    and v: "node_count v \<le> 126" "vfs_view v ''/var/log'' = None" "vfs_view v ''/var/log/boot.log'' = None"
      "vfs_view v ''/etc/init.rc'' = Some (kind_entry (KFile (Some init_rc)) perm)"
  shows "\<exists>k' t. shell_run_script m others ''/etc/init.rc'' k = Done 0 k' \<and> running k' P t (netd_up sh\<lparr>shell_batch_mode := False\<rparr>)
    \<and> vfs_view t ''/var/log'' \<noteq> None \<and> (\<forall>call. vfs_read call (Some ''/var/log/boot.log'') True 1024 t = (22, Some boot_text))
    \<and> (\<forall>q. c_string q \<longrightarrow> vfs_view v q \<noteq> None \<longrightarrow> vfs_view t q = vfs_view v q)"
proof -
  have inv: "vfs_inv v" using k by (auto simp: running_def dest: kernel_invD(2))
  obtain t1 t2 t3 r where t: "vfs_mkdir (Some ''/var/log'') v = (t1, 0)" "vfs_inv t1" "vfs_view t1 ''/var/log/boot.log'' = None"
    "vfs_mkfile (Some ''/var/log/boot.log'') (Some '''') t1 = (t2, 0)" "vfs_inv t2"
    "\<And>call. vfs_read call (Some ''/var/log/boot.log'') True 1024 t2 = (0, Some '''')"
    "vfs_write (Some ''/var/log/boot.log'') (Some boot_text) (length boot_text) t2 = (t3, r)" "0 \<le> r" "vfs_inv t3"
    and t3: "vfs_view t3 ''/var/log'' \<noteq> None" "\<And>call. vfs_read call (Some ''/var/log/boot.log'') True 1024 t3 = (22, Some boot_text)"
    "\<And>q. c_string q \<Longrightarrow> vfs_view v q \<noteq> None \<Longrightarrow> vfs_view t3 q = vfs_view v q"
    by (rule script_files [OF inv v(1-3)]) blast
  let ?sh = "sh\<lparr>shell_batch_mode := True\<rparr>"
  define k0 where "k0 = k_shell_update (shell_batch_mode_update (\<lambda>_. True)) k"
  have k0: "running k0 P v ?sh" using k kernel_inv_shell(2) [of k] by (simp add: running_def k0_def)
  note d = dispatch_program [OF P]
  obtain k1 where k1: "dispatch m others [''mkdir'', ''/var/log''] k0 = Done 0 k1" "running k1 P t1 ?sh"
    using d [OF k0, of 9 _ _ m others t1 ?sh] run_mkdir [OF _ t(1,2)] by (fastforce simp: shell_programs_def)
  obtain k2 where k2: "dispatch m others [''touch'', ''/var/log/boot.log''] k1 = Done 0 k2" "running k2 P t2 ?sh"
    using d [OF k1(2), of 5 _ _ m others t2 ?sh] run_touch [OF _ t(3-5)] by (fastforce simp: shell_programs_def)
  obtain k3 where k3: "dispatch m others [''append'', ''/var/log/boot.log'', ''boot'', ''sequence'', ''complete''] k2 = Done 0 k3" "running k3 P t3 ?sh"
    using d [OF k2(2), of 13 _ _ m others t3 ?sh] run_append [OF _ t(6-9)] by (fastforce simp: shell_programs_def)
  obtain k4 where k4: "dispatch m others [''service'', ''start'', ''netd''] k3 = Done 0 k4" "running k4 P t3 (netd_up ?sh)"
    using d [OF k3(2), of 4 _ _ m others t3 "netd_up ?sh"] run_service [of _ P t3 ?sh] sv by (fastforce simp: shell_programs_def)
  have lines: "run_lines m others (split_lines init_rc) k0 = Done 0 k4"
    using k1(1) k2(1) k3(1) k4(1) by (simp add: init_rc_facts(5) execute_command_dispatch init_rc_words)
  have "kernel_read m ''/etc/init.rc'' 1024 k = Some (int (length init_rc), Some init_rc)"
    using vfs_read_view [OF v(4), of init_rc 1024 "run_reader m k"] kernel_read_inv [of k m] k init_rc_facts(4)
    by (simp add: running_def kind_entry_def new_entry_def VFS_PERM_READ_def VFS_PERM_WRITE_def)
  from shell_run_script_eq [OF this init_rc_facts(2,3), of others]
  have "shell_run_script m others ''/etc/init.rc'' k = Done 0 (k_shell_update (shell_batch_mode_update (\<lambda>_. False)) k4)"
    using lines by (simp add: k0_def)
  moreover have "running (k_shell_update (shell_batch_mode_update (\<lambda>_. False)) k4) P t3 (netd_up sh\<lparr>shell_batch_mode := False\<rparr>)"
    using k4(2) kernel_inv_shell(2) [of k4] by (auto simp: running_def netd_up_def)
  ultimately show ?thesis using t3 by blast
qed

section \<open>The boot sequence\<close>

text \<open>
  The static data of the kernel when it is entered: arrays of their declared sizes, nothing registered, the initialised
  variables at their values.
\<close>

definition power_on :: "kernel \<Rightarrow> bool" where
  "power_on k \<longleftrightarrow> length (tracked_blocks (k_mm k)) = MAX_TRACKED_BLOCKS \<and> vfs_inv (vfs_init (k_vfs k))
     \<and> length (procs (k_sched k)) = PROC_MAX \<and> length (child_parent (k_sched k)) = PROC_MAX \<and> next_pid (k_sched k) = 1
     \<and> kb_ok (k_kbd k) \<and> programs_inv (k_progs k) \<and> shell_ok (k_shell k) \<and> services (k_shell k) = boot_services
     \<and> \<not> shell_batch_mode (k_shell k)"

lemma boot_log_frame [simp]:
  "k_mm (boot_log s k) = k_mm k" "k_vfs (boot_log s k) = k_vfs k" "k_sched (boot_log s k) = k_sched k" "k_timer (boot_log s k) = k_timer k"
  "k_kbd (boot_log s k) = k_kbd k" "k_progs (boot_log s k) = k_progs k" "k_shell (boot_log s k) = k_shell k" "k_vmm (boot_log s k) = k_vmm k"
  by (simp_all add: boot_log_def Let_def)

lemma boot_log_cursor [simp]: "cursor_ok (k_term k) \<Longrightarrow> cursor_ok (k_term (boot_log s k))"
  by (simp add: boot_log_def Let_def emit_cursor)

lemma pic_remap_frame [simp]:
  "k_mm (pic_remap k) = k_mm k" "k_vfs (pic_remap k) = k_vfs k" "k_sched (pic_remap k) = k_sched k" "k_term (pic_remap k) = k_term k"
  "k_kbd (pic_remap k) = k_kbd k" "k_progs (pic_remap k) = k_progs k" "k_shell (pic_remap k) = k_shell k"
  by (simp_all add: pic_remap_def k_outb_def)

lemma boot_banner_frame [simp]:
  "k_mm (boot_banner k) = k_mm k" "k_vfs (boot_banner k) = k_vfs k" "k_sched (boot_banner k) = k_sched k"
  "k_kbd (boot_banner k) = k_kbd k" "k_progs (boot_banner k) = k_progs k" "k_shell (boot_banner k) = k_shell k"
  by (simp_all add: boot_banner_def Let_def)

lemma boot_banner_cursor [simp]: "cursor_ok (k_term (boot_banner k))"
proof -
  have "cursor_ok (terminal_initialize t)" for t
    by (simp add: terminal_initialize_def cursor_ok_def VGA_HEIGHT_def VGA_WIDTH_def Let_def)
  then show ?thesis by (simp add: boot_banner_def Let_def emit_cursor)
qed

text \<open>The hardware part touches only the terminal, the ports, the timer and the descriptor tables.\<close>

lemma boot_hardware_frame:
  obtains k' f where "boot_hardware m k = Some k'" "k_mm k' = k_mm k" "k_vfs k' = k_vfs k" "k_kbd k' = k_kbd k"
    "k_progs k' = k_progs k" "k_shell k' = k_shell k" "k_sched k' = tables_update f (k_sched k)" "cursor_ok (k_term k')"
    "frequency (k_timer k') = PIT_FREQ"
proof -
  have "\<exists>k'. boot_hardware m k = Some k' \<and> k_mm k' = k_mm k \<and> k_vfs k' = k_vfs k \<and> k_kbd k' = k_kbd k
    \<and> k_progs k' = k_progs k \<and> k_shell k' = k_shell k
    \<and> k_sched k' = tables_update (tss_init 0x10 (m_stack_top m) \<circ> set_gates m \<circ> idt_install \<circ> gdt_init) (k_sched k) \<and> cursor_ok (k_term k')
    \<and> frequency (k_timer k') = PIT_FREQ"
    by (simp add: boot_hardware_def timer_init_def PIT_FREQ_def Let_def tables_do_def comp_def)
  then show thesis using that by blast
qed

lemma boot_memory_frame:
  assumes "length (tracked_blocks (k_mm k)) = MAX_TRACKED_BLOCKS" "unat (ALIGN8 (m_kernel_end m)) + 0x100000 < 2 ^ 32" "cursor_ok (k_term k)"
  obtains k' bs where "boot_memory m k = Some k'" "heap_inv (k_mm k') bs" "k_vfs k' = vfs_populate (vfs_init (k_vfs k))" "k_kbd k' = k_kbd k"
    "k_progs k' = k_progs k" "k_shell k' = k_shell k" "k_sched k' = k_sched k" "cursor_ok (k_term k')"
    "k_timer k' = k_timer k" "heap_span (k_mm k') = (ALIGN8 (m_kernel_end m), ALIGN8 (m_kernel_end m) + HEAP_SIZE)"
proof -
  obtain v mm bs where v: "vmm_init (m_kernel_end m + 0x100000) (k_vmm k, mm_init (m_kernel_end m) HEAP_SIZE (k_mm k)) = Some (v, mm)" "heap_inv mm bs"
      "heap_span mm = (ALIGN8 (m_kernel_end m), ALIGN8 (m_kernel_end m) + HEAP_SIZE)"
    using vmm_init_heap [OF assms(1,2), of "m_kernel_end m + 0x100000" "k_vmm k"] by blast
  then have "\<exists>k'. boot_memory m k = Some k' \<and> heap_inv (k_mm k') bs \<and> k_vfs k' = vfs_populate (vfs_init (k_vfs k)) \<and> k_kbd k' = k_kbd k
    \<and> k_progs k' = k_progs k \<and> k_shell k' = k_shell k \<and> k_sched k' = k_sched k \<and> cursor_ok (k_term k')
    \<and> k_timer k' = k_timer k \<and> heap_span (k_mm k') = (ALIGN8 (m_kernel_end m), ALIGN8 (m_kernel_end m) + HEAP_SIZE)"
    using assms(3) by (simp add: boot_memory_def Let_def enable_paging_def)
  then show thesis using that by blast
qed

lemma sched_inv_tables: "sched_inv s \<Longrightarrow> sched_inv (tables_update g s)"
  by (simp add: sched_inv_def sched_wf_def pids_ok_def slot_state_def)

lemma running_syscall_init: "running k P v sh \<Longrightarrow> running (syscall_init a k) P v sh"
  using kernel_invD(3) [of k] by (auto simp: running_def syscall_init_def sched_inv_tables)

lemma services_up:
  assumes inv: "\<exists>bs. heap_inv (k_mm k) bs" "cursor_ok (k_term k)" "kb_ok (k_kbd k)" "programs_inv (k_progs k)" "shell_ok (k_shell k)"
      "services (k_shell k) = boot_services" "sched_inv (proc_init (k_sched k))"
    and v: "k_vfs k = vfs_populate (vfs_init s)" "vfs_inv (vfs_init s)"
  shows "\<exists>k' t. boot_services_up m others k = Done 0 k'
    \<and> running k' (shell_register_programs (programs_init (k_progs k))) t (netd_up (k_shell k)\<lparr>shell_batch_mode := False\<rparr>)
    \<and> (\<forall>call. vfs_read call (Some ''/var/log/boot.log'') True 1024 t = (22, Some boot_text))
    \<and> (\<forall>q. c_string q \<longrightarrow> vfs_view (k_vfs k) q \<noteq> None \<longrightarrow> vfs_view t q = vfs_view (k_vfs k) q)"
proof -
  note pv = vfs_populate_view [OF v(2)]
  let ?P = "shell_register_programs (programs_init (k_progs k))"
  have len: "length (prog_table (k_progs k)) = MAX_PROGRAMS" using inv(4) by (simp add: programs_inv_def)
  define k1 where "k1 = k_progs_update shell_register_programs (k_progs_update programs_init
    (boot_log ''Process: scheduler initialized'' (k_sched_update proc_init k)))"
  have r: "running k1 ?P (k_vfs k) (k_shell k)"
    using inv shell_table(1) [OF len] pv(1) v(1) by (simp add: running_def kernel_inv_def k1_def)
  obtain perm where "vfs_view (k_vfs k) ''/etc/init.rc'' = Some (kind_entry (KFile (Some init_rc)) perm)"
    using pv(4) [OF _ init_rc_facts(1)] v(1) by auto
  moreover have "node_count (k_vfs k) \<le> 126" "vfs_view (k_vfs k) ''/var/log'' = None" "vfs_view (k_vfs k) ''/var/log/boot.log'' = None"
    using pv(2,3) init_rc_facts(6,7) v(1) by simp_all
  ultimately obtain k2 t where k2: "shell_run_script m others ''/etc/init.rc'' k1 = Done 0 k2"
      "running k2 ?P t (netd_up (k_shell k)\<lparr>shell_batch_mode := False\<rparr>)"
    and t: "\<forall>call. vfs_read call (Some ''/var/log/boot.log'') True 1024 t = (22, Some boot_text)"
      "\<forall>q. c_string q \<longrightarrow> vfs_view (k_vfs k) q \<noteq> None \<longrightarrow> vfs_view t q = vfs_view (k_vfs k) q"
    using boot_script [OF refl len r inv(6), of _ m others] by blast
  define fin where "fin x = print_prompt (emit [W NL, C (colour VGA_COLOR_WHITE), W ('' System ready.'' @ NL @ NL), C (colour VGA_COLOR_LIGHT_GREY)]
    (boot_log ''Syscall: INT 0x80 handler active'' (syscall_init (m_syscall_handler_asm m) (boot_log (prog_msg (program_count (k_progs x))) x))))" for x
  have "boot_services_up m others k = (case shell_run_script m others ''/etc/init.rc'' k1 of Done r x \<Rightarrow> Done 0 (fin x) | x \<Rightarrow> x)"
    unfolding boot_services_up_def k1_def fin_def Let_def ..
  then have "boot_services_up m others k = Done 0 (fin k2)" by (simp add: k2(1))
  moreover have "running (fin k2) ?P t (netd_up (k_shell k)\<lparr>shell_batch_mode := False\<rparr>)"
    using k2(2) by (simp add: fin_def print_prompt_def Let_def boot_log_def running_syscall_init)
  ultimately have "\<exists>k'. boot_services_up m others k = Done 0 k' \<and> running k' ?P t (netd_up (k_shell k)\<lparr>shell_batch_mode := False\<rparr>)" by blast
  then show ?thesis using t by blast
qed

text \<open>The states between the three stages of \<open>kernel_main\<close>.\<close>

lemma boot_stages:
  assumes "power_on k" "unat (ALIGN8 (m_kernel_end m)) + 0x100000 < 2 ^ 32"
  obtains f k2 bs k3 t where "kernel_boot m others k = Done 0 k3" "boot_services_up m others k2 = Done 0 k3"
    "heap_inv (k_mm k2) bs" "heap_span (k_mm k2) = (ALIGN8 (m_kernel_end m), ALIGN8 (m_kernel_end m) + HEAP_SIZE)"
    "k_vfs k2 = vfs_populate (vfs_init (k_vfs k))" "k_kbd k2 = k_kbd k" "k_progs k2 = k_progs k" "k_shell k2 = k_shell k"
    "k_sched k2 = tables_update f (k_sched k)" "cursor_ok (k_term k2)" "frequency (k_timer k2) = PIT_FREQ"
    "running k3 (shell_register_programs (programs_init (k_progs k))) t (netd_up (k_shell k)\<lparr>shell_batch_mode := False\<rparr>)"
    "\<forall>call. vfs_read call (Some ''/var/log/boot.log'') True 1024 t = (22, Some boot_text)"
    "\<forall>q. c_string q \<longrightarrow> vfs_view (k_vfs k2) q \<noteq> None \<longrightarrow> vfs_view t q = vfs_view (k_vfs k2) q"
    "sched_inv (proc_init (k_sched k2))"
proof -
  note p = assms(1) [unfolded power_on_def]
  obtain k1 f where k1: "boot_hardware m k = Some k1" "k_mm k1 = k_mm k" "k_vfs k1 = k_vfs k" "k_kbd k1 = k_kbd k"
    "k_progs k1 = k_progs k" "k_shell k1 = k_shell k" "k_sched k1 = tables_update f (k_sched k)" "cursor_ok (k_term k1)"
    "frequency (k_timer k1) = PIT_FREQ"
    by (rule boot_hardware_frame)
  obtain k2 bs where k2: "boot_memory m k1 = Some k2" "heap_inv (k_mm k2) bs" "k_vfs k2 = vfs_populate (vfs_init (k_vfs k1))" "k_kbd k2 = k_kbd k1"
    "k_progs k2 = k_progs k1" "k_shell k2 = k_shell k1" "k_sched k2 = k_sched k1" "cursor_ok (k_term k2)" "k_timer k2 = k_timer k1"
    "heap_span (k_mm k2) = (ALIGN8 (m_kernel_end m), ALIGN8 (m_kernel_end m) + HEAP_SIZE)"
    using boot_memory_frame [of k1 m] k1(2,8) assms(2) p by auto
  have sch: "sched_inv (proc_init (k_sched k2))" by (rule proc_init_inv) (use p k2(7) k1(7) in simp_all)
  moreover have "\<exists>bs. heap_inv (k_mm k2) bs" using k2(2) by (rule exI [of _ bs])
  ultimately obtain k3 t where k3: "boot_services_up m others k2 = Done 0 k3"
      "running k3 (shell_register_programs (programs_init (k_progs k))) t (netd_up (k_shell k)\<lparr>shell_batch_mode := False\<rparr>)"
    and t: "\<forall>call. vfs_read call (Some ''/var/log/boot.log'') True 1024 t = (22, Some boot_text)"
      "\<forall>q. c_string q \<longrightarrow> vfs_view (k_vfs k2) q \<noteq> None \<longrightarrow> vfs_view t q = vfs_view (k_vfs k2) q"
    using services_up [OF _ k2(8), of "k_vfs k" m others] p k1 k2(3-7) by auto
  have "kernel_boot m others k = Done 0 k3" using k1(1) k2(1) k3(1) by (simp add: kernel_boot_def ends_def)
  then show thesis using that k1 k2 k3 t sch by auto
qed

text \<open>
  C5: the kernel boots. From the static state, on a machine where the heap behind the kernel image fits the address
  space, \<open>kernel_main\<close> reaches its main loop with the invariants of all components established: every path of
  \<open>vfs_populate\<close> exists, the first 32 programs are found by the shell, the start script has been executed (the boot log
  holds its line and the network service is running) and batch mode is off.
\<close>

theorem boot_ready:
  assumes "power_on k" "unat (ALIGN8 (m_kernel_end m)) + 0x100000 < 2 ^ 32"
  shows "\<exists>k'. kernel_boot m others k = Done 0 k' \<and> kernel_inv k'
    \<and> (\<forall>p \<in> fst ` set populate_nodes. vfs_lookup (Some p) (k_vfs k') \<noteq> None)
    \<and> kernel_read m ''/var/log/boot.log'' 1024 k' = Some (22, Some ''boot sequence complete'')
    \<and> (\<forall>i<32. program_find (fst (shell_programs ! i)) (k_progs k') = Some i)
    \<and> map sv_running (services (k_shell k')) = [True, False, False, False] \<and> \<not> shell_batch_mode (k_shell k')"
proof -
  note p = assms(1) [unfolded power_on_def]
  obtain k2 :: kernel and k3 t where b: "kernel_boot m others k = Done 0 k3" "k_vfs k2 = vfs_populate (vfs_init (k_vfs k))"
    and k3: "running k3 (shell_register_programs (programs_init (k_progs k))) t (netd_up (k_shell k)\<lparr>shell_batch_mode := False\<rparr>)"
    and t: "\<forall>call. vfs_read call (Some ''/var/log/boot.log'') True 1024 t = (22, Some boot_text)"
      "\<forall>q. c_string q \<longrightarrow> vfs_view (k_vfs k2) q \<noteq> None \<longrightarrow> vfs_view t q = vfs_view (k_vfs k2) q"
    by (rule boot_stages [OF assms, of others]) (rule that)
  have inv: "kernel_inv k3" "k_progs k3 = shell_register_programs (programs_init (k_progs k))" "k_vfs k3 = t" "k_shell k3 = netd_up (k_shell k)\<lparr>shell_batch_mode := False\<rparr>"
    using k3 by (simp_all add: running_def)
  have look: "vfs_lookup (Some q) (k_vfs k3) \<noteq> None" if q: "q \<in> fst ` set populate_nodes" for q
  proof -
    have c: "c_string q" using q populate_paths(1) by (auto simp: path_ok_def)
    obtain kind where "map_of populate_nodes q = Some kind" using q by (metis map_of_eq_None_iff option.exhaust)
    then have "vfs_view (k_vfs k2) q \<noteq> None" using vfs_populate_view(4) [OF _ c, of "k_vfs k"] p b(2) by auto
    then have "vfs_view (k_vfs k3) q \<noteq> None" using t(2) c inv(3) by simp
    then show ?thesis by (simp add: vfs_view_def)
  qed
  have len: "length (prog_table (k_progs k)) = MAX_PROGRAMS" using p by (simp add: programs_inv_def)
  have "kernel_read m ''/var/log/boot.log'' 1024 k3 = Some (22, Some ''boot sequence complete'')"
    using kernel_read_inv [OF inv(1)] t(1) inv(3) by (simp add: boot_text_def)
  moreover have "map sv_running (services (k_shell k3)) = [True, False, False, False]" "\<not> shell_batch_mode (k_shell k3)"
    using inv(4) p by (simp_all add: netd_up_def boot_services_def)
  ultimately show ?thesis using b(1) inv(1,2) look shell_table(3) [OF len] by auto
qed

lemma blank_power_on: "power_on blank_kernel"
  using demo_kernel_inv
  by (simp add: power_on_def kernel_inv_def demo_kernel_def) (simp add: blank_kernel_def blank_mm_def blank_sched_def)

theorem boot_ready_witness:
  "\<exists>k'. kernel_boot demo_machine (\<lambda>k. k) blank_kernel = Done 0 k' \<and> kernel_inv k'"
  using boot_ready [OF blank_power_on, of demo_machine "\<lambda>k. k"] by (auto simp: demo_machine_def ALIGN8_def)

end
