(* ===== verification/Main_Loop.thy ===== *)
theory Main_Loop
  imports Boot_Props
begin

unbundle bit_operations_syntax

text \<open>
  The main loop of \<open>kernel_main\<close>: draining the keyboard ends, because no command touches the keyboard buffer, and each
  round keeps the kernel consistent.
\<close>

section \<open>Draining the keyboard\<close>

lemma getchar_cases:
  assumes "kb_ok b"
  obtains (empty) "kb_contents b = []" "keyboard_getchar b = (NUL, b)"
  | (char) c cs b' where "kb_contents b = c # cs" "c \<noteq> NUL" "keyboard_getchar b = (c, b')" "kb_contents b' = cs" "kb_ok b'"
proof (cases "kb_contents b")
  case Nil
  have "kb_head b = kb_tail b"
    using Nil length_kb_contents [OF assms] ring_len_empty [of "kb_head b" KB_BUF_SZ "kb_tail b"] assms by (simp add: kb_ok_def)
  then show ?thesis using empty Nil by (simp add: keyboard_getchar_def)
next
  case (Cons c cs)
  note h = kb_get_head [OF assms Cons]
  have c: "c \<noteq> NUL" using assms Cons by (auto simp: kb_ok_def)
  obtain x b' where g: "keyboard_getchar b = (x, b')" by fastforce
  then have "x = c" "b' = b\<lparr>kb_tail := (kb_tail b + 1) mod KB_BUF_SZ\<rparr>" using h(1) by (auto simp: kb_get_def split: if_splits)
  then show ?thesis using char [OF Cons c] g h(2,3) by simp
qed

lemma sys_inv_kbd: "sys_inv m k \<Longrightarrow> kb_ok b \<Longrightarrow> sys_inv m (k\<lparr>k_kbd := b\<rparr>)"
  by (auto simp: sys_inv_def layout_ok_def)

text \<open>Every character waiting in the buffer goes to the shell; the loop ends because no command fills the buffer.\<close>

lemma drain_input_ends:
  assumes "sys_inv m k"
  shows "\<exists>r. drain_input m others k = Some r \<and> sys_outcome m r \<and> (\<forall>v k'. r = Done v k' \<longrightarrow> kb_contents (k_kbd k') = [])
    \<and> (\<forall>v k'. r = Done v k' \<or> r = Stopped k' \<longrightarrow> k_sched k' = k_sched k \<and> heap_span (k_mm k') = heap_span (k_mm k) \<and> frequency (k_timer k') = frequency (k_timer k))"
  using assms
proof (induction "length (kb_contents (k_kbd k))" arbitrary: k)
  case 0
  have "kb_ok (k_kbd k)" using 0(2) kernel_invD(5) by (auto simp: sys_inv_def)
  then have "keyboard_getchar (k_kbd k) = (NUL, k_kbd k)" using 0(1) by (cases rule: getchar_cases) auto
  then have "drain_input m others k = Some (Done 0 k)" by (simp add: drain_input.simps [of m others k])
  then show ?case using 0 by (auto simp: sys_outcome_def)
next
  case (Suc n)
  have "kb_ok (k_kbd k)" using Suc.prems kernel_invD(5) by (auto simp: sys_inv_def)
  then obtain c cs b where c: "kb_contents (k_kbd k) = c # cs" "c \<noteq> NUL" "keyboard_getchar (k_kbd k) = (c, b)" "kb_contents b = cs" "kb_ok b"
    using Suc.hyps(2) by (cases rule: getchar_cases) auto
  let ?k = "k\<lparr>k_kbd := b\<rparr>"
  let ?r = "shell_input m others c ?k"
  have inv: "sys_inv m ?k" using sys_inv_kbd [OF Suc.prems c(5)] .
  note r = shell_input_sys [OF inv, of others c] shell_input_kept [OF inv, of others c]
  have d: "drain_input m others k = (case ?r of Done r k \<Rightarrow> drain_input m others k | x \<Rightarrow> Some x)"
    using c(2,3) by (simp add: drain_input.simps [of m others k] Let_def)
  show ?case
  proof (cases ?r)
    case (Done v k')
    have k': "k_kbd k' = b" "k_sched k' = k_sched k" "heap_span (k_mm k') = heap_span (k_mm k)"
      "frequency (k_timer k') = frequency (k_timer k)" using r(2) Done by (simp_all add: core_def)
    moreover have "n = length (kb_contents (k_kbd k'))" "sys_inv m k'" using r Done c(1,4) Suc.hyps(2) k' by (simp_all add: sys_outcome_def)
    ultimately show ?thesis using Suc.hyps(1) [of k'] d Done by auto
  next
    case (Stopped k')
    then show ?thesis using d r by (auto simp: core_def)
  qed (use r in \<open>simp add: sys_outcome_def\<close>)
qed

lemma main_step_result:
  assumes k: "sys_inv m k"
  obtains (stopped) k' where "main_step m others k = Stopped k'" "sys_inv m k'"
  | (returned) k1 where "main_step m others k = Done 0 (k_sched_update reap_zombies k1)" "sys_inv m k1" "kb_contents (k_kbd k1) = []"
      "k_sched k1 = k_sched k" "heap_span (k_mm k1) = heap_span (k_mm k)" "frequency (k_timer k1) = frequency (k_timer k)"
proof -
  obtain r where r: "drain_input m others k = Some r" "sys_outcome m r" "\<forall>v k'. r = Done v k' \<longrightarrow> kb_contents (k_kbd k') = []"
      "\<forall>v k'. r = Done v k' \<or> r = Stopped k' \<longrightarrow> k_sched k' = k_sched k \<and> heap_span (k_mm k') = heap_span (k_mm k) \<and> frequency (k_timer k') = frequency (k_timer k)"
    using drain_input_ends [OF k, of others] by blast
  show thesis
  proof (cases r)
    case (Done v k1)
    then show thesis using returned [of k1] r by (simp add: main_step_def ends_def sys_outcome_def)
  next
    case (Stopped k1)
    then show thesis using stopped [of k1] r by (simp add: main_step_def ends_def sys_outcome_def)
  qed (use r in \<open>simp add: sys_outcome_def\<close>)
qed

lemma reap_sys: "sys_inv m k \<Longrightarrow> sys_inv m (k_sched_update reap_zombies k)"
  using reap_fold_inv by (auto simp: sys_inv_def layout_ok_def kernel_inv_def reap_zombies_fold)


definition typing_kernel :: kernel where
  "typing_kernel = demo_kernel\<lparr>k_kbd := fold kb_put (''exec /bin/hello'' @ NL) (k_kbd demo_kernel)\<rparr>"

lemma typing_kernel_sys: "sys_inv demo_machine typing_kernel"
proof -
  have "kb_ok (k_kbd demo_kernel)" using kernel_invD(5) [OF demo_kernel_inv] .
  moreover have "kb_contents (k_kbd demo_kernel) = []" by (simp add: demo_kernel_def blank_kernel_def kb_contents_def ring_list_def ring_len_def)
  ultimately have "kb_ok (k_kbd typing_kernel)"
    using kbq.put_all_contents [of "k_kbd demo_kernel" "''exec /bin/hello'' @ NL"] by (simp add: typing_kernel_def)
  then show ?thesis using sys_inv_kbd [OF demo_kernel_sys] by (simp add: typing_kernel_def)
qed


end
