(* ===== verification/Machine_Run.thy ===== *)
theory Machine_Run
  imports Main_Loop
begin

unbundle bit_operations_syntax

text \<open>
  Runs of the whole machine: after the boot sequence the machine goes through rounds of the main loop, interrupts and
  system calls in any order. The invariants of all components hold in every state it reaches, the only process ever is
  the kernel's own, and no round and no interrupt gets stuck.
\<close>

section \<open>A process table with the kernel's process only\<close>

definition solo :: "sched \<Rightarrow> bool" where
  "solo s \<longleftrightarrow> sched_inv s \<and> current_proc s = Some 0 \<and> (\<forall>i. 0 < i \<and> i < PROC_MAX \<longrightarrow> slot_state s i = PROC_UNUSED)"

lemma solo_wf: "solo s \<Longrightarrow> sched_wf s 0 \<and> slot_state s 0 = PROC_RUNNING"
  by (auto simp: solo_def sched_inv_def sched_wf_def)

lemma solo_schedule: "solo s \<Longrightarrow> schedule s = s"
proof -
  assume s: "solo s"
  note wf = solo_wf [OF s]
  have "rr_next s 0 = None"
  proof (cases "rr_next s 0")
    case (Some n)
    have "n < PROC_MAX" "slot_state s n = PROC_READY" using rr_next_Some [OF Some] by (auto simp: PROC_MAX_def)
    then show ?thesis using s wf by (cases "n = 0") (auto simp: solo_def)
  qed
  then show ?thesis using schedule_idle wf by blast
qed

lemma solo_calls: "solo s \<Longrightarrow> proc_yield s = s" "solo s \<Longrightarrow> proc_exit c s = s"
  using solo_wf [of s] by (simp_all add: proc_yield_def solo_schedule proc_exit_def sched_wf_def)

lemma solo_reap: "solo s \<Longrightarrow> reap_zombies s = s"
proof -
  assume s: "solo s"
  have "fold reap_one xs s = s" if "set xs \<subseteq> {1..<PROC_MAX}" for xs
    using that
  proof (induction xs)
    case (Cons i xs)
    have "slot_state s i = PROC_UNUSED" using s Cons.prems by (auto simp: solo_def)
    then have "reap_one i s = s" by (simp add: reap_one_def slot_state_def)
    then show ?case using Cons by simp
  qed simp
  then show ?thesis by (simp add: reap_zombies_fold)
qed

lemma solo_tables: "solo s \<Longrightarrow> solo (tables_update f s)"
  using sched_inv_tables [of s f] by (simp add: solo_def slot_state_def)

lemma solo_init:
  assumes "sched_inv (proc_init s)"
  shows "solo (proc_init s)"
proof -
  have "length (procs s) = PROC_MAX" using assms by (auto simp: sched_inv_def sched_wf_def proc_init_def Let_def)
  then show ?thesis using assms by (auto simp: solo_def proc_init_def Let_def slot_state_def nth_list_update)
qed

section \<open>Interrupts\<close>

text \<open>What an interrupt leaves alone when the kernel's process is the only one.\<close>

definition calm :: "kernel \<Rightarrow> kernel \<Rightarrow> bool" where
  "calm k k' \<longleftrightarrow> k_progs k' = k_progs k \<and> heap_span (k_mm k') = heap_span (k_mm k) \<and> frequency (k_timer k') = frequency (k_timer k)
     \<and> (solo (k_sched k) \<longrightarrow> k_sched k' = k_sched k)"

lemma calm_refl [simp]: "calm k k"
  by (simp add: calm_def)

definition calm_result :: "kernel \<Rightarrow> (trapframe \<times> kernel) option \<Rightarrow> bool" where
  "calm_result k r \<longleftrightarrow> (case r of None \<Rightarrow> True | Some (tf, k') \<Rightarrow> calm k k')"

lemma calm_result_simps [simp]: "calm_result k None" "calm_result k (Some (tf, k')) = calm k k'"
  by (simp_all add: calm_result_def)

lemma calm_if: "(c \<Longrightarrow> calm_result k a) \<Longrightarrow> (\<not> c \<Longrightarrow> calm_result k b) \<Longrightarrow> calm_result k (if c then a else b)"
  by simp

lemma calm_updates:
  "calm k (k\<lparr>k_term := t\<rparr>)" "calm k (k\<lparr>k_vfs := v\<rparr>)" "heap_span s = heap_span (k_mm k) \<Longrightarrow> calm k (k\<lparr>k_mm := s\<rparr>)"
  "calm k (k\<lparr>k_sched := proc_yield (k_sched k)\<rparr>)" "calm k (k\<lparr>k_sched := proc_exit c (k_sched k)\<rparr>)"
  by (simp_all add: calm_def solo_calls)

lemma syscall_calm:
  assumes k: "kernel_inv k" and n: "tf_eax tf \<noteq> SYS_SLEEP"
  shows "calm_result k (syscall_handle others tf k)"
proof -
  obtain bs where bs: "heap_inv (k_mm k) bs" using kernel_invD(1) [OF k] by blast
  have w: "calm_result k (case do_write a b c k of None \<Rightarrow> None | Some (k, r) \<Rightarrow> ret r tf k)" for a b c
    by (auto simp: do_write_def calm_updates split: option.splits)
  have m: "calm_result k (case kmalloc a (k_mm k) of None \<Rightarrow> None | Some (s, p) \<Rightarrow> ret p tf (k\<lparr>k_mm := s\<rparr>))" for a
    using heap_calls_end(1) [OF bs, of a] by (auto simp: calm_updates)
  have f: "calm_result k (case kfree a (k_mm k) of None \<Rightarrow> None | Some (s, _) \<Rightarrow> ret 0 tf (k\<lparr>k_mm := s\<rparr>))" for a
    using heap_calls_end(2) [OF bs, of a] by (auto simp: calm_updates)
  have o: "calm_result k (case x of None \<Rightarrow> None | Some path \<Rightarrow> if vfs_lookup (Some path) (k_vfs k) \<noteq> None then ret 0 tf k else ret (-1) tf k)" for x
    by (cases x) auto
  have d: "calm_result k (case x of None \<Rightarrow> None
       | Some path \<Rightarrow> (case vfs_mkdir (Some path) (k_vfs k) of (v, r) \<Rightarrow> ret (word_of_int r) tf (k\<lparr>k_vfs := v\<rparr>)))" for x
    by (cases x) (simp_all add: calm_updates case_prod_unfold)
  have s: "P" if "tf_eax tf = SYS_SLEEP" for P using that n by simp
  show ?thesis
    unfolding syscall_handle_def syscall_rest_def Let_def
    by (intro calm_if w m f o d; (erule s | simp add: calm_updates))
qed

lemma dispatch_calm:
  assumes k: "kernel_inv k" and d: "interrupt_dispatch others c tf k = Some (Running tf' k')"
    and n: "\<not> (tf_int_no tf = 0x80 \<and> tf_eax tf = SYS_SLEEP)"
  shows "calm k k'"
proof -
  obtain t s where t: "timer_tick tf (k_timer k, k_sched k) = (t, s)" by fastforce
  then have ts: "frequency t = frequency (k_timer k)" "solo (k_sched k) \<Longrightarrow> s = k_sched k"
    by (auto simp: timer_tick_def Let_def solo_schedule split: if_splits)
  obtain b u where b: "keyboard_irq c (k_kbd k, k_term k) = (b, u)" by fastforce
  have fault: "calm k (user_fault tf k)" by (simp add: calm_def user_fault_frame solo_calls)
  consider "tf_int_no tf \<in> {0, 6, 13, 14}" | "tf_int_no tf = 32" | "tf_int_no tf = 33" | "tf_int_no tf = 0x80"
    | "tf_int_no tf \<notin> {0, 6, 13, 14, 32, 33, 0x80}" by blast
  then show ?thesis
  proof cases
    case 1
    then show ?thesis using d fault by (auto simp: interrupt_dispatch_def split: if_splits)
  next
    case 2
    then have "k' = k\<lparr>k_timer := t, k_sched := s\<rparr>" using d by (simp add: interrupt_dispatch_def t)
    then show ?thesis using ts by (simp add: calm_def)
  next
    case 3
    then have "k' = k_outb 0x20 0x20 (k\<lparr>k_kbd := b, k_term := u\<rparr>)" using d by (simp add: interrupt_dispatch_def b)
    then show ?thesis by (simp add: calm_def k_outb_def)
  next
    case 4
    have "tf_eax tf \<noteq> SYS_SLEEP" using 4 n by simp
    from syscall_calm [OF k this, of others] show ?thesis using d 4 by (auto simp: interrupt_dispatch_def split: option.splits)
  next
    case 5
    then show ?thesis using d by (auto simp: interrupt_dispatch_def Let_def split: if_splits)
  qed
qed

section \<open>Strings have an end\<close>

text \<open>The size field of the first block holds a zero byte, so that no string read from memory runs on for ever.\<close>

lemma load32_top: "load32 m a = v \<Longrightarrow> unat v < 2 ^ 24 \<Longrightarrow> m (a + 3) = 0"
proof -
  assume v: "load32 m a = v" "unat v < 2 ^ 24"
  have "unat (drop_bit 24 v) = 0" using v(2) by (simp add: drop_bit_eq_div unat_div)
  then have "drop_bit 24 v = 0" by (simp add: unat_eq_zero)
  then have "\<not> bit (drop_bit 24 v) n" for n by simp
  moreover have "bit (m (a + 3)) n = bit (drop_bit 24 v) n" if "n < 8" for n
    using that v(1) [symmetric] by (auto simp: load32_def bit_simps dest: bit_imp_le_length)
  ultimately have "\<not> bit (m (a + 3)) n" if "n < 8" for n using that by simp
  then show ?thesis by (intro bit_word_eqI) simp
qed

lemma heap_zero_byte:
  assumes inv: "heap_inv s bs" and sz: "unat (heap_end s) < unat (heap_start s) + 2 ^ 24"
  shows "\<exists>z. mem s z = 0"
proof -
  obtain n u cs where bs: "bs = (n, u) # cs" using heap_invD [OF inv] by (cases bs) auto
  have wf: "chain (mem s) (unat (heap_start s)) bs" "unat (heap_start s) + extent bs = unat (heap_end s)"
    using heap_invD(1) [OF inv] by (simp_all add: heap_wf_def)
  then have "load32 (mem s) (heap_start s) = word_of_nat n" by (simp add: bs read_header_def)
  moreover have "n < 2 ^ 24" using wf(2) sz by (simp add: bs)
  then have "unat (word_of_nat n :: u32) < 2 ^ 24" by (simp add: unat_of_nat)
  ultimately show ?thesis using load32_top by blast
qed

section \<open>Steps of the machine\<close>

text \<open>
  A step is a round of the main loop, an interrupt that returns, or one turn of the loop in which \<open>SYS_SLEEP\<close> waits. The
  parameter of the model that stands for what other processes do is arbitrary.
\<close>

inductive sys_step :: "machine \<Rightarrow> kernel \<Rightarrow> kernel \<Rightarrow> bool" for m where
  round: "main_step m others k = Done v k' \<Longrightarrow> sys_step m k k'"
| interrupt: "interrupt_dispatch others sc tf k = Some (Running tf' k') \<Longrightarrow> \<not> (tf_int_no tf = 0x80 \<and> tf_eax tf = SYS_SLEEP) \<Longrightarrow> sys_step m k k'"
| sleep_turn: "timer_seconds (k_timer k) < target \<Longrightarrow> sys_step m k (k\<lparr>k_sched := proc_yield (k_sched k)\<rparr>)"

inductive sys_reach :: "machine \<Rightarrow> kernel \<Rightarrow> bool" for m where
  boot: "power_on k0 \<Longrightarrow> kernel_boot m others k0 = Done v k \<Longrightarrow> sys_reach m k"
| step: "sys_reach m k \<Longrightarrow> sys_step m k k' \<Longrightarrow> sys_reach m k'"

text \<open>The image as the linker lays it out: its end leaves room for the heap, everything else lies below its end.\<close>

definition linked :: "machine \<Rightarrow> bool" where
  "linked m \<longleftrightarrow> unat (ALIGN8 (m_kernel_end m)) + 0x100000 < 2 ^ 32 \<and> unat (m_exec_buf m) + 4096 \<le> unat (ALIGN8 (m_kernel_end m))
     \<and> m_user_hello m < USER_SPACE_START \<and> m_user_loop m < USER_SPACE_START \<and> m_user_crash m < USER_SPACE_START"

text \<open>What holds in every state the machine reaches.\<close>

definition machine_inv :: "machine \<Rightarrow> kernel \<Rightarrow> bool" where
  "machine_inv m k \<longleftrightarrow> sys_inv m k \<and> solo (k_sched k) \<and> frequency (k_timer k) = PIT_FREQ
     \<and> heap_span (k_mm k) = (ALIGN8 (m_kernel_end m), ALIGN8 (m_kernel_end m) + HEAP_SIZE)"

lemma machine_inv_calm:
  assumes "machine_inv m k" "calm k k'" "kernel_inv k'"
  shows "machine_inv m k'"
  using assms by (auto simp: machine_inv_def sys_inv_def calm_def layout_ok_def heap_span_def)

lemma machine_zero:
  assumes m: "linked m" and k: "machine_inv m k"
  shows "\<exists>z. mem (k_mm k) z = 0"
proof -
  obtain bs where bs: "heap_inv (k_mm k) bs" using k kernel_invD(1) by (auto simp: machine_inv_def sys_inv_def)
  have "unat (heap_end (k_mm k)) = unat (heap_start (k_mm k)) + 0x100000"
    using k m unat_plus_no_wrap [of "ALIGN8 (m_kernel_end m)" HEAP_SIZE] by (simp add: machine_inv_def heap_span_def linked_def HEAP_SIZE_def)
  then show ?thesis using heap_zero_byte [OF bs] by simp
qed

lemma sys_step_inv:
  assumes m: "linked m" and k: "machine_inv m k" and s: "sys_step m k k'"
  shows "machine_inv m k'"
  using s
proof cases
  case (round others v)
  have sys: "sys_inv m k" using k by (simp add: machine_inv_def)
  then show ?thesis
  proof (cases rule: main_step_result [where others = others])
    case (returned k1)
    have "k_sched k1 = k_sched k" "solo (k_sched k)" using returned k by (simp_all add: machine_inv_def)
    then have "k_sched_update reap_zombies k1 = k1" using solo_reap by (intro kernel.equality) simp_all
    then have "k' = k1" using round returned(1) by simp
    then show ?thesis using returned k by (simp add: machine_inv_def)
  qed (use round in simp)
next
  case (interrupt others sc tf tf')
  obtain z where z: "mem (k_mm k) z = 0" using machine_zero [OF m k] by blast
  have inv: "kernel_inv k" using k by (simp add: machine_inv_def sys_inv_def)
  have "\<not> (tf_int_no tf \<in> {0, 6, 13, 14} \<and> (tf_cs tf AND 3) \<noteq> 3)" using interrupt(1) by (auto simp: interrupt_dispatch_def)
  from dispatch_returns [OF inv z _ this, of others sc] have "kernel_inv k'" using interrupt by auto
  then show ?thesis using machine_inv_calm [OF k dispatch_calm [OF inv interrupt]] by blast
next
  case (sleep_turn target)
  have "k' = k" using sleep_turn k by (simp add: machine_inv_def solo_calls)
  then show ?thesis using k by simp
qed

section \<open>After boot\<close>

lemma script_loop_sys:
  "sys_inv m k \<Longrightarrow> sys_outcome m (script_loop m others is st script k) \<and> kept (core k) (script_loop m others is st script k)"
proof (induction "is" arbitrary: st script k)
  case (Cons i "is")
  let ?c = "execute_command m others (drop st (script[i := NUL])) k"
  note r = execute_command_result [OF Cons.prems, of others "drop st (script[i := NUL])"]
    execute_command_kept [OF Cons.prems, of others "drop st (script[i := NUL])"]
  show ?case
  proof (cases "snd ?c")
    case (Done v k')
    then have "sys_inv m k'" "core k' = core k" using r sys_inv_core [of k' k m] Cons.prems by simp_all
    then have "sys_outcome m (script_loop m others is i' scr k') \<and> kept (core k) (script_loop m others is i' scr k')" for i' scr
      using Cons.IH [of k'] by simp
    then show ?thesis using Done Cons by (simp add: Let_def case_prod_unfold)
  next
    case (Stopped k')
    then have "sys_inv m k'" "core k' = core k" using r sys_inv_core [of k' k m] Cons.prems by simp_all
    then show ?thesis using Stopped Cons by (auto simp: Let_def case_prod_unfold sys_outcome_def)
  qed (use r in simp)
qed (auto simp: sys_outcome_def)

lemma run_script_kept:
  assumes "sys_inv m k" "shell_run_script m others path k = Done v k'"
  shows "core k' = core k"
proof -
  have b: "sys_inv m (k_shell_update (shell_batch_mode_update f) k)" for f
    using assms(1) kernel_inv_shell(2) by (auto simp: sys_inv_def layout_ok_def)
  show ?thesis
    using assms(2) script_loop_sys [OF b]
    by (auto simp: shell_run_script_def ends_def Let_def split: option.splits if_splits outcome.splits)
      (metis kept_simps(1))
qed

lemma shell_table_ok:
  assumes "length (prog_table s) = MAX_PROGRAMS"
  shows "table_ok (shell_register_programs (programs_init s))"
proof -
  note t = shell_table [OF assms]
  have "snd (snd (shell_programs ! i)) \<noteq> Prog_reboot" if "i < 32" for i
  proof -
    have "\<forall>i\<in>set [0..<32]. snd (snd (shell_programs ! i)) \<noteq> Prog_reboot" by code_simp
    then show ?thesis using that by simp
  qed
  moreover have "i < 32" if "program_find nm (shell_register_programs (programs_init s)) = Some i" for nm i
    using that t(2) by (auto simp: program_find_def find_upt_Some)
  ultimately show ?thesis using t(4) by (auto simp: table_ok_def)
qed

lemma boot_machine_inv:
  assumes m: "linked m" and p: "power_on k" and b: "kernel_boot m others k = Done v k'"
  shows "machine_inv m k'"
proof -
  have fit: "unat (ALIGN8 (m_kernel_end m)) + 0x100000 < 2 ^ 32" using m by (simp add: linked_def)
  let ?P = "shell_register_programs (programs_init (k_progs k))"
  obtain f k2 bs k3 t where s: "kernel_boot m others k = Done 0 k3" "boot_services_up m others k2 = Done 0 k3"
    "heap_inv (k_mm k2) bs" "heap_span (k_mm k2) = (ALIGN8 (m_kernel_end m), ALIGN8 (m_kernel_end m) + HEAP_SIZE)"
    "k_vfs k2 = vfs_populate (vfs_init (k_vfs k))" "k_kbd k2 = k_kbd k" "k_progs k2 = k_progs k" "k_shell k2 = k_shell k"
    "k_sched k2 = tables_update f (k_sched k)" "cursor_ok (k_term k2)" "frequency (k_timer k2) = PIT_FREQ"
    "running k3 ?P t (netd_up (k_shell k)\<lparr>shell_batch_mode := False\<rparr>)" "sched_inv (proc_init (k_sched k2))"
    by (rule boot_stages [OF p fit, of others])
  have len: "length (prog_table (k_progs k)) = MAX_PROGRAMS" using p by (simp add: power_on_def programs_inv_def)
  define k1 where "k1 = k_progs_update shell_register_programs (k_progs_update programs_init
    (boot_log ''Process: scheduler initialized'' (k_sched_update proc_init k2)))"
  have k1: "k_sched k1 = proc_init (k_sched k2)" "k_progs k1 = ?P" "k_mm k1 = k_mm k2" "k_timer k1 = k_timer k2"
    by (simp_all add: k1_def s(7))
  have "kernel_inv k1"
    using s(3,5,6,8,10,13) p vfs_populate_view(1) [of "k_vfs k"] shell_table(1) [OF len]
    by (auto simp: kernel_inv_def power_on_def k1_def s(7))
  moreover have "layout_ok m k1" using m s(4) by (simp add: layout_ok_def linked_def k1(3) heap_span_def)
  ultimately have sys: "sys_inv m k1" using shell_table_ok [OF len] by (simp add: sys_inv_def k1(2))
  note up = s(2) [unfolded boot_services_up_def Let_def, folded k1_def]
  obtain v x where x: "shell_run_script m others ''/etc/init.rc'' k1 = Done v x"
    using up by (cases "shell_run_script m others ''/etc/init.rc'' k1") simp_all
  have c: "core x = core k1" using run_script_kept [OF sys x] .
  have k3: "k_mm k3 = k_mm x" "k_timer k3 = k_timer x" "\<exists>g. k_sched k3 = tables_update g (k_sched x)"
    using up x by (auto simp: print_prompt_def Let_def syscall_init_def)
  then have "heap_span (k_mm k3) = heap_span (k_mm k2)" "frequency (k_timer k3) = PIT_FREQ" "solo (k_sched k3)"
    using c s(11) k1 solo_init [OF s(13)] solo_tables by (auto simp: core_def)
  moreover have "kernel_inv k3" "k_progs k3 = ?P" using s(12) by (simp_all add: running_def)
  moreover have "k' = k3" using b s(1) by simp
  ultimately show ?thesis using m s(4) shell_table_ok [OF len] by (simp add: machine_inv_def sys_inv_def layout_ok_def linked_def heap_span_def)
qed

lemma sys_reach_inv: "sys_reach m k \<Longrightarrow> linked m \<Longrightarrow> machine_inv m k"
  by (induction rule: sys_reach.induct) (auto intro: boot_machine_inv sys_step_inv)

text \<open>
  C1: the running machine is safe. In every state it reaches from power-on, by rounds of the main loop, interrupts, system
  calls and turns of sleeping calls in any order and with any input, the invariants of all components hold, the kernel's
  own process runs and is the only one, the divisor of the clock is not zero, the next round of the main loop ends, and
  every interrupt returns, except a fault in kernel mode and the waiting sleep call.
\<close>

theorem machine_runs_safe:
  assumes "linked m" "sys_reach m k"
  shows "sys_inv m k \<and> current_proc (k_sched k) = Some 0 \<and> (\<forall>i. 0 < i \<and> i < PROC_MAX \<longrightarrow> slot_state (k_sched k) i = PROC_UNUSED)
    \<and> frequency (k_timer k) \<noteq> 0 \<and> (\<exists>k'. main_step m others k \<in> {Done 0 k', Stopped k'} \<and> sys_inv m k')
    \<and> (\<forall>sc tf. \<not> (tf_int_no tf = 0x80 \<and> tf_eax tf = SYS_SLEEP) \<longrightarrow> \<not> (tf_int_no tf \<in> {0, 6, 13, 14} \<and> (tf_cs tf AND 3) \<noteq> 3) \<longrightarrow>
        (\<exists>tf' k'. interrupt_dispatch others sc tf k = Some (Running tf' k') \<and> kernel_inv k'))"
proof -
  have inv: "machine_inv m k" using sys_reach_inv [OF assms(2,1)] .
  then have sys: "sys_inv m k" "kernel_inv k" by (simp_all add: machine_inv_def sys_inv_def)
  obtain z where z: "mem (k_mm k) z = 0" using machine_zero [OF assms(1) inv] by blast
  have "\<exists>k'. main_step m others k \<in> {Done 0 k', Stopped k'} \<and> sys_inv m k'"
    using main_step_result [OF sys(1), of others] reap_sys by blast
  moreover have "\<exists>tf' k'. interrupt_dispatch others sc tf k = Some (Running tf' k') \<and> kernel_inv k'"
    if "\<not> (tf_int_no tf = 0x80 \<and> tf_eax tf = SYS_SLEEP)" "\<not> (tf_int_no tf \<in> {0, 6, 13, 14} \<and> (tf_cs tf AND 3) \<noteq> 3)" for sc tf
    using dispatch_returns [OF sys(2) z _ that(2), of others sc] that(1) by blast
  ultimately show ?thesis using inv by (simp add: machine_inv_def solo_def PIT_FREQ_def)
qed

lemma demo_linked: "linked demo_machine"
  by (simp add: linked_def demo_machine_def ALIGN8_def USER_SPACE_START_def)

theorem machine_runs_safe_witness:
  "\<exists>k. sys_reach demo_machine k \<and> sys_inv demo_machine k \<and> current_proc (k_sched k) = Some 0"
proof -
  have fit: "unat (ALIGN8 (m_kernel_end demo_machine)) + 0x100000 < 2 ^ 32" using demo_linked by (simp add: linked_def)
  obtain k where "kernel_boot demo_machine (\<lambda>k. k) blank_kernel = Done 0 k"
    by (rule boot_stages [OF blank_power_on fit, of "\<lambda>k. k"])
  then have "sys_reach demo_machine k" using sys_reach.boot [OF blank_power_on] by blast
  then show ?thesis using machine_runs_safe [OF demo_linked, of k] by blast
qed

end
