(* ===== verification/Stubs.thy ===== *)
theory Stubs
  imports Interrupt
begin

unbundle bit_operations_syntax

text \<open>
  The interrupt stubs of \<^verbatim>\<open>src/src/boot/boot.S\<close> as instruction lists on a register file and memory: what the processor
  pushes when it takes an interrupt, the stub and \<open>int_common\<close> build the \<open>struct trapframe\<close> that the C handler gets, and
  the pops behind the call and in \<open>trapret\<close> load the processor from it.
\<close>

section \<open>The processor\<close>

record cpu =
  c_eax :: u32
  c_ecx :: u32
  c_edx :: u32
  c_ebx :: u32
  c_esp :: u32
  c_ebp :: u32
  c_esi :: u32
  c_edi :: u32
  c_ds :: u16
  c_es :: u16
  c_fs :: u16
  c_gs :: u16
  c_ss :: u16
  c_cs :: u16
  c_eip :: u32
  c_eflags :: u32
  c_mem :: memory

definition push :: "u32 \<Rightarrow> cpu \<Rightarrow> cpu" where
  "push v c = c\<lparr>c_esp := c_esp c - 4, c_mem := store32 (c_mem c) (c_esp c - 4) v\<rparr>"

definition pops :: "nat \<Rightarrow> cpu \<Rightarrow> u32 list" where
  "pops n c = map (\<lambda>i. load32 (c_mem c) (c_esp c + word_of_nat (4 * i))) [0..<n]"

datatype instr = PushImm u32 | Pusha | PushDs | PushEs | PushFs | PushGs | KernelSegments | PushEsp | CallDispatch u32
  | AddEsp u32 | PopGs | PopFs | PopEs | PopDs | Popa | Iret

text \<open>
  A C function that is called with one pointer on the stack: the memory it leaves when it returns, and the registers a callee may
  overwrite, which are then \<open>eax\<close>, \<open>ecx\<close> and \<open>edx\<close>. The stack pointer and the other registers are the caller's again. A
  function that does not return to its caller, because it switched to another stack or stopped the machine, gives \<open>None\<close>.
\<close>

type_synonym c_function = "u32 \<Rightarrow> memory \<Rightarrow> (memory \<times> u32 \<times> u32 \<times> u32) option"

definition pusha :: "cpu \<Rightarrow> cpu" where
  "pusha c = fold push [c_eax c, c_ecx c, c_edx c, c_ebx c, c_esp c, c_ebp c, c_esi c, c_edi c] c"

definition popa :: "cpu \<Rightarrow> cpu" where
  "popa c = (let w = pops 8 c in c\<lparr>c_edi := w ! 0, c_esi := w ! 1, c_ebp := w ! 2, c_ebx := w ! 4, c_edx := w ! 5, c_ecx := w ! 6,
     c_eax := w ! 7, c_esp := c_esp c + 32\<rparr>)"

text \<open>A return to an outer privilege level also pops the stack pointer and the stack segment.\<close>

definition iret :: "cpu \<Rightarrow> cpu" where
  "iret c = (let w = pops 5 c; outer = (ucast (w ! 1) AND 3 > c_cs c AND 3);
       c = c\<lparr>c_eip := w ! 0, c_cs := ucast (w ! 1), c_eflags := w ! 2\<rparr>
     in if outer then c\<lparr>c_esp := w ! 3, c_ss := ucast (w ! 4)\<rparr> else c\<lparr>c_esp := c_esp c + 12\<rparr>)"

text \<open>
  A call pushes the address behind it, its operand here; the return of the callee goes where the word at that place of the stack
  says, and what happens when that is not behind the call any more is not described.
\<close>

definition call_c :: "c_function \<Rightarrow> u32 \<Rightarrow> cpu \<Rightarrow> cpu option" where
  "call_c h ra c = (let arg = load32 (c_mem c) (c_esp c); p = push ra c in
     case h arg (c_mem p) of None \<Rightarrow> None
     | Some (m, a, x, d) \<Rightarrow> if load32 m (c_esp p) = ra then Some (c\<lparr>c_mem := m, c_eax := a, c_ecx := x, c_edx := d\<rparr>) else None)"

fun exec_instr :: "c_function \<Rightarrow> instr \<Rightarrow> cpu \<Rightarrow> cpu option" where
  "exec_instr h (PushImm v) c = Some (push v c)"
| "exec_instr h Pusha c = Some (pusha c)"
| "exec_instr h PushDs c = Some (push (ucast (c_ds c)) c)"
| "exec_instr h PushEs c = Some (push (ucast (c_es c)) c)"
| "exec_instr h PushFs c = Some (push (ucast (c_fs c)) c)"
| "exec_instr h PushGs c = Some (push (ucast (c_gs c)) c)"
| "exec_instr h KernelSegments c = Some (c\<lparr>c_eax := (c_eax c AND 0xFFFF0000) OR 0x10, c_ds := 0x10, c_es := 0x10, c_fs := 0x10, c_gs := 0x10\<rparr>)"
| "exec_instr h PushEsp c = Some (push (c_esp c) c)"
| "exec_instr h (CallDispatch ra) c = call_c h ra c"
| "exec_instr h (AddEsp n) c = Some (c\<lparr>c_esp := c_esp c + n\<rparr>)"
| "exec_instr h PopGs c = Some (c\<lparr>c_gs := ucast (load32 (c_mem c) (c_esp c)), c_esp := c_esp c + 4\<rparr>)"
| "exec_instr h PopFs c = Some (c\<lparr>c_fs := ucast (load32 (c_mem c) (c_esp c)), c_esp := c_esp c + 4\<rparr>)"
| "exec_instr h PopEs c = Some (c\<lparr>c_es := ucast (load32 (c_mem c) (c_esp c)), c_esp := c_esp c + 4\<rparr>)"
| "exec_instr h PopDs c = Some (c\<lparr>c_ds := ucast (load32 (c_mem c) (c_esp c)), c_esp := c_esp c + 4\<rparr>)"
| "exec_instr h Popa c = Some (popa c)"
| "exec_instr h Iret c = Some (iret c)"

primrec run_code :: "c_function \<Rightarrow> instr list \<Rightarrow> cpu \<Rightarrow> cpu option" where
  "run_code h [] c = Some c"
| "run_code h (i # is) c = Option.bind (exec_instr h i c) (run_code h is)"

lemma run_code_append: "run_code h (xs @ ys) c = Option.bind (run_code h xs c) (run_code h ys)"
  by (induction xs arbitrary: c) (auto simp: Option.bind_eq_Some_conv intro!: option.expand split: bind_splits)

text \<open>
  What the processor does when it takes the interrupt \<open>n\<close> (Intel SDM, volume 3): from user mode it switches to the stack
  in the task state segment and saves the old one, then it saves the flags and the place of interruption, and for
  some exceptions an error code, and goes where the gate says with interrupts disabled.
\<close>

definition take_interrupt :: "cpu_tables \<Rightarrow> u8 \<Rightarrow> u32 option \<Rightarrow> cpu \<Rightarrow> cpu" where
  "take_interrupt t n err c =
     (let g = idt t ! unat n;
          place = [c_eflags c, ucast (c_cs c), c_eip c] @ (case err of Some e \<Rightarrow> [e] | None \<Rightarrow> []);
          c = (if (c_cs c AND 3) = 3 then fold push ([ucast (c_ss c), c_esp c] @ place) (c\<lparr>c_esp := esp0 (tss t), c_ss := ucast (ss0 (tss t))\<rparr>)
               else fold push place c)
      in c\<lparr>c_cs := ie_sel g, c_eip := gate_offset g, c_eflags := c_eflags c AND NOT 0x200\<rparr>)"

section \<open>Entry (boot.S)\<close>

text \<open>The header that the boot loader looks for, and the stack that \<open>_start\<close> sets up before it calls \<open>kernel_main\<close>.\<close>

definition MULTIBOOT_ALIGN :: u32 where "MULTIBOOT_ALIGN = push_bit 0 1"
definition MULTIBOOT_MEMINFO :: u32 where "MULTIBOOT_MEMINFO = push_bit 1 1"
definition MULTIBOOT_FLAGS :: u32 where "MULTIBOOT_FLAGS = MULTIBOOT_ALIGN OR MULTIBOOT_MEMINFO"
definition MULTIBOOT_MAGIC :: u32 where "MULTIBOOT_MAGIC = 0x1BADB002"
definition MULTIBOOT_CHECKSUM :: u32 where "MULTIBOOT_CHECKSUM = - (MULTIBOOT_MAGIC + MULTIBOOT_FLAGS)"

definition multiboot_header :: "u32 list" where
  "multiboot_header = [MULTIBOOT_MAGIC, MULTIBOOT_FLAGS, MULTIBOOT_CHECKSUM]"

definition start_stack :: "u32 \<Rightarrow> cpu \<Rightarrow> cpu" where
  "start_stack stk c = (let c = c\<lparr>c_esp := stk\<rparr> in c\<lparr>c_esp := c_esp c AND - 16\<rparr>)"

text \<open>A valid header sums to zero; the stack pointer is a multiple of 16 and at most 15 bytes below the top.\<close>

lemma multiboot_sum: "sum_list multiboot_header = 0"
  by (simp add: multiboot_header_def MULTIBOOT_CHECKSUM_def)

lemma start_stack_aligned:
  "unat (c_esp (start_stack stk c)) = 16 * (unat stk div 16)"
proof -
  have m: "(- 16 :: u32) = NOT (mask 4)" by (simp add: not_eq_complement mask_eq_exp_minus_1)
  have "stk AND - 16 = push_bit 4 (drop_bit 4 stk)"
    unfolding m by (rule bit_word_eqI) (auto simp: bit_simps)
  then have "unat (stk AND - 16) = unat (push_bit 4 (drop_bit 4 stk))" by simp
  also have "\<dots> = 16 * (unat stk div 16)"
  proof -
    have d: "unat (drop_bit 4 stk) = unat stk div 16" by (simp add: drop_bit_eq_div unat_div)
    have "push_bit 4 (drop_bit 4 stk) = word_of_nat (16 * (unat stk div 16))"
      unfolding d [symmetric] by (simp add: push_bit_eq_mult)
    moreover have "16 * (unat stk div 16) < 2 ^ 32" using u32_bound [of stk] by (simp add: mult.commute)
    ultimately show ?thesis using unat_of_nat_u32 by (simp only:)
  qed
  finally show ?thesis by (simp add: start_stack_def)
qed

section \<open>The stubs (boot.S)\<close>

definition trapret :: "instr list" where
  "trapret = [PopGs, PopFs, PopEs, PopDs, Popa, AddEsp 8, Iret]"

text \<open>\<open>ra\<close> is the address of the instruction behind the call, which the linker decides.\<close>

definition int_common :: "u32 \<Rightarrow> instr list" where
  "int_common ra = [Pusha, PushDs, PushEs, PushFs, PushGs, KernelSegments, PushEsp, CallDispatch ra, AddEsp 4,
     PopGs, PopFs, PopEs, PopDs, Popa, AddEsp 8, Iret]"

definition isr0 :: "u32 \<Rightarrow> instr list" where "isr0 ra = [PushImm 0, PushImm 0] @ int_common ra"
definition isr6 :: "u32 \<Rightarrow> instr list" where "isr6 ra = [PushImm 0, PushImm 6] @ int_common ra"
definition isr13 :: "u32 \<Rightarrow> instr list" where "isr13 ra = [PushImm 13] @ int_common ra"
definition isr14 :: "u32 \<Rightarrow> instr list" where "isr14 ra = [PushImm 14] @ int_common ra"
definition timer_handler_asm :: "u32 \<Rightarrow> instr list" where "timer_handler_asm ra = [PushImm 0, PushImm 32] @ int_common ra"
definition keyboard_handler_asm :: "u32 \<Rightarrow> instr list" where "keyboard_handler_asm ra = [PushImm 0, PushImm 33] @ int_common ra"
definition syscall_handler_asm :: "u32 \<Rightarrow> instr list" where "syscall_handler_asm ra = [PushImm 0, PushImm 0x80] @ int_common ra"

text \<open>The stub behind the gate of each vector, and the vectors for which the processor pushes an error code.\<close>

definition stub :: "u32 \<Rightarrow> u8 \<Rightarrow> instr list" where
  "stub ra n = (if n = 0 then isr0 ra else if n = 6 then isr6 ra else if n = 13 then isr13 ra else if n = 14 then isr14 ra
     else if n = 32 then timer_handler_asm ra else if n = 33 then keyboard_handler_asm ra else syscall_handler_asm ra)"

abbreviation vectors :: "u8 set" where "vectors \<equiv> {0, 6, 13, 14, 32, 33, 0x80}"

definition error_code :: "u8 \<Rightarrow> u32 \<Rightarrow> u32 option" where
  "error_code n e = (if n = 13 \<or> n = 14 then Some e else None)"

definition deliver :: "c_function \<Rightarrow> u32 \<Rightarrow> cpu_tables \<Rightarrow> u8 \<Rightarrow> u32 \<Rightarrow> cpu \<Rightarrow> cpu option" where
  "deliver h ra t n e c = run_code h (stub ra n) (take_interrupt t n (error_code n e) c)"

section \<open>Pushing\<close>

lemma store_words_cong: "m x = m' x \<Longrightarrow> store_words a ws m x = store_words a ws m' x"
proof (induction ws arbitrary: a m m')
  case (Cons w ws)
  have "store32 m a w x = store32 m' a w x" unfolding store32_def fun_upd_apply Cons.prems by (rule refl)
  then show ?case unfolding store_words.simps by (rule Cons.IH)
qed simp

lemma store_words_below:
  assumes "4 \<le> unat a" "unat a + 4 * length ws < 2 ^ 32"
  shows "store32 (store_words a ws m) (a - 4) v = store_words a ws (store32 m (a - 4) v)"
proof
  fix x
  have a4: "unat (a - 4) = unat a - 4" using assms(1) by (simp add: unat_sub word_le_nat_alt)
  show "store32 (store_words a ws m) (a - 4) v x = store_words a ws (store32 m (a - 4) v) x"
  proof (cases "unat a - 4 \<le> unat x \<and> unat x < unat a")
    case True
    then have "store_words a ws (store32 m (a - 4) v) x = store32 m (a - 4) v x"
      by (intro store_words_outside) (use assms in auto)
    moreover have "store32 (store_words a ws m) (a - 4) v x = store32 m (a - 4) v x"
    proof -
      have "x = a - 4 \<or> x = a - 4 + 1 \<or> x = a - 4 + 2 \<or> x = a - 4 + 3"
        using True unat_plus_small [of "a - 4"] a4 assms by (auto simp: word_unat_eq_iff)
      then show ?thesis by (auto simp: store32_def)
    qed
    ultimately show ?thesis by simp
  next
    case False
    then have "store32 m' (a - 4) v x = m' x" for m'
      by (intro store32_outside) (use a4 assms in auto)
    then show ?thesis using store_words_cong [of "store32 m (a - 4) v" x m a ws] by simp
  qed
qed

lemma pushes:
  "4 * length vs \<le> unat (c_esp c) \<Longrightarrow> fold push vs c = c\<lparr>c_esp := c_esp c - word_of_nat (4 * length vs),
     c_mem := store_words (c_esp c - word_of_nat (4 * length vs)) (rev vs) (c_mem c)\<rparr>"
proof (induction vs rule: rev_induct)
  case (snoc v vs)
  define a where "a = c_esp c - word_of_nat (4 * length vs)"
  have "unat (word_of_nat (4 * length vs) :: u32) = 4 * length vs"
    using snoc.prems u32_bound [of "c_esp c"] by (intro unat_of_nat_u32) simp
  then have ua: "unat a = unat (c_esp c) - 4 * length vs" using snoc.prems by (simp add: a_def unat_sub word_le_nat_alt)
  have st: "store32 (store_words a (rev vs) m) (a - 4) v = store_words (a - 4) (v # rev vs) m" for m
    using store_words_below [of a "rev vs" m v] ua snoc.prems u32_bound [of "c_esp c"] by simp
  have "fold push (vs @ [v]) c = push v (c\<lparr>c_esp := a, c_mem := store_words a (rev vs) (c_mem c)\<rparr>)"
    using snoc by (simp add: a_def)
  also have "\<dots> = c\<lparr>c_esp := a - 4, c_mem := store_words (a - 4) (v # rev vs) (c_mem c)\<rparr>" by (simp add: push_def st del: store_words.simps)
  also have "a - 4 = c_esp c - word_of_nat (4 * length (vs @ [v]))" by (simp add: a_def algebra_simps)
  finally show ?case by (simp only: rev_append rev.simps append.simps)
qed simp

section \<open>Entry\<close>

text \<open>The frame of an interrupted processor; \<open>sp\<close> is its address, at which the general registers were pushed 32 bytes up.\<close>

definition frame_of :: "u8 \<Rightarrow> u32 \<Rightarrow> u32 \<Rightarrow> u32 \<Rightarrow> u32 \<Rightarrow> cpu \<Rightarrow> trapframe" where
  "frame_of n e sp usp uss c = \<lparr>tf_gs = ucast (c_gs c), tf_fs = ucast (c_fs c), tf_es = ucast (c_es c), tf_ds = ucast (c_ds c),
     tf_edi = c_edi c, tf_esi = c_esi c, tf_ebp = c_ebp c, tf_esp = sp + 48, tf_ebx = c_ebx c, tf_edx = c_edx c, tf_ecx = c_ecx c,
     tf_eax = c_eax c, tf_int_no = ucast n, tf_err_code = (if n = 13 \<or> n = 14 then e else 0), tf_eip = c_eip c,
     tf_cs = ucast (c_cs c), tf_eflags = c_eflags c, tf_user_esp = usp, tf_user_ss = uss\<rparr>"

text \<open>The stub up to the call.\<close>

definition stub_entry :: "u8 \<Rightarrow> instr list" where
  "stub_entry n = (if n = 13 \<or> n = 14 then [] else [PushImm 0]) @ [PushImm (ucast n), Pusha, PushDs, PushEs, PushFs, PushGs]"

lemma stub_parts: "n \<in> vectors \<Longrightarrow> stub ra n = stub_entry n @ [KernelSegments, PushEsp, CallDispatch ra, AddEsp 4] @ trapret"
  by (auto simp: stub_def stub_entry_def isr0_def isr6_def isr13_def isr14_def timer_handler_asm_def keyboard_handler_asm_def
      syscall_handler_asm_def int_common_def trapret_def)

lemma push_frame [simp]: "c_eax (fold push vs c) = c_eax c" "c_ecx (fold push vs c) = c_ecx c" "c_edx (fold push vs c) = c_edx c"
  "c_ebx (fold push vs c) = c_ebx c" "c_ebp (fold push vs c) = c_ebp c" "c_esi (fold push vs c) = c_esi c" "c_edi (fold push vs c) = c_edi c"
  "c_ds (fold push vs c) = c_ds c" "c_es (fold push vs c) = c_es c" "c_fs (fold push vs c) = c_fs c" "c_gs (fold push vs c) = c_gs c"
  "c_cs (fold push vs c) = c_cs c" "c_ss (fold push vs c) = c_ss c" "c_eip (fold push vs c) = c_eip c" "c_eflags (fold push vs c) = c_eflags c"
  by (induction vs arbitrary: c) (simp_all add: push_def)

lemma push_esp: "c_esp (fold push vs c) = c_esp c - word_of_nat (4 * length vs)"
proof (induction vs arbitrary: c)
  case (Cons v vs)
  show ?case unfolding fold_simps comp_apply Cons.IH by (simp add: push_def algebra_simps)
qed simp

lemma push_flags [simp]: "c_eflags (push v c) = c_eflags c"
  by (simp add: push_def)

lemma push_update: "fold push vs (c\<lparr>c_cs := a, c_eip := b, c_eflags := f\<rparr>) = (fold push vs c)\<lparr>c_cs := a, c_eip := b, c_eflags := f\<rparr>"
proof (induction vs arbitrary: c)
  case (Cons v vs)
  have "push v (c\<lparr>c_cs := a, c_eip := b, c_eflags := f\<rparr>) = (push v c)\<lparr>c_cs := a, c_eip := b, c_eflags := f\<rparr>" by (simp add: push_def)
  then show ?case using Cons by simp
qed simp

text \<open>What is pushed by the stub, first to last.\<close>

definition pushed :: "u8 \<Rightarrow> u32 \<Rightarrow> cpu \<Rightarrow> u32 list" where
  "pushed n sp c = (if n = 13 \<or> n = 14 then [] else [0]) @ [ucast n, c_eax c, c_ecx c, c_edx c, c_ebx c, sp, c_ebp c, c_esi c, c_edi c,
     ucast (c_ds c), ucast (c_es c), ucast (c_fs c), ucast (c_gs c)]"

lemma stub_entry_pushes:
  "run_code h (stub_entry n) c = Some (fold push (pushed n (c_esp c - (if n = 13 \<or> n = 14 then 4 else 8)) c) c)"
  by (simp add: stub_entry_def pushed_def pusha_def push_def)

text \<open>In kernel mode the processor saves no stack pointer; the last two words of the frame are then what the stack held.\<close>

lemma byte_high: "8 \<le> n \<Longrightarrow> \<not> bit (w :: u8) n"
  by (auto dest: bit_imp_le_length)

lemma store32_load32 [simp]: "store32 m a (load32 m a) = m"
proof -
  have b: "ucast (load32 m a) = m a" "ucast (drop_bit 8 (load32 m a)) = m (a + 1)" "ucast (drop_bit 16 (load32 m a)) = m (a + 2)"
    "ucast (drop_bit 24 (load32 m a)) = m (a + 3)"
    by (auto intro!: bit_word_eqI simp: load32_def bit_simps byte_high)
  show ?thesis unfolding store32_def b by simp
qed

lemma store_words_append: "store_words a (ws @ vs) m = store_words (a + word_of_nat (4 * length ws)) vs (store_words a ws m)"
  by (induction ws arbitrary: a m) (simp_all add: algebra_simps)

abbreviation from_user :: "cpu \<Rightarrow> bool" where "from_user c \<equiv> (c_cs c AND 3) = 3"

definition stack_top :: "cpu_tables \<Rightarrow> cpu \<Rightarrow> u32" where
  "stack_top t c = (if from_user c then esp0 (tss t) else c_esp c)"

definition frame_addr :: "cpu_tables \<Rightarrow> cpu \<Rightarrow> u32" where
  "frame_addr t c = stack_top t c - (if from_user c then 76 else 68)"

definition entry_frame :: "cpu_tables \<Rightarrow> u8 \<Rightarrow> u32 \<Rightarrow> cpu \<Rightarrow> trapframe" where
  "entry_frame t n e c = (if from_user c then frame_of n e (frame_addr t c) (c_esp c) (ucast (c_ss c)) c
     else frame_of n e (frame_addr t c) (load32 (c_mem c) (c_esp c)) (load32 (c_mem c) (c_esp c + 4)) c)"

text \<open>Room for the frame, the argument of the handler and the return address on the stack that is used.\<close>

definition stack_room :: "cpu_tables \<Rightarrow> cpu \<Rightarrow> bool" where
  "stack_room t c \<longleftrightarrow> 84 \<le> unat (stack_top t c) \<and> unat (stack_top t c) + 8 < 2 ^ 32"

definition on_stack :: "cpu_tables \<Rightarrow> cpu \<Rightarrow> cpu" where
  "on_stack t c = (if from_user c then c\<lparr>c_esp := esp0 (tss t), c_ss := ucast (ss0 (tss t))\<rparr> else c)"

lemma entry_pushes:
  assumes n: "n \<in> vectors"
  shows "run_code h (stub_entry n) (take_interrupt t n (error_code n e) c)
    = Some ((fold push (rev (take (if from_user c then 19 else 17) (trapframe_words (entry_frame t n e c)))) (on_stack t c))
      \<lparr>c_cs := ie_sel (idt t ! unat n), c_eip := gate_offset (idt t ! unat n), c_eflags := c_eflags c AND NOT 0x200\<rparr>)"
  (is "?l = Some ((fold push ?ws (on_stack t c))\<lparr>c_cs := ?cs, c_eip := ?ip, c_eflags := ?fl\<rparr>)")
proof -
  define place where "place = (if from_user c then [ucast (c_ss c), c_esp c] else []) @ [c_eflags c, ucast (c_cs c), c_eip c]
    @ (case error_code n e of Some e \<Rightarrow> [e] | None \<Rightarrow> [])"
  define c1 where "c1 = (fold push place (on_stack t c))\<lparr>c_cs := ?cs, c_eip := ?ip, c_eflags := ?fl\<rparr>"
  have c1: "take_interrupt t n (error_code n e) c = c1"
    by (simp add: take_interrupt_def c1_def place_def on_stack_def Let_def)
  have len: "4 * length place = (if from_user c then 20 else 12) + (if n = 13 \<or> n = 14 then 4 else 0)"
    by (simp add: place_def error_code_def)
  have sp: "c_esp c1 = stack_top t c - word_of_nat (4 * length place)"
    by (simp add: c1_def stack_top_def on_stack_def push_esp)
  have "?l = Some (fold push (pushed n (c_esp c1 - (if n = 13 \<or> n = 14 then 4 else 8)) c1) c1)" by (simp add: c1 stub_entry_pushes)
  also have "pushed n (c_esp c1 - (if n = 13 \<or> n = 14 then 4 else 8)) c1 = pushed n (frame_addr t c + 48) c"
    using n unfolding sp len by (auto simp: pushed_def c1_def on_stack_def frame_addr_def)
  also have "fold push (pushed n (frame_addr t c + 48) c) c1
      = (fold push (place @ pushed n (frame_addr t c + 48) c) (on_stack t c))\<lparr>c_cs := ?cs, c_eip := ?ip, c_eflags := ?fl\<rparr>"
    by (simp add: c1_def push_update)
  also have "place @ pushed n (frame_addr t c + 48) c = ?ws"
    using n by (auto simp: place_def pushed_def error_code_def trapframe_words_def entry_frame_def frame_of_def)
  finally show ?thesis .
qed

lemma length_trapframe_words [simp]: "length (trapframe_words tf) = 19"
  by (simp add: trapframe_words_def)

lemma frame_addr_unat:
  assumes "stack_room t c"
  shows "unat (frame_addr t c) = unat (stack_top t c) - (if from_user c then 76 else 68)" "unat (frame_addr t c) + 76 < 2 ^ 32"
    "8 \<le> unat (frame_addr t c)"
  using assms by (auto simp: frame_addr_def stack_room_def unat_sub word_le_nat_alt)

text \<open>Storing a frame whose last two words are what the memory holds there writes only the other seventeen.\<close>

lemma store_frame_tail:
  assumes a: "unat a + 76 < 2 ^ 32" and u: "tf_user_esp tf = load32 m (a + 68)" "tf_user_ss tf = load32 m (a + 72)"
  shows "store_words a (trapframe_words tf) m = store_words a (take 17 (trapframe_words tf)) m"
proof -
  let ?ws = "take 17 (trapframe_words tf)"
  define m1 where "m1 = store_words a ?ws m"
  have "load32 m1 b = load32 m b" if "unat a + 68 \<le> unat b" "unat b + 4 \<le> 2 ^ 32" for b
    unfolding m1_def by (rule load32_same_on) (use that a in \<open>auto simp: intro!: store_words_outside\<close>)
  moreover have "unat (a + 68) = unat a + 68" "unat (a + 72) = unat a + 72" using a by (simp_all add: unat_plus_no_wrap)
  ultimately have same: "load32 m1 (a + 68) = load32 m (a + 68)" "load32 m1 (a + 72) = load32 m (a + 72)" using a by simp_all
  have "trapframe_words tf = ?ws @ [load32 m1 (a + 68), load32 m1 (a + 72)]"
    using u same by (simp add: trapframe_words_def)
  then have "store_words a (trapframe_words tf) m = store_words (a + 68) [load32 m1 (a + 68), load32 m1 (a + 72)] m1"
    using store_words_append [of a ?ws "[load32 m1 (a + 68), load32 m1 (a + 72)]" m] by (simp add: m1_def)
  then show ?thesis by (simp add: m1_def add.assoc)
qed

lemma entry_words:
  assumes r: "stack_room t c"
  shows "store_words (frame_addr t c) (take (if from_user c then 19 else 17) (trapframe_words (entry_frame t n e c))) (c_mem c)
    = store_words (frame_addr t c) (trapframe_words (entry_frame t n e c)) (c_mem c)"
proof (cases "from_user c")
  case False
  then have esp: "c_esp c = frame_addr t c + 68" by (simp add: stack_top_def frame_addr_def)
  then have "store_words (frame_addr t c) (trapframe_words (entry_frame t n e c)) (c_mem c)
      = store_words (frame_addr t c) (take 17 (trapframe_words (entry_frame t n e c))) (c_mem c)"
    by (intro store_frame_tail frame_addr_unat(2) [OF r]) (use False in \<open>simp_all add: entry_frame_def frame_of_def esp add.assoc\<close>)
  then show ?thesis using False by simp
qed simp

lemma entry_state:
  assumes n: "n \<in> vectors" and r: "stack_room t c"
  shows "run_code h (stub_entry n) (take_interrupt t n (error_code n e) c)
    = Some ((on_stack t c)\<lparr>c_esp := frame_addr t c, c_mem := store_words (frame_addr t c) (trapframe_words (entry_frame t n e c)) (c_mem c),
        c_cs := ie_sel (idt t ! unat n), c_eip := gate_offset (idt t ! unat n), c_eflags := c_eflags c AND NOT 0x200\<rparr>)"
proof -
  let ?k = "if from_user c then 19 else 17 :: nat" and ?ws = "trapframe_words (entry_frame t n e c)" and ?a = "frame_addr t c"
  have top: "c_esp (on_stack t c) = stack_top t c" "c_mem (on_stack t c) = c_mem c" by (simp_all add: on_stack_def stack_top_def)
  have a: "stack_top t c - word_of_nat (4 * length (rev (take ?k ?ws))) = ?a" by (simp add: frame_addr_def)
  have "fold push (rev (take ?k ?ws)) (on_stack t c)
      = (on_stack t c)\<lparr>c_esp := ?a, c_mem := store_words ?a (take ?k ?ws) (c_mem c)\<rparr>"
    using pushes [of "rev (take ?k ?ws)" "on_stack t c"] r unfolding top a by (simp add: stack_room_def)
  then show ?thesis unfolding entry_pushes [OF n] entry_words [OF r, symmetric] by simp
qed

section \<open>Exit\<close>

text \<open>The processor loaded from a frame; on the way the stack pointer stood at the frame.\<close>

definition resume :: "trapframe \<Rightarrow> cpu \<Rightarrow> cpu" where
  "resume tf c = (let outer = (ucast (tf_cs tf) AND 3 > c_cs c AND 3);
       c = c\<lparr>c_gs := ucast (tf_gs tf), c_fs := ucast (tf_fs tf), c_es := ucast (tf_es tf), c_ds := ucast (tf_ds tf), c_edi := tf_edi tf,
             c_esi := tf_esi tf, c_ebp := tf_ebp tf, c_ebx := tf_ebx tf, c_edx := tf_edx tf, c_ecx := tf_ecx tf, c_eax := tf_eax tf,
             c_eip := tf_eip tf, c_cs := ucast (tf_cs tf), c_eflags := tf_eflags tf\<rparr>
     in if outer then c\<lparr>c_esp := tf_user_esp tf, c_ss := ucast (tf_user_ss tf)\<rparr> else c\<lparr>c_esp := c_esp c + 68\<rparr>)"

lemma trapret_resume: "run_code h trapret c = Some (resume (load_trapframe (c_mem c) (c_esp c)) c)"
  by (simp add: trapret_def popa_def iret_def pops_def resume_def load_trapframe_def Let_def upt_rec add.assoc)

text \<open>The memory the C handler is called with: the frame, the pointer to it and the return address below that.\<close>

definition call_memory :: "u32 \<Rightarrow> cpu_tables \<Rightarrow> u8 \<Rightarrow> u32 \<Rightarrow> cpu \<Rightarrow> memory" where
  "call_memory ra t n e c = store32 (store32 (store_words (frame_addr t c) (trapframe_words (entry_frame t n e c)) (c_mem c))
     (frame_addr t c - 4) (frame_addr t c)) (frame_addr t c - 8) ra"

lemma call_memory_frame:
  assumes "stack_room t c"
  shows "load_trapframe (call_memory ra t n e c) (frame_addr t c) = entry_frame t n e c"
    "load32 (call_memory ra t n e c) (frame_addr t c - 8) = ra"
    "unat x < unat (stack_top t c) - 84 \<or> unat (stack_top t c) \<le> unat x \<Longrightarrow> call_memory ra t n e c x = c_mem c x"
proof -
  let ?a = "frame_addr t c" and ?m = "store_words (frame_addr t c) (trapframe_words (entry_frame t n e c)) (c_mem c)"
  note a = frame_addr_unat [OF assms]
  have a4: "unat (?a - 4) = unat ?a - 4" "unat (?a - 8) = unat ?a - 8" using a(3) by (simp_all add: unat_sub word_le_nat_alt)
  have out: "call_memory ra t n e c x = ?m x" if "unat x < unat ?a - 8 \<or> unat ?a \<le> unat x" for x
  proof -
    have "store32 m (?a - 4) v x = m x" "store32 m (?a - 8) v x = m x" for m v
      using that a(2,3) a4 u32_bound [of ?a] by (intro store32_outside; auto)+
    then show ?thesis by (simp add: call_memory_def)
  qed
  have "load_trapframe (call_memory ra t n e c) ?a = load_trapframe ?m ?a"
    by (rule load_trapframe_cong) (use a out in \<open>auto simp: same_on_def\<close>)
  then show "load_trapframe (call_memory ra t n e c) ?a = entry_frame t n e c" using load_store_trapframe a(2) by simp
  show "load32 (call_memory ra t n e c) (?a - 8) = ra" by (simp add: call_memory_def load32_store32_same)
  assume x: "unat x < unat (stack_top t c) - 84 \<or> unat (stack_top t c) \<le> unat x"
  have "call_memory ra t n e c x = ?m x" by (rule out) (use x a(1) assms in \<open>auto simp: stack_room_def\<close>)
  also have "\<dots> = c_mem c x"
    unfolding entry_words [OF assms, symmetric] by (rule store_words_outside) (use x a(1,2) assms in \<open>auto simp: stack_room_def\<close>)
  finally show "call_memory ra t n e c x = c_mem c x" .
qed

text \<open>The code behind the call, on a stack with the frame above the handler's argument.\<close>

lemma behind_call: "drop 8 (int_common ra) = AddEsp 4 # trapret"
  by (simp add: int_common_def trapret_def)

lemma behind_call_resume:
  "run_code h (AddEsp 4 # trapret) c = Some (resume (load_trapframe (c_mem c) (c_esp c + 4)) (c\<lparr>c_esp := c_esp c + 4\<rparr>))"
  by (simp add: trapret_resume)

lemma deliver_call:
  assumes n: "n \<in> vectors" and r: "stack_room t c"
  shows "deliver h ra t n e c = (case h (frame_addr t c) (call_memory ra t n e c) of None \<Rightarrow> None
    | Some (m', a, x, d) \<Rightarrow> if load32 m' (frame_addr t c - 8) = ra
        then Some (resume (load_trapframe m' (frame_addr t c))
          ((on_stack t c)\<lparr>c_esp := frame_addr t c, c_mem := m', c_cs := ie_sel (idt t ! unat n)\<rparr>)) else None)"
  unfolding deliver_def stub_parts [OF n] run_code_append entry_state [OF n r]
  by (auto simp: call_c_def push_def load32_store32_same call_memory_def behind_call_resume [unfolded run_code.simps] trapret_resume
      resume_def Let_def split: option.splits)

lemma segment_push_pop [simp]: "ucast (ucast (w :: u16) :: u32) = w"
  by (rule bit_word_eqI) (simp add: bit_simps)

lemma ucast_and_3: "(ucast (w :: u16) :: u32) AND 3 = 3 \<longleftrightarrow> w AND 3 = 3"
proof -
  have "(ucast w :: u32) AND mask 2 = ucast (w AND mask 2)" by (rule bit_word_eqI) (auto simp: bit_simps)
  then have "(ucast w :: u32) AND 3 = ucast (w AND 3)" by (simp add: mask_numeral)
  moreover have "(ucast (w AND 3) :: u32) = ucast (3 :: u16) \<longleftrightarrow> w AND 3 = 3" using segment_push_pop by (metis (no_types))
  ultimately show ?thesis by simp
qed

text \<open>A frame that still holds the interrupted program's registers gives them back.\<close>

lemma resume_interrupted:
  assumes ring: "(c_cs c AND 3) \<in> {0, 3}" and tf: "tf = (entry_frame t n e c)\<lparr>tf_eax := v\<rparr>"
    and d: "(c_cs d AND 3) = 0" "c_esp d = frame_addr t c" "c_ss d = c_ss (on_stack t c)"
  shows "resume tf d = c\<lparr>c_eax := v, c_mem := c_mem d\<rparr>"
proof (cases "from_user c")
  case True
  then show ?thesis
    unfolding tf using d by (intro cpu.equality) (simp_all add: resume_def entry_frame_def frame_of_def Let_def word_less_nat_alt)
next
  case False
  then have "(c_cs c AND 3) = 0" "frame_addr t c + 68 = c_esp c" using ring by (auto simp: frame_addr_def stack_top_def)
  then show ?thesis
    unfolding tf using d False by (intro cpu.equality) (simp_all add: resume_def entry_frame_def frame_of_def on_stack_def Let_def)
qed

section \<open>Interrupts as the interrupted program sees them\<close>

text \<open>
  The handler of \<^verbatim>\<open>interrupt.c\<close> as the call target. It works on the frame in memory; \<open>work\<close> is what the compiled
  function writes besides, its own stack frames and the kernel's variables, and \<open>r\<close> what it leaves in the registers a callee may
  overwrite. When it switches to another process, the call does not return on this stack now; nor does it when the machine is stopped.
\<close>

definition c_dispatch :: "(kernel \<Rightarrow> kernel) \<Rightarrow> u8 \<Rightarrow> kernel \<Rightarrow> (memory \<Rightarrow> memory) \<Rightarrow> u32 \<times> u32 \<times> u32 \<Rightarrow> c_function" where
  "c_dispatch others sc k work r a m = (case interrupt_dispatch others sc (load_trapframe m a) k of
     Some (Running tf k') \<Rightarrow>
       if current_proc (k_sched k') = current_proc (k_sched k) then Some (store_words a (trapframe_words tf) (work m), r) else None
   | _ \<Rightarrow> None)"

lemma syscall_sched:
  assumes "syscall_handle others tf k = Some (tf', k')" "tf_eax tf \<noteq> SYS_SLEEP"
  shows "k_sched k' = (if tf_eax tf = SYS_EXIT then proc_exit (sint (tf_ebx tf)) (k_sched k)
    else if tf_eax tf = SYS_YIELD then schedule (k_sched k) else k_sched k)"
proof (cases "tf_eax tf \<in> {SYS_EXIT, SYS_YIELD}")
  case True
  then show ?thesis using assms by (auto simp: syscall_handle_def proc_yield_def sys_defs)
next
  case False
  then show ?thesis using assms unfolding syscall_handle_def syscall_rest_def do_write_def Let_def
    by (auto split: if_split_asm option.split_asm prod.split_asm)
qed

text \<open>What the handler does with the frame and with the process table when the timer, the keyboard or a system call other than sleep comes.\<close>

lemma dispatch_frame:
  assumes "kernel_inv k" "mem (k_mm k) z = 0" "tf_int_no tf \<in> {32, 33, 0x80}" "tf_int_no tf = 0x80 \<Longrightarrow> tf_eax tf \<noteq> SYS_SLEEP"
  obtains v k' where "interrupt_dispatch others sc tf k = Some (Running (tf\<lparr>tf_eax := v\<rparr>) k')" "kernel_inv k'"
    "tf_int_no tf \<noteq> 0x80 \<Longrightarrow> v = tf_eax tf"
    "k_sched k' = k_sched k
     \<or> (tf_int_no tf = 32 \<and> (tf_cs tf AND 3) = 3 \<or> tf_int_no tf = 0x80 \<and> tf_eax tf = SYS_YIELD) \<and> k_sched k' = schedule (k_sched k)
     \<or> tf_int_no tf = 0x80 \<and> tf_eax tf = SYS_EXIT \<and> k_sched k' = proc_exit (sint (tf_ebx tf)) (k_sched k)"
proof (cases "tf_int_no tf = 0x80")
  case True
  from syscall_returns [OF assms(1,2) assms(4) [OF True], of others]
  obtain v k' where s: "syscall_handle others tf k = Some (tf\<lparr>tf_eax := v\<rparr>, k')" "kernel_inv k'" by (auto simp: returns_ok_def)
  then show thesis using that [of v k'] True syscall_sched [OF s(1) assms(4) [OF True]]
    by (auto simp: interrupt_dispatch_def split: if_splits)
next
  case False
  then have "\<not> (tf_int_no tf \<in> {0, 6, 13, 14} \<and> (tf_cs tf AND 3) \<noteq> 3)" using assms(3) by auto
  from dispatch_returns [OF assms(1,2) _ this, of others sc] False
  obtain tf' k' where d: "interrupt_dispatch others sc tf k = Some (Running tf' k')" "kernel_inv k'" by blast
  then have "tf' = tf" "k_sched k' = k_sched k \<or> tf_int_no tf = 32 \<and> (tf_cs tf AND 3) = 3 \<and> k_sched k' = schedule (k_sched k)"
    using assms(3) False by (auto simp: interrupt_dispatch_def timer_tick_def Let_def k_outb_def split: prod.splits if_splits)
  then show thesis using that [of "tf_eax tf" k'] d False by auto
qed

lemma schedule_leaves:
  assumes "sched_inv s" "current_proc s = Some p" "current_proc (schedule s) \<noteq> Some p"
  shows "slot_state (schedule s) p = PROC_READY"
proof -
  have wf: "sched_wf s p" "slot_state s p = PROC_RUNNING" using assms(1,2) by (auto elim!: sched_invE)
  then obtain n where n: "rr_next s p = Some n" using assms schedule_idle by (cases "rr_next s p") auto
  show ?thesis using schedule_states(1,2) [OF wf(1) n] wf(2) assms(3) by auto
qed

lemma exit_leaves:
  assumes "sched_inv s" "current_proc s = Some p" "current_proc (proc_exit code s) \<noteq> Some p"
  shows "slot_state (proc_exit code s) p = PROC_ZOMBIE"
  using proc_exit_effect [OF assms(1,2), of code] assms(2,3) by (cases "p_pid (procs s ! p) = 0") (auto simp: proc_exit_def)

text \<open>
  The frame that the handler leaves: what \<open>work\<close> does elsewhere stays, and the frame differs from the one at entry in \<open>eax\<close> only.
\<close>

lemma handler_memory:
  fixes ra e v :: u32 and n :: u8
  assumes r: "stack_room t c" and w: "\<And>m. same_on m (work m) (unat (frame_addr t c) - 8) (unat (frame_addr t c) + 76)"
  defines "m' \<equiv> store_words (frame_addr t c) (trapframe_words ((entry_frame t n e c)\<lparr>tf_eax := v\<rparr>)) (work (call_memory ra t n e c))"
  shows "load_trapframe m' (frame_addr t c) = (entry_frame t n e c)\<lparr>tf_eax := v\<rparr>" "load32 m' (frame_addr t c - 8) = ra"
    "unat x < unat (stack_top t c) - 84 \<or> unat (stack_top t c) \<le> unat x \<Longrightarrow> m' x = work (call_memory ra t n e c) x"
proof -
  let ?a = "frame_addr t c" and ?m = "call_memory ra t n e c" and ?tf = "entry_frame t n e c"
  note a = frame_addr_unat [OF r] and cm = call_memory_frame(1,2) [OF r, of ra n e]
  have a8: "unat (?a - 8) = unat ?a - 8" using a(3) by (simp add: unat_sub word_le_nat_alt)
  show "load_trapframe m' ?a = ?tf\<lparr>tf_eax := v\<rparr>" unfolding m'_def using load_store_trapframe a(2) by simp
  have "load32 m' (?a - 8) = load32 (work ?m) (?a - 8)" unfolding m'_def
    by (rule load32_same_on) (use a a8 in \<open>auto simp: same_on_def intro!: store_words_outside\<close>)
  also have "\<dots> = load32 ?m (?a - 8)" by (rule load32_same_on [OF same_on_mono [OF w]]) (use a a8 in auto)
  finally show "load32 m' (?a - 8) = ra" using cm(2) by simp
  have fr: "load_trapframe (work ?m) ?a = ?tf"
    using load_trapframe_cong [of ?m "work ?m" ?a] same_on_mono [OF w, of "unat ?a" "unat ?a + 76"] cm(1) a(2) by simp
  assume x: "unat x < unat (stack_top t c) - 84 \<or> unat (stack_top t c) \<le> unat x"
  have eq: "m' = store_words ?a (take (if from_user c then 19 else 17) (trapframe_words (?tf\<lparr>tf_eax := v\<rparr>))) (work ?m)"
  proof (cases "from_user c")
    case False
    have "tf_user_esp ?tf = load32 (work ?m) (?a + 68)" "tf_user_ss ?tf = load32 (work ?m) (?a + 72)"
      using arg_cong [OF fr, of tf_user_esp] arg_cong [OF fr, of tf_user_ss] by (simp_all add: load_trapframe_def)
    then have "m' = store_words ?a (take 17 (trapframe_words (?tf\<lparr>tf_eax := v\<rparr>))) (work ?m)"
      unfolding m'_def by (intro store_frame_tail a(2)) simp_all
    then show ?thesis using False by simp
  qed (simp add: m'_def)
  show "m' x = work ?m x" unfolding eq by (rule store_words_outside) (use x a r in \<open>auto simp: stack_room_def\<close>)
qed

text \<open>
  C4: an interrupted program does not notice. Let the timer or the keyboard interrupt user or kernel code, or a program make a system
  call other than sleep, in a consistent kernel whose memory holds a zero byte, and let the compiled handler write neither to the
  frame it is given, except for \<open>eax\<close>, nor over its return address. The handler leaves the kernel consistent and the frame as the
  stub built it from the processor's registers, except that a system call replaces \<open>eax\<close> by its result. If it stays with the
  current process \<open>p\<close>, the processor goes on with every register, segment, flag, stack pointer and program counter as before
  and that \<open>eax\<close>; apart from what the handler itself writes, memory changes only in the 84 bytes below the top of the kernel
  stack in use. If it switches to another process, which only a timer interrupt in user mode and the calls exit and yield do, the
  call does not return now and \<open>p\<close> is a zombie after exit and ready otherwise; whenever the processor comes back behind the
  call on this stack with the frame intact, the interrupted program goes on in the same way.
\<close>

theorem interrupt_transparent:
  assumes "kernel_inv k" "mem (k_mm k) z = 0" "n \<in> {32, 33, 0x80}" "n = 0x80 \<longrightarrow> c_eax c \<noteq> SYS_SLEEP"
    and "stack_room t c" "(c_cs c AND 3) \<in> {0, 3}" "ie_sel (idt t ! unat n) = 0x08" "current_proc (k_sched k) = Some p"
    and "\<And>m. same_on m (work m) (unat (frame_addr t c) - 8) (unat (frame_addr t c) + 76)"
  shows "\<exists>v k'. interrupt_dispatch others sc (entry_frame t n e c) k = Some (Running ((entry_frame t n e c)\<lparr>tf_eax := v\<rparr>) k')
    \<and> kernel_inv k' \<and> (n \<noteq> 0x80 \<longrightarrow> v = c_eax c)
    \<and> (if current_proc (k_sched k') = Some p
       then \<exists>m'. deliver (c_dispatch others sc k work r) ra t n e c = Some (c\<lparr>c_eax := v, c_mem := m'\<rparr>)
         \<and> (\<forall>x. unat x < unat (stack_top t c) - 84 \<or> unat (stack_top t c) \<le> unat x \<longrightarrow>
              m' x = work (call_memory ra t n e c) x \<and> call_memory ra t n e c x = c_mem c x)
       else deliver (c_dispatch others sc k work r) ra t n e c = None
         \<and> (n = 32 \<and> from_user c \<or> n = 0x80 \<and> c_eax c \<in> {SYS_EXIT, SYS_YIELD})
         \<and> slot_state (k_sched k') p = (if n = 0x80 \<and> c_eax c = SYS_EXIT then PROC_ZOMBIE else PROC_READY)
         \<and> (\<forall>h d. load_trapframe (c_mem d) (frame_addr t c) = (entry_frame t n e c)\<lparr>tf_eax := v\<rparr> \<and> c_esp d = frame_addr t c - 4
              \<and> (c_cs d AND 3) = 0 \<and> c_ss d = c_ss (on_stack t c) \<longrightarrow>
              run_code h (drop 8 (int_common ra)) d = Some (c\<lparr>c_eax := v, c_mem := c_mem d\<rparr>)))"
proof -
  let ?tf = "entry_frame t n e c" and ?a = "frame_addr t c" and ?m = "call_memory ra t n e c"
  have tf: "tf_int_no ?tf = ucast n" "tf_eax ?tf = c_eax c" "(tf_cs ?tf AND 3) = 3 \<longleftrightarrow> from_user c"
    using ucast_and_3 [of "c_cs c"] by (simp_all add: entry_frame_def frame_of_def)
  then have int: "tf_int_no ?tf \<in> {32, 33, 0x80}" "tf_int_no ?tf = 0x80 \<longleftrightarrow> n = 0x80" "tf_int_no ?tf = 32 \<longleftrightarrow> n = 32" using assms(3) by auto
  obtain v k' where d: "interrupt_dispatch others sc ?tf k = Some (Running (?tf\<lparr>tf_eax := v\<rparr>) k')" "kernel_inv k'"
    "tf_int_no ?tf \<noteq> 0x80 \<Longrightarrow> v = tf_eax ?tf"
    and sw: "k_sched k' = k_sched k
     \<or> (n = 32 \<and> from_user c \<or> n = 0x80 \<and> c_eax c = SYS_YIELD) \<and> k_sched k' = schedule (k_sched k)
     \<or> n = 0x80 \<and> c_eax c = SYS_EXIT \<and> k_sched k' = proc_exit (sint (tf_ebx ?tf)) (k_sched k)"
    by (rule dispatch_frame [OF assms(1,2) int(1), of others sc]) (use assms(4) int tf in auto)
  have h: "c_dispatch others sc k work r ?a ?m = (if current_proc (k_sched k') = Some p
      then Some (store_words ?a (trapframe_words (?tf\<lparr>tf_eax := v\<rparr>)) (work ?m), r) else None)"
    using call_memory_frame(1) [OF assms(5), of ra n e] d(1) assms(8) by (simp add: c_dispatch_def)
  have n: "n \<in> vectors" using assms(3) by auto
  note hm = handler_memory [where work = work and n = n and e = e and v = v and ra = ra, OF assms(5,9)]
  have stay: "\<exists>m'. deliver (c_dispatch others sc k work r) ra t n e c = Some (c\<lparr>c_eax := v, c_mem := m'\<rparr>)
      \<and> (\<forall>x. unat x < unat (stack_top t c) - 84 \<or> unat (stack_top t c) \<le> unat x \<longrightarrow> m' x = work ?m x \<and> ?m x = c_mem c x)"
    if "current_proc (k_sched k') = Some p"
  proof -
    let ?d = "(on_stack t c)\<lparr>c_esp := ?a, c_mem := store_words ?a (trapframe_words (?tf\<lparr>tf_eax := v\<rparr>)) (work ?m), c_cs := ie_sel (idt t ! unat n)\<rparr>"
    have "deliver (c_dispatch others sc k work r) ra t n e c = Some (c\<lparr>c_eax := v, c_mem := c_mem ?d\<rparr>)"
      using that hm(1,2) resume_interrupted [OF assms(6) hm(1), of ?d] assms(7) by (simp add: deliver_call [OF n assms(5)] h split_beta)
    then show ?thesis using hm(3) call_memory_frame(3) [OF assms(5)] by auto
  qed
  have left: "slot_state (k_sched k') p = (if n = 0x80 \<and> c_eax c = SYS_EXIT then PROC_ZOMBIE else PROC_READY)"
    "n = 32 \<and> from_user c \<or> n = 0x80 \<and> c_eax c \<in> {SYS_EXIT, SYS_YIELD}" if "current_proc (k_sched k') \<noteq> Some p"
    using sw that assms(8) schedule_leaves [OF kernel_invD(3) [OF assms(1)] assms(8)] exit_leaves [OF kernel_invD(3) [OF assms(1)] assms(8)]
    by (auto simp: sys_defs)
  have again: "run_code h (drop 8 (int_common ra)) d = Some (c\<lparr>c_eax := v, c_mem := c_mem d\<rparr>)"
    if "load_trapframe (c_mem d) ?a = ?tf\<lparr>tf_eax := v\<rparr>" "c_esp d = ?a - 4" "(c_cs d AND 3) = 0" "c_ss d = c_ss (on_stack t c)" for h d
    unfolding behind_call behind_call_resume using that resume_interrupted [OF assms(6) that(1), of "d\<lparr>c_esp := ?a\<rparr>"] by simp
  have "deliver (c_dispatch others sc k work r) ra t n e c = None" if "current_proc (k_sched k') \<noteq> Some p"
    using that by (simp add: deliver_call [OF n assms(5)] h)
  then show ?thesis using d tf int(2) stay left again by (intro exI [of _ v] exI [of _ k']) auto
qed

text \<open>A user program at \<open>0x08000010\<close> and the tables of a machine whose kernel stack ends at \<open>0x130000\<close>.\<close>

definition user_cpu :: cpu where
  "user_cpu = \<lparr>c_eax = 1, c_ecx = 2, c_edx = 3, c_ebx = 4, c_esp = 0x8100000, c_ebp = 5, c_esi = 6, c_edi = 7, c_ds = 0x23, c_es = 0x23,
     c_fs = 0x23, c_gs = 0x23, c_ss = 0x23, c_cs = 0x1B, c_eip = 0x08000010, c_eflags = 0x202, c_mem = (\<lambda>_. 0)\<rparr>"

definition user_tables :: cpu_tables where
  "user_tables = idt_set_gate 33 0x100540 0x08 0x8E (tss_init 0x10 0x130000 blank_tables)"

theorem interrupt_transparent_witness:
  "\<exists>m'. deliver (c_dispatch (\<lambda>k. k) 0 demo_kernel (\<lambda>m. m(0x12F000 := 7)) (0, 0, 0)) 0x100600 user_tables 33 0 user_cpu = Some (user_cpu\<lparr>c_mem := m'\<rparr>)
     \<and> m' 0x12F000 = 7"
proof -
  let ?w = "\<lambda>m :: memory. m(0x12F000 := 7)"
  have g: "ie_sel (idt user_tables ! unat (33 :: u8)) = 0x08" and top: "stack_top user_tables user_cpu = 0x130000"
    by (simp_all add: user_tables_def user_cpu_def stack_top_def idt_set_gate_def tss_init_def tss_flush_def gdt_set_gate_def blank_tables_def Let_def)
  have fa: "frame_addr user_tables user_cpu = 0x12FFB4" unfolding frame_addr_def top by (simp add: user_cpu_def)
  have r: "stack_room user_tables user_cpu" by (simp add: stack_room_def top)
  have ring: "(c_cs user_cpu AND 3) \<in> {0, 3}" and n: "(33 :: u8) \<in> {32, 33, 0x80}" "(33 :: u8) = 0x80 \<longrightarrow> c_eax user_cpu \<noteq> SYS_SLEEP"
    by (simp_all add: user_cpu_def)
  have cur: "current_proc (k_sched demo_kernel) = Some 0" by (simp add: demo_kernel_def proc_init_def Let_def)
  have w: "same_on m (?w m) (unat (frame_addr user_tables user_cpu) - 8) (unat (frame_addr user_tables user_cpu) + 76)" for m
    unfolding fa by (auto simp: same_on_def)
  from interrupt_transparent [OF demo_kernel_inv demo_zero n r ring g cur w, where others = "\<lambda>k. k" and sc = 0 and e = 0 and r = "(0, 0, 0)" and ra = "0x100600"]
  obtain m' where "deliver (c_dispatch (\<lambda>k. k) 0 demo_kernel ?w (0, 0, 0)) 0x100600 user_tables 33 0 user_cpu
      = Some (user_cpu\<lparr>c_eax := c_eax user_cpu, c_mem := m'\<rparr>)" "m' 0x12F000 = 7"
    by (force simp: top split: if_splits)
  then show ?thesis by (intro exI [of _ m']) simp
qed

section \<open>The first run of a process\<close>

lemma load_context_cong:
  assumes "same_on m m' (unat a) (unat a + 20)" "unat a + 20 < 2 ^ 32"
  shows "cx_eip (load_context m' a) = cx_eip (load_context m a)"
proof -
  have "unat (a + 16) = unat a + 16" using assms(2) by (simp add: unat_plus_no_wrap)
  then have "load32 m' (a + 16) = load32 m (a + 16)"
    by (intro load32_same_on same_on_mono [OF assms(1)]) (use assms(2) in auto)
  then show ?thesis by (simp add: load_context_def)
qed

text \<open>
  The switch in \<open>schedule\<close>: \<open>swtch\<close> pushes on the stack of the process that runs and pops the context of the next one, whose
  kernel stack the task state segment gets.
\<close>

lemma schedule_switches_to:
  assumes "sched_inv t" "current_proc t = Some p" "rr_next t p = Some i" "i \<noteq> 0" "16 \<le> unat (r_esp (regs t))"
    and "unat (p_ctx (procs t ! i)) + 20 < 2 ^ 32"
    and "unat (r_esp (regs t)) \<le> unat (p_ctx (procs t ! i)) \<or> unat (p_ctx (procs t ! i)) + 20 + 16 \<le> unat (r_esp (regs t))"
  shows "current_proc (schedule t) = Some i" "slot_state (schedule t) i = PROC_RUNNING"
    "p_tf (procs (schedule t) ! i) = p_tf (procs t ! i)"
    "r_esp (regs (schedule t)) = p_ctx (procs t ! i) + 20"
    "r_eip (regs (schedule t)) = cx_eip (load_context (pmem t) (p_ctx (procs t ! i)))"
    "esp0 (tss (tables (schedule t))) = kernel_stack t i + 4096"
    "unat x < unat (r_esp (regs t)) - 16 \<or> unat (r_esp (regs t)) \<le> unat x \<Longrightarrow> pmem (schedule t) x = pmem t x"
proof -
  let ?x = "p_ctx (procs t ! i)" and ?e = "r_esp (regs t)"
  have wf: "sched_wf t p" "p < length (procs t)" using assms(1,2) by (auto elim!: sched_invE simp: sched_wf_def)
  have i: "i < length (procs t)" using rr_next_Some(1) [OF assms(3)] wf by (auto simp: sched_wf_def)
  note sw = schedule_switch [OF wf(1) assms(3)]
  show "current_proc (schedule t) = Some i" "slot_state (schedule t) i = PROC_RUNNING"
    using schedule_states(1,2) [OF wf(1) assms(3)] by auto
  show "p_tf (procs (schedule t) ! i) = p_tf (procs t ! i)" "esp0 (tss (tables (schedule t))) = kernel_stack t i + 4096"
    "r_esp (regs (schedule t)) = ?x + 20"
    unfolding sw(1) using sw(2) i wf(2) assms(4) by (simp_all add: swtch_def tss_set_kernel_stack_def PROC_KSTACK_SZ_def Let_def)
  have e: "unat (?e - 16) = unat ?e - 16" using assms(5) by (simp add: unat_sub word_le_nat_alt)
  have m: "pmem (schedule t) y = pmem t y" if "unat y < unat ?e - 16 \<or> unat ?e \<le> unat y" for y
    unfolding sw(1) using that e assms(5) u32_bound [of ?e] by (simp add: swtch_def Let_def store_words_outside del: store_words.simps)
  show "unat x < unat ?e - 16 \<or> unat ?e \<le> unat x \<Longrightarrow> pmem (schedule t) x = pmem t x" by (rule m)
  have "r_eip (regs (schedule t)) = cx_eip (load_context (pmem (schedule t)) ?x)"
    unfolding sw(1) by (simp add: swtch_def Let_def)
  also have "\<dots> = cx_eip (load_context (pmem t) ?x)"
    by (rule load_context_cong) (use assms(6,7) m in \<open>auto simp: same_on_def\<close>)
  finally show "r_eip (regs (schedule t)) = cx_eip (load_context (pmem t) ?x)" .
qed

lemma kernel_stack_fits:
  assumes "unat (procs_addr s) + sizeof_process * PROC_MAX < 2 ^ 32" "i < PROC_MAX"
  shows "unat (kernel_stack s i) + 4096 < 2 ^ 32"
proof -
  have off: "sizeof_process * i + 32 + 4096 \<le> sizeof_process * PROC_MAX"
    using assms(2) by (simp add: sizeof_process_def PROC_MAX_def)
  then have "unat (word_of_nat (sizeof_process * i + 32) :: u32) = sizeof_process * i + 32"
    using assms(1) by (intro unat_of_nat_u32) simp
  then show ?thesis unfolding kernel_stack_def using assms(1) off by (subst unat_plus_no_wrap) auto
qed

text \<open>
  C39: a new process starts in user mode at its entry point. Let \<open>proc_create\<close> build a process in the slot \<open>i\<close>, and let
  \<open>schedule\<close> later, in a consistent state where the slot still holds this process with its two frames as they were built, find
  it as the next ready one, called on a stack that these frames are not part of. Then \<open>schedule\<close> makes it the running process,
  sets the stack for its interrupts to the top of its kernel stack, and its \<open>swtch\<close> ends at \<open>trapret\<close> with the stack pointer at the
  trap frame; and \<open>trapret\<close>, run from there on the memory that the switch left, takes the processor to the entry point, in
  the user segments at privilege level 3, with interrupts enabled, zero in the general registers and the stack pointer at the
  top of the process's user stack.
\<close>

theorem process_first_run:
  assumes "length (procs s) = PROC_MAX" "unat (procs_addr s) + sizeof_process * PROC_MAX < 2 ^ 32"
    and "0x08000000 \<le> entry" "entry < 0xC0000000" "free_slot s = Some i" "proc_create a nm entry s = (u, pid)"
    and "sched_inv t" "current_proc t = Some p" "rr_next t p = Some i" "procs_addr t = procs_addr s"
    and "p_ctx (procs t ! i) = p_ctx (procs u ! i)" "p_tf (procs t ! i) = p_tf (procs u ! i)"
    and "same_on (pmem u) (pmem t) (unat (kernel_stack s i) + 4000) (unat (kernel_stack s i) + 4096)"
    and "16 \<le> unat (r_esp (regs t))"
      "unat (r_esp (regs t)) \<le> unat (kernel_stack s i) + 4000 \<or> unat (kernel_stack s i) + 4096 + 16 \<le> unat (r_esp (regs t))"
    and "c_mem c = pmem (schedule t)" "c_esp c = r_esp (regs (schedule t))" "(c_cs c AND 3) = 0"
  shows "current_proc (schedule t) = Some i \<and> slot_state (schedule t) i = PROC_RUNNING
    \<and> esp0 (tss (tables (schedule t))) = kernel_stack s i + 4096
    \<and> r_eip (regs (schedule t)) = a \<and> r_esp (regs (schedule t)) = p_tf (procs (schedule t) ! i)
    \<and> run_code h trapret c = Some (c\<lparr>c_eax := 0, c_ecx := 0, c_edx := 0, c_ebx := 0, c_esp := user_stack s i + 4096, c_ebp := 0, c_esi := 0,
        c_edi := 0, c_ds := 0x23, c_es := 0x23, c_fs := 0x23, c_gs := 0x23, c_ss := 0x23, c_cs := 0x1B, c_eip := entry, c_eflags := 0x202\<rparr>)"
proof -
  let ?k = "kernel_stack s i"
  have i: "i < PROC_MAX" "i \<noteq> 0" using free_slot_Some [OF assms(5)] by auto
  have kb: "unat ?k + 4096 < 2 ^ 32" using kernel_stack_fits [OF assms(2) i(1)] by simp
  have k0: "unat (?k + 4000) = unat ?k + 4000" "unat (?k + 4020) = unat ?k + 4020" using kb by (simp_all add: unat_plus_no_wrap)
  note q = proc_create_frames_parts(3) [OF assms(1,2,3,4,5), of a nm, unfolded assms(6) fst_conv snd_conv]
  have "p_tf (procs u ! i) + 76 = ?k + 4096" "p_ctx (procs u ! i) + 20 = p_tf (procs u ! i)" using q by blast+
  then have at: "p_tf (procs u ! i) = ?k + 4020" "p_ctx (procs u ! i) = ?k + 4000" by (simp_all add: algebra_simps)
  have "cx_eip (load_context (pmem t) (?k + 4000)) = cx_eip (load_context (pmem u) (?k + 4000))"
    by (rule load_context_cong [OF same_on_mono [OF assms(13)]]) (use k0 kb in auto)
  then have cx: "cx_eip (load_context (pmem t) (?k + 4000)) = a" using q at by simp
  note sw = schedule_switches_to [OF assms(7-9) i(2) assms(14), unfolded assms(11,12) at, OF _ _]
  have pre: "unat (?k + 4000) + 20 < 2 ^ 32"
    "unat (r_esp (regs t)) \<le> unat (?k + 4000) \<or> unat (?k + 4000) + 20 + 16 \<le> unat (r_esp (regs t))" using kb k0 assms(15) by auto
  note sw = sw [OF pre]
  have tf: "load_trapframe (pmem (schedule t)) (?k + 4020) = user_frame entry (user_stack s i + 4096)"
  proof -
    have "same_on (pmem u) (pmem (schedule t)) (unat (?k + 4020)) (unat (?k + 4020) + 76)"
      using assms(13,15) k0 sw(7) by (auto simp: same_on_def)
    then show ?thesis using load_trapframe_cong [of "pmem u" "pmem (schedule t)" "?k + 4020"] q at k0 kb by simp
  qed
  have "c_esp c = ?k + 4020" using assms(17) sw(4) by (simp add: add.assoc)
  then have "run_code h trapret c = Some (resume (user_frame entry (user_stack s i + 4096)) c)"
    unfolding trapret_resume assms(16) using tf by simp
  moreover have "kernel_stack t i = ?k" using assms(10) by (simp add: kernel_stack_def)
  ultimately show ?thesis using sw cx assms(18)
    by (simp add: resume_def user_frame_def SEG_UCODE_def SEG_UDATA_def Let_def add.assoc)
qed

theorem process_first_run_witness:
  "c_eip (the (run_code (\<lambda>_ _. None) trapret (user_cpu\<lparr>c_cs := 0x08, c_mem := pmem (schedule two_procs), c_esp := r_esp (regs (schedule two_procs))\<rparr>))) = 0x08000000
    \<and> r_eip (regs (schedule two_procs)) = 0x100200"
proof -
  have c: "proc_create 0x100200 ''init'' 0x08000000 (proc_init blank_sched) = (two_procs, snd (proc_create 0x100200 ''init'' 0x08000000 (proc_init blank_sched)))"
    by (simp add: two_procs_def)
  have e: "entry_ok 0x08000000" by (simp add: entry_ok_def)
  note ok = proc_create_ok [OF e blank_sched_layout(3,1), of "0x100200" "''init''", folded two_procs_def]
  have t: "current_proc two_procs = Some 0" "procs_addr two_procs = 0x120000" "r_esp (regs two_procs) = 0x90000"
    using ok by (simp_all add: proc_init_def blank_sched_def Let_def)
  have rr: "rr_next two_procs 0 = Some 1"
    using two_procs_facts(2) by (simp add: rr_next_def rr_order_def PROC_MAX_def upt_conv_Cons)
  have k: "kernel_stack (proc_init blank_sched) (Suc 0) = 0x122050" by (simp add: kernel_stack_def proc_init_def blank_sched_def sizeof_process_def Let_def)
  have addr: "procs_addr two_procs = procs_addr (proc_init blank_sched)" using t(2) by (simp add: proc_init_def blank_sched_def Let_def)
  from process_first_run [OF blank_sched_layout(1,2) _ _ blank_sched_layout(3) c two_procs_facts(1) t(1) rr addr refl refl same_on_refl,
      of "user_cpu\<lparr>c_cs := 0x08, c_mem := pmem (schedule two_procs), c_esp := r_esp (regs (schedule two_procs))\<rparr>" "\<lambda>_ _. None"]
  show ?thesis by (auto simp: t k)
qed

end
