(* ===== verification/User_Progs.thy ===== *)
theory User_Progs
  imports Interrupt
begin

unbundle bit_operations_syntax

text \<open>
  The user-mode programs embedded in \<^verbatim>\<open>src/src/kernel/shell.c\<close> as instruction lists, and their execution on the registers
  that the interrupt stubs save: an \<open>int\<close> instruction or a division error enters \<open>interrupt_dispatch\<close>. The address of
  the text behind a program is the argument \<open>msg\<close>.
\<close>

section \<open>Programs\<close>

datatype user_reg = EAX | EBX | ECX

datatype user_instr = MovImm user_reg u32 | LeaMsg user_reg | IntN u8 | XorSelf user_reg | DivBy user_reg | JmpSelf

definition user_hello :: "user_instr list" where
  "user_hello = [MovImm EAX 1, MovImm EBX 1, LeaMsg ECX, IntN 0x80, MovImm EAX 3, XorSelf EBX, IntN 0x80, JmpSelf]"

definition user_loop :: "user_instr list" where
  "user_loop = [MovImm EAX 1, MovImm EBX 1, LeaMsg ECX, IntN 0x80, MovImm EAX 3, XorSelf EBX, IntN 0x80, JmpSelf]"

definition user_crash :: "user_instr list" where
  "user_crash = [MovImm EBX 0, MovImm EAX 1, DivBy EBX]"

section \<open>Execution\<close>

fun reg :: "user_reg \<Rightarrow> trapframe \<Rightarrow> u32" where
  "reg EAX tf = tf_eax tf"
| "reg EBX tf = tf_ebx tf"
| "reg ECX tf = tf_ecx tf"

fun set_reg :: "user_reg \<Rightarrow> u32 \<Rightarrow> trapframe \<Rightarrow> trapframe" where
  "set_reg EAX v tf = tf\<lparr>tf_eax := v\<rparr>"
| "set_reg EBX v tf = tf\<lparr>tf_ebx := v\<rparr>"
| "set_reg ECX v tf = tf\<lparr>tf_ecx := v\<rparr>"

text \<open>
  A program gives up the processor in a state of the kernel with another process running, runs in place at \<open>jmp .\<close>, reaches its
  end, or stops the machine.
\<close>

datatype user_end = Left_cpu kernel | Spins trapframe kernel | Falls_off trapframe kernel | Machine_stopped kernel

fun user_exec :: "(kernel \<Rightarrow> kernel) \<Rightarrow> u8 \<Rightarrow> u32 \<Rightarrow> user_instr list \<Rightarrow> trapframe \<Rightarrow> kernel \<Rightarrow> user_end option"
  and enter :: "(kernel \<Rightarrow> kernel) \<Rightarrow> u8 \<Rightarrow> u32 \<Rightarrow> u8 \<Rightarrow> user_instr list \<Rightarrow> trapframe \<Rightarrow> kernel \<Rightarrow> user_end option" where
  "user_exec others sc msg [] tf k = Some (Falls_off tf k)"
| "user_exec others sc msg (MovImm r v # is) tf k = user_exec others sc msg is (set_reg r v tf) k"
| "user_exec others sc msg (LeaMsg r # is) tf k = user_exec others sc msg is (set_reg r msg tf) k"
| "user_exec others sc msg (XorSelf r # is) tf k = user_exec others sc msg is (set_reg r (reg r tf XOR reg r tf) tf) k"
| "user_exec others sc msg (JmpSelf # is) tf k = Some (Spins tf k)"
| "user_exec others sc msg (IntN n # is) tf k = enter others sc msg n is tf k"
| "user_exec others sc msg (DivBy r # is) tf k =
     (let a = unat (tf_edx tf) * 2 ^ 32 + unat (tf_eax tf); d = unat (reg r tf) in
      if d = 0 \<or> a div d \<ge> 2 ^ 32 then enter others sc msg 0 is tf k
      else user_exec others sc msg is (tf\<lparr>tf_eax := word_of_nat (a div d), tf_edx := word_of_nat (a mod d)\<rparr>) k)"
| "enter others sc msg n is tf k =
     (case interrupt_dispatch others sc (tf\<lparr>tf_int_no := ucast n, tf_err_code := 0\<rparr>) k of
        None \<Rightarrow> None
      | Some (Halted k') \<Rightarrow> Some (Machine_stopped k')
      | Some (Running tf' k') \<Rightarrow>
          if current_proc (k_sched k') = current_proc (k_sched k) then user_exec others sc msg is tf' k' else Some (Left_cpu k'))"

section \<open>The programs end\<close>

text \<open>A text below user space is not written.\<close>

lemma write_refused:
  "tf_int_no tf = 0x80 \<Longrightarrow> tf_eax tf = SYS_WRITE \<Longrightarrow> tf_ebx tf = 1 \<Longrightarrow> tf_ecx tf < USER_SPACE_START
    \<Longrightarrow> interrupt_dispatch others sc tf k = Some (Running (tf\<lparr>tf_eax := tf_edx tf\<rparr>) k)"
  by (simp add: interrupt_dispatch_def syscall_handle_def do_write_def validate_user_ptr_def Let_def)

lemma exit_call:
  "tf_int_no tf = 0x80 \<Longrightarrow> tf_eax tf = SYS_EXIT
    \<Longrightarrow> interrupt_dispatch others sc tf k = Some (Running tf (k\<lparr>k_sched := proc_exit (sint (tf_ebx tf)) (k_sched k)\<rparr>))"
  by (simp add: interrupt_dispatch_def syscall_handle_def sys_defs Let_def)

definition ended :: "int \<Rightarrow> nat \<Rightarrow> kernel \<Rightarrow> kernel \<Rightarrow> bool" where
  "ended code c k k' \<longleftrightarrow> kernel_inv k' \<and> slot_state (k_sched k') c = PROC_ZOMBIE \<and> p_exit_code (procs (k_sched k') ! c) = code
     \<and> (\<exists>n. n \<noteq> c \<and> slot_state (k_sched k) n = PROC_READY \<and> current_proc (k_sched k') = Some n)
     \<and> k_mm k' = k_mm k \<and> k_vfs k' = k_vfs k \<and> k_timer k' = k_timer k \<and> k_kbd k' = k_kbd k \<and> k_progs k' = k_progs k
     \<and> k_shell k' = k_shell k"

lemma exit_ends:
  assumes "kernel_inv k" "current_proc (k_sched k) = Some c" "p_pid (procs (k_sched k) ! c) \<noteq> 0"
  shows "ended code c k (k\<lparr>k_sched := proc_exit code (k_sched k)\<rparr>)" "ended (- 1) c k (user_fault tf k)"
    and "current_proc (proc_exit code (k_sched k)) \<noteq> current_proc (k_sched k)"
proof -
  note e = proc_exit_effect [OF kernel_invD(3) [OF assms(1)] assms(2,3)]
  obtain n where n: "n \<noteq> c" "slot_state (k_sched k) n = PROC_READY" "current_proc (proc_exit code (k_sched k)) = Some n"
    "slot_state (proc_exit code (k_sched k)) c = PROC_ZOMBIE" "p_exit_code (procs (proc_exit code (k_sched k)) ! c) = code"
    using e [of code] by auto
  obtain m where m: "m \<noteq> c" "slot_state (k_sched k) m = PROC_READY" "current_proc (proc_exit (- 1) (k_sched k)) = Some m"
    "slot_state (proc_exit (- 1) (k_sched k)) c = PROC_ZOMBIE" "p_exit_code (procs (proc_exit (- 1) (k_sched k)) ! c) = - 1"
    using e [of "- 1"] by auto
  show "ended code c k (k\<lparr>k_sched := proc_exit code (k_sched k)\<rparr>)"
    using n kernel_inv_update(3) [OF assms(1) proc_exit_inv [OF kernel_invD(3) [OF assms(1)]]] by (auto simp: ended_def)
  show "ended (- 1) c k (user_fault tf k)"
    using m user_fault_inv [OF assms(1), of tf] by (auto simp: ended_def user_fault_frame)
  show "current_proc (proc_exit code (k_sched k)) \<noteq> current_proc (k_sched k)" using n(1,3) assms(2) by simp
qed

lemma hello_runs:
  assumes "kernel_inv k" "current_proc (k_sched k) = Some c" "p_pid (procs (k_sched k) ! c) \<noteq> 0" "msg < USER_SPACE_START"
  shows "user_exec others sc msg user_hello tf k = Some (Left_cpu (k\<lparr>k_sched := proc_exit 0 (k_sched k)\<rparr>))"
  using exit_ends(3) [OF assms(1-3), of 0] assms(4)
  by (simp add: user_hello_def write_refused exit_call sys_defs)

lemma crash_runs:
  assumes "kernel_inv k" "current_proc (k_sched k) = Some c" "p_pid (procs (k_sched k) ! c) \<noteq> 0" "(tf_cs tf AND 3) = 3"
  obtains tf' where "user_exec others sc msg user_crash tf k = Some (Left_cpu (user_fault tf' k))"
  using exit_ends(3) [OF assms(1-3), of "- 1"] assms(4) that
  by (simp add: user_crash_def interrupt_dispatch_def user_fault_frame)

text \<open>
  C40: the embedded programs end and harm nothing. As a user process, with their texts in the kernel image below user space, where
  the linker puts them, \<open>user_hello\<close> and \<open>user_loop\<close> print nothing and leave the screen as it was, because the kernel refuses
  to read the text, and exit with code 0; \<open>user_crash\<close> is ended by its division error with code -1. A ready process goes on,
  and heap, file system, timer, keyboard, program table and shell are untouched.
\<close>

theorem embedded_programs_end:
  assumes "kernel_inv k" "current_proc (k_sched k) = Some c" "p_pid (procs (k_sched k) ! c) \<noteq> 0"
    and "msg < USER_SPACE_START" "(tf_cs tf AND 3) = 3"
  shows "(\<forall>prog \<in> {user_hello, user_loop}. \<exists>k'. user_exec others sc msg prog tf k = Some (Left_cpu k') \<and> ended 0 c k k' \<and> k_term k' = k_term k)
    \<and> (\<exists>k'. user_exec others sc msg user_crash tf k = Some (Left_cpu k') \<and> ended (- 1) c k k')"
proof -
  have l: "user_loop = user_hello" by (simp add: user_loop_def user_hello_def)
  obtain tf' where "user_exec others sc msg user_crash tf k = Some (Left_cpu (user_fault tf' k))"
    by (rule crash_runs [OF assms(1-3,5)])
  then show ?thesis
    unfolding l using hello_runs [OF assms(1-4), of others sc tf] exit_ends(1,2) [OF assms(1-3)] by auto
qed

theorem embedded_programs_end_witness:
  "\<exists>k'. user_exec (\<lambda>k. k) 0 0x00104000 user_hello (user_frame 0x08000000 0x09000000) busy_kernel = Some (Left_cpu k')
    \<and> slot_state (k_sched k') 1 = PROC_ZOMBIE \<and> k_term k' = k_term busy_kernel"
proof -
  have "(0x00104000 :: u32) < USER_SPACE_START" by (simp add: USER_SPACE_START_def)
  moreover have "(tf_cs (user_frame 0x08000000 0x09000000) AND 3) = 3" by (simp add: user_frame_def SEG_UCODE_def)
  ultimately show ?thesis
    using embedded_programs_end [OF busy_kernel_facts, of "0x00104000" "user_frame 0x08000000 0x09000000" "\<lambda>k. k" 0]
    by (auto simp: ended_def)
qed

end
