(* ===== verification/Keyboard_Race.thy ===== *)
theory Keyboard_Race
  imports Teclado "HOL-Library.Sublist"
begin

text \<open>
  The keyboard interrupt inside \<open>keyboard_getchar\<close>. The ring of \<^verbatim>\<open>src/src/kernel/teclado.c\<close> is shared, without a lock, by the
  interrupt handler and the main loop. The handler runs with interrupts disabled and is one step; the reader is a
  step for every access to the shared variables, with interrupts between any two. The reader's state is the place in the code and the
  values read so far.
\<close>

section \<open>Steps\<close>

datatype reader = Idle | Saw_head nat | Nonempty | Took char | Saw_tail char nat

record race =
  r_pc :: reader
  r_kbd :: keyboard
  r_term :: terminal
  r_codes :: "u8 list"
  r_in :: string
  r_out :: string

text \<open>
  \<open>r_codes\<close>, \<open>r_in\<close> and \<open>r_out\<close> are the history: the scan codes that came, the characters stored in the ring, and the characters
  that \<open>keyboard_getchar\<close> returned.
\<close>

definition stored :: "u8 \<Rightarrow> keyboard \<Rightarrow> string" where
  "stored sc k = (if length (kb_contents k) < 127 then (case key_char (shift_pressed k) (caps_lock k) sc of None \<Rightarrow> [] | Some c \<Rightarrow> [c]) else [])"

inductive race_step :: "race \<Rightarrow> race \<Rightarrow> bool" where
  irq: "keyboard_irq sc (r_kbd s, r_term s) = (k, t) \<Longrightarrow>
    race_step s (s\<lparr>r_kbd := k, r_term := t, r_codes := r_codes s @ [sc], r_in := r_in s @ stored sc (r_kbd s)\<rparr>)"
| read_head: "r_pc s = Idle \<Longrightarrow> race_step s (s\<lparr>r_pc := Saw_head (kb_head (r_kbd s))\<rparr>)"
| is_empty: "r_pc s = Saw_head h \<Longrightarrow> h = kb_tail (r_kbd s) \<Longrightarrow> race_step s (s\<lparr>r_pc := Idle\<rparr>)"
| is_nonempty: "r_pc s = Saw_head h \<Longrightarrow> h \<noteq> kb_tail (r_kbd s) \<Longrightarrow> race_step s (s\<lparr>r_pc := Nonempty\<rparr>)"
| read_char: "r_pc s = Nonempty \<Longrightarrow> race_step s (s\<lparr>r_pc := Took (kb_buf (r_kbd s) ! kb_tail (r_kbd s))\<rparr>)"
| read_tail: "r_pc s = Took c \<Longrightarrow> race_step s (s\<lparr>r_pc := Saw_tail c (kb_tail (r_kbd s))\<rparr>)"
| write_tail: "r_pc s = Saw_tail c i \<Longrightarrow>
    race_step s (s\<lparr>r_pc := Idle, r_kbd := (r_kbd s)\<lparr>kb_tail := (i + 1) mod KB_BUF_SZ\<rparr>, r_out := r_out s @ [c]\<rparr>)"

inductive_cases race_stepE: "race_step s s'"

inductive race_reach :: "race \<Rightarrow> race \<Rightarrow> bool" for s where
  start: "race_reach s s"
| step: "race_reach s s' \<Longrightarrow> race_step s' s'' \<Longrightarrow> race_reach s s''"

section \<open>Invariant\<close>

text \<open>What the reader knows: interrupts only append, so what it has seen stays the front of the ring.\<close>

fun reader_ok :: "reader \<Rightarrow> keyboard \<Rightarrow> bool" where
  "reader_ok Idle k = True"
| "reader_ok (Saw_head h) k = (h \<noteq> kb_tail k \<longrightarrow> kb_contents k \<noteq> [])"
| "reader_ok Nonempty k = (kb_contents k \<noteq> [])"
| "reader_ok (Took c) k = (\<exists>cs. kb_contents k = c # cs)"
| "reader_ok (Saw_tail c i) k = (i = kb_tail k \<and> (\<exists>cs. kb_contents k = c # cs))"

definition race_inv :: "race \<Rightarrow> race \<Rightarrow> bool" where
  "race_inv s s' \<longleftrightarrow> kb_ok (r_kbd s') \<and> reader_ok (r_pc s') (r_kbd s')
     \<and> r_out s' @ kb_contents (r_kbd s') = kb_contents (r_kbd s) @ r_in s'
     \<and> subseq (r_in s') (typed (shift_pressed (r_kbd s)) (caps_lock (r_kbd s)) (r_codes s'))
     \<and> shift_pressed (r_kbd s') = fold shift_after (r_codes s') (shift_pressed (r_kbd s))
     \<and> caps_lock (r_kbd s') = fold caps_after (r_codes s') (caps_lock (r_kbd s))
     \<and> (length (kb_contents (r_kbd s)) + length (typed (shift_pressed (r_kbd s)) (caps_lock (r_kbd s)) (r_codes s')) \<le> 127
         \<longrightarrow> r_in s' = typed (shift_pressed (r_kbd s)) (caps_lock (r_kbd s)) (r_codes s'))"

lemma typed_snoc: "typed sh caps (scs @ [sc]) = typed sh caps scs
    @ (case key_char (fold shift_after scs sh) (fold caps_after scs caps) sc of None \<Rightarrow> [] | Some c \<Rightarrow> [c])"
  by (induction scs arbitrary: sh caps) simp_all

lemma keyboard_irq_tail: "kb_tail (fst (keyboard_irq sc (k, t))) = kb_tail k"
  by (simp add: keyboard_irq_def kb_put_def Let_def)

lemma kb_contents_head:
  assumes "kb_ok k"
  shows "kb_contents k = [] \<longleftrightarrow> kb_head k = kb_tail k"
    "kb_contents k \<noteq> [] \<Longrightarrow> kb_contents k = kb_buf k ! kb_tail k # kb_contents (k\<lparr>kb_tail := (kb_tail k + 1) mod KB_BUF_SZ\<rparr>)"
proof -
  have e: "kb_contents k = [] \<longleftrightarrow> length (kb_contents k) = 0" by simp
  show e: "kb_contents k = [] \<longleftrightarrow> kb_head k = kb_tail k"
    unfolding e length_kb_contents [OF assms] using ring_len_empty assms by (simp add: kb_ok_def)
  show "kb_contents k = kb_buf k ! kb_tail k # kb_contents (k\<lparr>kb_tail := (kb_tail k + 1) mod KB_BUF_SZ\<rparr>)" if "kb_contents k \<noteq> []"
    using ring_get [of "kb_head k" "kb_buf k" "kb_tail k"] e that assms by (simp add: kb_contents_def kb_ok_def)
qed

lemma irq_contents:
  assumes "kb_ok k" "keyboard_irq sc (k, t) = (k', t')"
  shows "kb_contents k' = kb_contents k @ stored sc k" "kb_ok k'" "kb_tail k' = kb_tail k"
    "shift_pressed k' = shift_after sc (shift_pressed k)" "caps_lock k' = caps_after sc (caps_lock k)"
proof -
  note st = keyboard_irq_step [OF assms(1), of sc t, unfolded assms(2) fst_conv snd_conv]
  show "kb_contents k' = kb_contents k @ stored sc k"
    unfolding st(2) using kbq.bounded [OF assms(1)] by (auto simp: stored_def split: option.splits)
  show "kb_ok k'" "shift_pressed k' = shift_after sc (shift_pressed k)" "caps_lock k' = caps_after sc (caps_lock k)" by (fact st)+
  show "kb_tail k' = kb_tail k" using keyboard_irq_tail [of sc k t] assms(2) by simp
qed

lemma reader_ok_append:
  "reader_ok pc k \<Longrightarrow> kb_contents k' = kb_contents k @ xs \<Longrightarrow> kb_tail k' = kb_tail k \<Longrightarrow> reader_ok pc k'"
  by (cases pc) auto

lemma race_irq_inv:
  assumes i: "race_inv s s'" and q: "keyboard_irq sc (r_kbd s', r_term s') = (k, t)"
  shows "race_inv s (s'\<lparr>r_kbd := k, r_term := t, r_codes := r_codes s' @ [sc], r_in := r_in s' @ stored sc (r_kbd s')\<rparr>)"
proof -
  have ok: "kb_ok (r_kbd s')" using i by (simp add: race_inv_def)
  note c = irq_contents [OF ok q]
  let ?ty = "typed (shift_pressed (r_kbd s)) (caps_lock (r_kbd s))"
  define new where "new = (case key_char (shift_pressed (r_kbd s')) (caps_lock (r_kbd s')) sc of None \<Rightarrow> [] | Some c \<Rightarrow> [c])"
  have ty: "?ty (r_codes s' @ [sc]) = ?ty (r_codes s') @ new" using i by (simp add: typed_snoc race_inv_def new_def)
  have st: "stored sc (r_kbd s') = (if length (kb_contents (r_kbd s')) < 127 then new else [])" by (simp add: stored_def new_def)
  have sub: "subseq (r_in s' @ stored sc (r_kbd s')) (?ty (r_codes s') @ new)"
    using i unfolding st race_inv_def by (auto intro: list_emb_append_mono)
  have all: "r_in s' @ stored sc (r_kbd s') = ?ty (r_codes s') @ new"
    if "length (kb_contents (r_kbd s)) + length (?ty (r_codes s') @ new) \<le> 127"
  proof -
    have eq: "r_in s' = ?ty (r_codes s')" "r_out s' @ kb_contents (r_kbd s') = kb_contents (r_kbd s) @ r_in s'"
      using i that by (auto simp: race_inv_def)
    have "length (kb_contents (r_kbd s')) \<le> length (kb_contents (r_kbd s)) + length (r_in s')" using arg_cong [OF eq(2), of length] by simp
    then have "new \<noteq> [] \<Longrightarrow> length (kb_contents (r_kbd s')) < 127" using that eq(1) by (cases new) auto
    then show ?thesis using eq(1) by (auto simp: st)
  qed
  show ?thesis
    using i c sub all reader_ok_append [of "r_pc s'" "r_kbd s'" k] unfolding race_inv_def by (simp add: ty)
qed

lemma race_step_inv: "race_inv s s' \<Longrightarrow> race_step s' s'' \<Longrightarrow> race_inv s s''"
proof -
  assume i: "race_inv s s'" and st: "race_step s' s''"
  have ok: "kb_ok (r_kbd s')" using i by (simp add: race_inv_def)
  note h = kb_contents_head [OF ok]
  have adv: "kb_ok ((r_kbd s')\<lparr>kb_tail := (kb_tail (r_kbd s') + 1) mod KB_BUF_SZ\<rparr>)"
    "kb_contents ((r_kbd s')\<lparr>kb_tail := (kb_tail (r_kbd s') + 1) mod KB_BUF_SZ\<rparr>) = cs" if "kb_contents (r_kbd s') = c # cs" for c cs
    using kb_get_head(2,3) [OF ok that] by simp_all
  from st show ?thesis
  proof (cases rule: race_step.cases)
    case (irq sc k t)
    then show ?thesis using race_irq_inv [OF i] by simp
  next
    case (write_tail c j)
    have r: "reader_ok (Saw_tail c j) (r_kbd s')" using i write_tail(2) by (simp add: race_inv_def)
    then obtain cs where cs: "kb_contents (r_kbd s') = c # cs" "j = kb_tail (r_kbd s')" by auto
    then show ?thesis using i adv [OF cs(1)] write_tail(1) by (simp add: race_inv_def)
  qed (use i h in \<open>auto simp: race_inv_def\<close>)
qed

lemma race_reach_inv: "race_reach s s' \<Longrightarrow> race_inv s s \<Longrightarrow> race_inv s s'"
  by (induction rule: race_reach.induct) (auto intro: race_step_inv)

section \<open>Property\<close>

text \<open>
  C6: the ring needs no lock. However keyboard interrupts fall between the accesses of \<open>keyboard_getchar\<close>, the characters
  returned, followed by those still in the ring, are those that were there at first followed by those stored since: none is
  lost, doubled or out of order. What was stored is a subsequence of what was typed, and all of it if the contents at
  first and all that was typed are together at most 127 characters.
\<close>

theorem keyboard_race_fifo:
  assumes "race_reach s s'" "kb_ok (r_kbd s)" "r_pc s = Idle" "r_codes s = []" "r_in s = []" "r_out s = []"
  shows "kb_ok (r_kbd s') \<and> r_out s' @ kb_contents (r_kbd s') = kb_contents (r_kbd s) @ r_in s'
    \<and> subseq (r_in s') (typed (shift_pressed (r_kbd s)) (caps_lock (r_kbd s)) (r_codes s'))
    \<and> (length (kb_contents (r_kbd s)) + length (typed (shift_pressed (r_kbd s)) (caps_lock (r_kbd s)) (r_codes s')) \<le> 127
        \<longrightarrow> r_in s' = typed (shift_pressed (r_kbd s)) (caps_lock (r_kbd s)) (r_codes s'))"
proof -
  have "race_inv s s" using assms(2-6) by (simp add: race_inv_def)
  from race_reach_inv [OF assms(1) this] show ?thesis unfolding race_inv_def by blast
qed

text \<open>The key B is pressed while \<open>keyboard_getchar\<close> is about to take an A out of the ring.\<close>

definition race_start :: "terminal \<Rightarrow> race" where
  "race_start t = \<lparr>r_pc = Idle, r_kbd = blank_keyboard, r_term = t, r_codes = [], r_in = [], r_out = []\<rparr>"

lemma race_example:
  obtains s' where "race_reach (race_start t) s'" "r_codes s' = [0x1E, 0x30]" "length (r_out s') = 1"
proof -
  let ?s = "race_start t"
  obtain k1 t1 where q1: "keyboard_irq 0x1E (r_kbd ?s, r_term ?s) = (k1, t1)" by fastforce
  let ?s1 = "?s\<lparr>r_kbd := k1, r_term := t1, r_codes := r_codes ?s @ [0x1E], r_in := r_in ?s @ stored 0x1E (r_kbd ?s)\<rparr>"
  have h: "kb_head k1 \<noteq> kb_tail k1"
    using q1 by (auto simp: race_start_def keyboard_irq_def translate_def kbdus_lower_def blank_keyboard_def kb_put_def KB_BUF_SZ_def Let_def)
  let ?s2 = "?s1\<lparr>r_pc := Saw_head (kb_head k1)\<rparr>"
  let ?s3 = "?s2\<lparr>r_pc := Nonempty\<rparr>"
  have r1: "race_reach ?s ?s1" by (rule race_reach.step [OF race_reach.start race_step.irq [OF q1]])
  have r2: "race_reach ?s ?s2" using race_reach.step [OF r1 race_step.read_head] by (simp add: race_start_def)
  have r3: "race_reach ?s ?s3" using race_reach.step [OF r2 race_step.is_nonempty] h by simp
  obtain k4 t4 where q4: "keyboard_irq 0x30 (r_kbd ?s3, r_term ?s3) = (k4, t4)" by fastforce
  let ?s4 = "?s3\<lparr>r_kbd := k4, r_term := t4, r_codes := r_codes ?s3 @ [0x30], r_in := r_in ?s3 @ stored 0x30 (r_kbd ?s3)\<rparr>"
  let ?s5 = "?s4\<lparr>r_pc := Took (kb_buf k4 ! kb_tail k4)\<rparr>"
  let ?s6 = "?s5\<lparr>r_pc := Saw_tail (kb_buf k4 ! kb_tail k4) (kb_tail k4)\<rparr>"
  let ?s7 = "?s6\<lparr>r_pc := Idle, r_kbd := (r_kbd ?s6)\<lparr>kb_tail := (kb_tail k4 + 1) mod KB_BUF_SZ\<rparr>, r_out := r_out ?s6 @ [kb_buf k4 ! kb_tail k4]\<rparr>"
  have r4: "race_reach ?s ?s4" by (rule race_reach.step [OF r3 race_step.irq [OF q4]])
  have r5: "race_reach ?s ?s5" using race_reach.step [OF r4 race_step.read_char] by simp
  have r6: "race_reach ?s ?s6" using race_reach.step [OF r5 race_step.read_tail] by simp
  have r7: "race_reach ?s ?s7" using race_reach.step [OF r6 race_step.write_tail] by simp
  show thesis by (rule that [OF r7]) (simp_all add: race_start_def)
qed

theorem keyboard_race_fifo_witness:
  "\<forall>t. \<exists>s'. race_reach (race_start t) s' \<and> r_out s' = ''a'' \<and> kb_contents (r_kbd s') = ''b''"
proof
  fix t
  obtain s' where s': "race_reach (race_start t) s'" "r_codes s' = [0x1E, 0x30]" "length (r_out s') = 1" by (rule race_example)
  have "typed False False [0x1E, 0x30] = ''ab''"
    by (simp add: key_char_def is_modifier_def shift_after_def caps_after_def kbdus_lower_def kbdus_upper_def Let_def)
  moreover have "kb_contents blank_keyboard = []" by (simp add: blank_keyboard_def kb_contents_def ring_list_def ring_len_def KB_BUF_SZ_def)
  moreover have "shift_pressed blank_keyboard = False" "caps_lock blank_keyboard = False" by (simp_all add: blank_keyboard_def)
  ultimately have "r_out s' @ kb_contents (r_kbd s') = ''ab''"
    using keyboard_race_fifo [OF s'(1)] blank_keyboard_ok s'(2) by (simp add: race_start_def)
  then show "\<exists>s'. race_reach (race_start t) s' \<and> r_out s' = ''a'' \<and> kb_contents (r_kbd s') = ''b''"
    using s'(1,3) by (intro exI [of _ s']) (auto simp: length_Suc_conv)
qed

end
