(* ===== verification/Mouse.thy ===== *)
theory Mouse
  imports Ring Timer
begin

unbundle bit_operations_syntax

text \<open>
  The mouse driver of \<^verbatim>\<open>src/src/kernel/mouse.c\<close>, which is compiled into the kernel and not yet called by it: the
  handshake with the controller, the assembly of three-byte packets, the pointer position and the queue of packets.
  The bytes the controller gives on successive port reads are an argument, port writes are a trace. The handler
  stores a packet of four bytes at one byte of the buffer; \<open>None\<close> stands for a store that leaves the array. Positions
  are integers, and the sums of the driver are reduced to 32 bits by \<open>c_int\<close>.
\<close>

section \<open>State\<close>

definition MOUSE_BUF_SIZE :: nat where "MOUSE_BUF_SIZE = 128"

record mouse_packet =
  movement_x :: u8
  movement_y :: u8
  movement_z :: u8
  pkt_buttons :: u8

record mouse =
  mouse_buf :: "u8 list"
  mouse_head :: nat
  mouse_tail :: nat
  mouse_x :: int
  mouse_y :: int
  mouse_buttons :: int
  cursor_visible :: int
  mouse_initialized :: bool
  pkt_bytes :: "u8 list"
  packet_idx :: nat

text \<open>The number of port reads so far and the trace of port writes.\<close>

type_synonym mouse_io = "nat \<times> port_trace"

section \<open>The controller\<close>

primrec wait_loop :: "(nat \<Rightarrow> u16 \<Rightarrow> u8) \<Rightarrow> u8 \<Rightarrow> nat \<Rightarrow> nat \<Rightarrow> nat" where
  "wait_loop inb ty 0 n = n"
| "wait_loop inb ty (Suc i) n =
     (if ty = 0 then (if (inb n 0x64 AND 0x20) = 0 then n + 1 else wait_loop inb ty i (n + 1))
      else (if (inb n 0x64 AND 0x02) = 0 then n + 1 else wait_loop inb ty i (n + 1)))"

definition mouse_wait_write :: "(nat \<Rightarrow> u16 \<Rightarrow> u8) \<Rightarrow> u8 \<Rightarrow> mouse_io \<Rightarrow> mouse_io" where
  "mouse_wait_write inb ty io = (case io of (n, tr) \<Rightarrow> (wait_loop inb ty 100000 n, tr))"

definition mouse_cmd_write :: "(nat \<Rightarrow> u16 \<Rightarrow> u8) \<Rightarrow> u8 \<Rightarrow> mouse_io \<Rightarrow> mouse_io" where
  "mouse_cmd_write inb val io = (case mouse_wait_write inb 1 io of (n, tr) \<Rightarrow> (n, outb 0x60 val tr))"

primrec data_loop :: "(nat \<Rightarrow> u16 \<Rightarrow> u8) \<Rightarrow> nat \<Rightarrow> nat \<Rightarrow> nat \<times> u8" where
  "data_loop inb 0 n = (n, 0xFF)"
| "data_loop inb (Suc i) n = (if (inb n 0x64 AND 0x01) \<noteq> 0 then (n + 2, inb (n + 1) 0x60) else data_loop inb i (n + 1))"

definition mouse_data_read :: "(nat \<Rightarrow> u16 \<Rightarrow> u8) \<Rightarrow> mouse_io \<Rightarrow> mouse_io \<times> u8" where
  "mouse_data_read inb io = (case io of (n, tr) \<Rightarrow> (case data_loop inb 100000 n of (n, b) \<Rightarrow> ((n, tr), b)))"

definition mouse_init :: "(nat \<Rightarrow> u16 \<Rightarrow> u8) \<Rightarrow> mouse \<times> mouse_io \<Rightarrow> mouse \<times> mouse_io" where
  "mouse_init inb s = (case s of (ms, io) \<Rightarrow>
     if mouse_initialized ms then s
     else let io = mouse_cmd_write inb 0xA8 io;
              io = mouse_cmd_write inb 0x20 io;
              (io, status) = mouse_data_read inb io;
              status = status OR 0x02;
              io = mouse_cmd_write inb 0x60 io;
              io = mouse_cmd_write inb status io;
              io = mouse_cmd_write inb 0xD4 io;
              io = mouse_cmd_write inb 0xF4 io;
              (io, _) = mouse_data_read inb io
          in (ms\<lparr>mouse_initialized := True, mouse_x := 400, mouse_y := 300\<rparr>, io))"

section \<open>The interrupt handler\<close>

definition packet_bytes :: "mouse_packet \<Rightarrow> u8 list" where
  "packet_bytes p = [movement_x p, movement_y p, movement_z p, pkt_buttons p]"

text \<open>\<open>*(struct mouse_packet*)&mouse_buf[i] = pkt\<close>\<close>

definition store_packet :: "nat \<Rightarrow> mouse_packet \<Rightarrow> u8 list \<Rightarrow> u8 list option" where
  "store_packet i p buf = (if i + 4 \<le> length buf then Some (take i buf @ packet_bytes p @ drop (i + 4) buf) else None)"

definition load_packet :: "nat \<Rightarrow> u8 list \<Rightarrow> mouse_packet option" where
  "load_packet i buf = (if i + 4 \<le> length buf
     then Some \<lparr>movement_x = buf ! i, movement_y = buf ! (i + 1), movement_z = buf ! (i + 2), pkt_buttons = buf ! (i + 3)\<rparr> else None)"

definition clamp :: "int \<Rightarrow> int \<Rightarrow> int" where
  "clamp lim v = (let v = (if v < 0 then 0 else v) in if v > lim then lim else v)"

text \<open>The nine-bit movement: the byte with the sign bit from the first byte.\<close>

definition movement :: "u8 \<Rightarrow> u8 \<Rightarrow> u8 \<Rightarrow> int" where
  "movement sign b0 b = (if (b0 AND sign) \<noteq> 0 then uint b - 256 else uint b)"

text \<open>The part of the handler that runs when the third byte has arrived.\<close>

definition packet_done :: "mouse \<Rightarrow> mouse option" where
  "packet_done ms =
     (let b = pkt_bytes ms; ms = ms\<lparr>packet_idx := 0\<rparr>;
          buttons = b ! 0 AND 0x07;
          dx = movement 0x10 (b ! 0) (b ! 1);
          dy = movement 0x20 (b ! 0) (b ! 2);
          ms = ms\<lparr>mouse_x := clamp 799 (c_int (mouse_x ms + dx)), mouse_y := clamp 599 (c_int (mouse_y ms - dy)), mouse_buttons := uint buttons\<rparr>;
          nxt = (mouse_head ms + 1) mod MOUSE_BUF_SIZE
      in if nxt \<noteq> mouse_tail ms then
           (case store_packet (mouse_head ms) \<lparr>movement_x = word_of_int dx, movement_y = word_of_int dy, movement_z = 0, pkt_buttons = buttons\<rparr> (mouse_buf ms) of
              None \<Rightarrow> None | Some buf \<Rightarrow> Some (ms\<lparr>mouse_buf := buf, mouse_head := nxt\<rparr>))
         else Some ms)"

definition mouse_handler :: "u8 \<Rightarrow> mouse \<times> port_trace \<Rightarrow> (mouse \<times> port_trace) option" where
  "mouse_handler data s = (case s of (ms, tr) \<Rightarrow>
     let ms = (if data = 0xFA then ms\<lparr>packet_idx := 0\<rparr> else if data = 0xFE then ms\<lparr>packet_idx := 0\<rparr>
               else if data = 0xFF then ms\<lparr>packet_idx := 0\<rparr> else ms) in
     if (data AND 0x08) = 0 then Some (ms, tr)
     else let ms = ms\<lparr>pkt_bytes := (pkt_bytes ms)[packet_idx ms := data], packet_idx := packet_idx ms + 1\<rparr> in
       if packet_idx ms \<ge> 3 then
         (case packet_done ms of None \<Rightarrow> None | Some ms \<Rightarrow> Some (ms, outb 0x20 0x20 tr))
       else Some (ms, outb 0x20 0x20 tr))"

section \<open>The interface\<close>

text \<open>The result is the return value and what is stored through the pointer; \<open>want\<close> says that it is not null.\<close>

definition mouse_get_packet :: "bool \<Rightarrow> mouse \<Rightarrow> (mouse \<times> int \<times> mouse_packet option) option" where
  "mouse_get_packet want ms =
     (if mouse_head ms = mouse_tail ms then Some (ms, 0, None)
      else if want then
        (case load_packet (mouse_tail ms) (mouse_buf ms) of None \<Rightarrow> None
         | Some p \<Rightarrow> Some (ms\<lparr>mouse_tail := (mouse_tail ms + 1) mod MOUSE_BUF_SIZE\<rparr>, 1, Some p))
      else Some (ms, 1, None))"

definition mouse_available :: "mouse \<Rightarrow> int" where
  "mouse_available ms = (if mouse_head ms \<noteq> mouse_tail ms then 1 else 0)"

definition mouse_get_position :: "mouse \<Rightarrow> int \<times> int" where
  "mouse_get_position ms = (mouse_x ms, mouse_y ms)"

definition mouse_set_position :: "int \<Rightarrow> int \<Rightarrow> mouse \<Rightarrow> mouse" where
  "mouse_set_position x y ms = ms\<lparr>mouse_x := x, mouse_y := y\<rparr>"

definition mouse_get_buttons :: "mouse \<Rightarrow> int" where
  "mouse_get_buttons ms = mouse_buttons ms"

definition mouse_show_cursor :: "int \<Rightarrow> mouse \<Rightarrow> mouse" where
  "mouse_show_cursor sh ms = ms\<lparr>cursor_visible := sh\<rparr>"

definition mouse_hide :: "mouse \<Rightarrow> mouse" where
  "mouse_hide ms = ms\<lparr>cursor_visible := 0\<rparr>"

section \<open>The pointer stays on the screen\<close>

definition on_screen :: "mouse \<Rightarrow> bool" where
  "on_screen ms \<longleftrightarrow> 0 \<le> mouse_x ms \<and> mouse_x ms \<le> 799 \<and> 0 \<le> mouse_y ms \<and> mouse_y ms \<le> 599"

definition mouse_ok :: "mouse \<Rightarrow> bool" where
  "mouse_ok ms \<longleftrightarrow> length (mouse_buf ms) = MOUSE_BUF_SIZE \<and> mouse_head ms < MOUSE_BUF_SIZE \<and> mouse_tail ms < MOUSE_BUF_SIZE
     \<and> length (pkt_bytes ms) = 3 \<and> packet_idx ms < 3"

lemma clamp_bounds: "0 \<le> lim \<Longrightarrow> 0 \<le> clamp lim v \<and> clamp lim v \<le> lim"
  by (simp add: clamp_def Let_def)

lemma store_packet_length: "store_packet i p buf = Some buf' \<Longrightarrow> length buf' = length buf"
  by (auto simp: store_packet_def packet_bytes_def split: if_splits)

lemma packet_done_ok:
  assumes "packet_done ms = Some ms'" "length (mouse_buf ms) = MOUSE_BUF_SIZE" "mouse_head ms < MOUSE_BUF_SIZE" "mouse_tail ms < MOUSE_BUF_SIZE"
    "length (pkt_bytes ms) = 3"
  shows "mouse_ok ms' \<and> on_screen ms'"
  using assms
  by (auto simp: packet_done_def Let_def mouse_ok_def on_screen_def clamp_bounds MOUSE_BUF_SIZE_def dest: store_packet_length
      split: option.splits if_splits)

lemma mouse_handler_ok:
  assumes "mouse_ok ms" "on_screen ms" "mouse_handler data (ms, tr) = Some (ms', tr')"
  shows "mouse_ok ms' \<and> on_screen ms'"
proof -
  define m1 where "m1 = ms\<lparr>packet_idx := (if data \<in> {0xFA, 0xFE, 0xFF} then 0 else packet_idx ms)\<rparr>"
  have m1: "mouse_ok m1" "on_screen m1" using assms(1,2) by (simp_all add: m1_def mouse_ok_def on_screen_def)
  define m2 where "m2 = m1\<lparr>pkt_bytes := (pkt_bytes m1)[packet_idx m1 := data], packet_idx := packet_idx m1 + 1\<rparr>"
  have "(if data = 0xFA then ms\<lparr>packet_idx := 0\<rparr> else if data = 0xFE then ms\<lparr>packet_idx := 0\<rparr>
      else if data = 0xFF then ms\<lparr>packet_idx := 0\<rparr> else ms) = m1" by (simp add: m1_def)
  then have h: "mouse_handler data (ms, tr) = (if (data AND 0x08) = 0 then Some (m1, tr)
      else if packet_idx m2 \<ge> 3 then (case packet_done m2 of None \<Rightarrow> None | Some x \<Rightarrow> Some (x, outb 0x20 0x20 tr))
      else Some (m2, outb 0x20 0x20 tr))"
    unfolding mouse_handler_def Let_def m2_def by simp
  have m2: "length (mouse_buf m2) = MOUSE_BUF_SIZE" "mouse_head m2 < MOUSE_BUF_SIZE" "mouse_tail m2 < MOUSE_BUF_SIZE"
    "length (pkt_bytes m2) = 3" "on_screen m2"
    using m1 by (simp_all add: m2_def mouse_ok_def on_screen_def)
  show ?thesis
    using assms(3) m1 m2 packet_done_ok [OF _ m2(1-4)] unfolding h
    by (auto simp: mouse_ok_def split: if_splits option.splits)
qed

section \<open>Packets\<close>

primrec mouse_feed :: "u8 list \<Rightarrow> mouse \<times> port_trace \<Rightarrow> (mouse \<times> port_trace) option" where
  "mouse_feed [] s = Some s"
| "mouse_feed (b # bs) s = (case mouse_handler b s of None \<Rightarrow> None | Some s \<Rightarrow> mouse_feed bs s)"

lemma mouse_feed_ok:
  assumes "mouse_ok ms" "on_screen ms" "mouse_feed bs (ms, tr) = Some (ms', tr')"
  shows "mouse_ok ms' \<and> on_screen ms'"
  using assms
proof (induction bs arbitrary: ms tr)
  case (Cons b bs)
  then obtain m1 t1 where "mouse_handler b (ms, tr) = Some (m1, t1)" "mouse_feed bs (m1, t1) = Some (ms', tr')"
    by (auto split: option.splits)
  then show ?case using Cons.IH [of m1 t1] mouse_handler_ok [OF Cons.prems(1,2)] by blast
qed simp

text \<open>A byte the handler takes as part of a packet.\<close>

definition packet_byte :: "u8 \<Rightarrow> bool" where
  "packet_byte b \<longleftrightarrow> (b AND 0x08) \<noteq> 0 \<and> b \<notin> {0xFA, 0xFE, 0xFF}"

lemma mouse_feed_packet:
  assumes "packet_byte b0" "packet_byte b1" "packet_byte b2" "length (pkt_bytes ms) = 3" "packet_idx ms = 0"
  shows "mouse_feed [b0, b1, b2] (ms, tr) = (case packet_done (ms\<lparr>pkt_bytes := [b0, b1, b2], packet_idx := 3\<rparr>) of
    None \<Rightarrow> None | Some ms \<Rightarrow> Some (ms, tr @ [(0x20, 0x20), (0x20, 0x20), (0x20, 0x20)]))"
proof -
  obtain x y z where l: "pkt_bytes ms = [x, y, z]" using assms(4) by (auto simp: numeral_3_eq_3 length_Suc_conv)
  have h: "mouse_handler b (m, t) =
      (let m = m\<lparr>pkt_bytes := (pkt_bytes m)[packet_idx m := b], packet_idx := packet_idx m + 1\<rparr> in
       if packet_idx m \<ge> 3 then (case packet_done m of None \<Rightarrow> None | Some m \<Rightarrow> Some (m, outb 0x20 0x20 t))
       else Some (m, outb 0x20 0x20 t))" if "packet_byte b" for b m t
    using that by (simp add: mouse_handler_def packet_byte_def Let_def)
  show ?thesis using assms(1-3,5) l by (simp add: h outb_def numeral_3_eq_3 split: option.splits)
qed

lemma load_store_packet: "store_packet i p buf = Some buf' \<Longrightarrow> load_packet i buf' = Some p"
  by (auto simp: store_packet_def load_packet_def packet_bytes_def nth_append split: if_splits)

text \<open>With an empty queue and room at the end of the buffer, a packet is read back as it was sent.\<close>

lemma packet_read_back:
  assumes "mouse_ok ms" "packet_byte b0" "packet_byte b1" "packet_byte b2" "packet_idx ms = 0"
    and "mouse_head ms = mouse_tail ms" "mouse_head ms + 4 \<le> MOUSE_BUF_SIZE"
  shows "\<exists>ms' tr' ms''. mouse_feed [b0, b1, b2] (ms, tr) = Some (ms', tr')
    \<and> mouse_get_packet True ms' = Some (ms'', 1, Some \<lparr>movement_x = word_of_int (movement 0x10 b0 b1),
        movement_y = word_of_int (movement 0x20 b0 b2), movement_z = 0, pkt_buttons = b0 AND 0x07\<rparr>)
    \<and> mouse_available ms'' = 0"
proof -
  let ?m = "ms\<lparr>pkt_bytes := [b0, b1, b2], packet_idx := 3\<rparr>"
  define p where "p = \<lparr>movement_x = word_of_int (movement 0x10 b0 b1), movement_y = word_of_int (movement 0x20 b0 b2), movement_z = 0, pkt_buttons = b0 AND 0x07\<rparr>"
  have len: "length (mouse_buf ms) = MOUSE_BUF_SIZE" "length (pkt_bytes ms) = 3" using assms(1) by (simp_all add: mouse_ok_def)
  obtain buf where buf: "store_packet (mouse_head ms) p (mouse_buf ms) = Some buf" using assms(7) len(1) by (simp add: store_packet_def)
  have nx: "(mouse_head ms + 1) mod MOUSE_BUF_SIZE = mouse_head ms + 1" using assms(7) by (simp add: MOUSE_BUF_SIZE_def)
  obtain m' where d: "packet_done ?m = Some m'" "mouse_buf m' = buf" "mouse_head m' = mouse_head ms + 1" "mouse_tail m' = mouse_tail ms"
    using buf nx assms(6) by (simp add: packet_done_def Let_def p_def)
  have "mouse_get_packet True m' = Some (m'\<lparr>mouse_tail := mouse_head ms + 1\<rparr>, 1, Some p)"
    using load_store_packet [OF buf] assms(6) nx d by (simp add: mouse_get_packet_def)
  moreover have "mouse_available (m'\<lparr>mouse_tail := mouse_head ms + 1\<rparr>) = 0" by (simp add: mouse_available_def d)
  ultimately show ?thesis
    using mouse_feed_packet [OF assms(2-4) len(2) assms(5)] d(1) by (auto simp: p_def)
qed

section \<open>A stream of bytes\<close>

text \<open>
  The specification of what the driver makes of the bytes from the controller: which bytes it keeps (those with bit 3 set), where it
  starts anew (at \<open>0xFA\<close>, \<open>0xFE\<close> and \<open>0xFF\<close>), the packets of three that result, and what a packet does to the position and
  the buttons. \<open>acc\<close> are the bytes of the packet that has begun.
\<close>

fun assemble :: "u8 list \<Rightarrow> u8 list \<Rightarrow> (u8 \<times> u8 \<times> u8) list" where
  "assemble acc [] = []"
| "assemble acc (b # bs) =
     (let acc = (if b \<in> {0xFA, 0xFE, 0xFF} then [] else acc) in
      if (b AND 0x08) = 0 then assemble acc bs
      else case acc of [x, y] \<Rightarrow> (x, y, b) # assemble [] bs | _ \<Rightarrow> assemble (acc @ [b]) bs)"

declare assemble.simps(2) [simp del]

definition move :: "u8 \<times> u8 \<times> u8 \<Rightarrow> int \<times> int \<times> int \<Rightarrow> int \<times> int \<times> int" where
  "move p s = (case p of (b0, b1, b2) \<Rightarrow> case s of (x, y, _) \<Rightarrow>
     (clamp 799 (x + movement 0x10 b0 b1), clamp 599 (y - movement 0x20 b0 b2), uint (b0 AND 0x07)))"

definition pointer :: "mouse \<Rightarrow> int \<times> int \<times> int" where
  "pointer ms = (mouse_x ms, mouse_y ms, mouse_buttons ms)"

lemma movement_range: "\<bar>movement sg b0 b\<bar> \<le> 256"
  using uint_bounded [of b] uint_ge_0 [of b] by (auto simp: movement_def)

lemma packet_done_moves:
  assumes "on_screen ms" "mouse_head ms + 4 \<le> MOUSE_BUF_SIZE" "length (mouse_buf ms) = MOUSE_BUF_SIZE" "pkt_bytes ms = [b0, b1, b2]"
  shows "\<exists>ms'. packet_done ms = Some ms' \<and> pointer ms' = move (b0, b1, b2) (pointer ms) \<and> packet_idx ms' = 0
    \<and> pkt_bytes ms' = pkt_bytes ms \<and> mouse_head ms' \<le> mouse_head ms + 1"
proof -
  have "c_int (mouse_x ms + movement 0x10 b0 b1) = mouse_x ms + movement 0x10 b0 b1"
    "c_int (mouse_y ms - movement 0x20 b0 b2) = mouse_y ms - movement 0x20 b0 b2"
    using assms(1) movement_range [of "0x10" b0 b1] movement_range [of "0x20" b0 b2] by (auto intro!: c_int_small simp: on_screen_def)
  moreover have "(mouse_head ms + 1) mod MOUSE_BUF_SIZE = mouse_head ms + 1" using assms(2) by (simp add: MOUSE_BUF_SIZE_def)
  ultimately show ?thesis using assms(2-4) by (simp add: packet_done_def Let_def store_packet_def pointer_def move_def)
qed

text \<open>
  A byte of the stream: it is dropped, kept, or completes a packet; \<open>acc\<close> is what the driver holds of the packet that has begun.
\<close>

definition holds :: "u8 list \<Rightarrow> mouse \<Rightarrow> bool" where
  "holds acc ms \<longleftrightarrow> mouse_ok ms \<and> on_screen ms \<and> packet_idx ms = length acc \<and> take (length acc) (pkt_bytes ms) = acc"

lemma mouse_byte:
  fixes b :: u8
  assumes "holds acc ms"
  defines "a \<equiv> (if b \<in> {0xFA, 0xFE, 0xFF} then [] else acc)"
  shows "(b AND 0x08) = 0 \<Longrightarrow> \<exists>ms'. mouse_handler b (ms, tr) = Some (ms', tr) \<and> holds a ms' \<and> pointer ms' = pointer ms \<and> mouse_head ms' = mouse_head ms"
    and "(b AND 0x08) \<noteq> 0 \<Longrightarrow> length a < 2 \<Longrightarrow> \<exists>ms'. mouse_handler b (ms, tr) = Some (ms', outb 0x20 0x20 tr) \<and> holds (a @ [b]) ms'
      \<and> pointer ms' = pointer ms \<and> mouse_head ms' = mouse_head ms"
    and "(b AND 0x08) \<noteq> 0 \<Longrightarrow> a = [x, y] \<Longrightarrow> mouse_head ms + 4 \<le> MOUSE_BUF_SIZE \<Longrightarrow> \<exists>ms'. mouse_handler b (ms, tr) = Some (ms', outb 0x20 0x20 tr) \<and> holds [] ms'
      \<and> pointer ms' = move (x, y, b) (pointer ms) \<and> mouse_head ms' \<le> mouse_head ms + 1"
proof -
  define m1 where "m1 = ms\<lparr>packet_idx := length a\<rparr>"
  have m1: "holds a m1" "pointer m1 = pointer ms" "mouse_head m1 = mouse_head ms"
    using assms(1) by (auto simp: m1_def a_def holds_def mouse_ok_def on_screen_def pointer_def)
  have ms: "(if b = 0xFA then ms\<lparr>packet_idx := 0\<rparr> else if b = 0xFE then ms\<lparr>packet_idx := 0\<rparr>
      else if b = 0xFF then ms\<lparr>packet_idx := 0\<rparr> else ms) = m1" using assms(1) by (simp add: m1_def a_def holds_def)
  define m2 where "m2 = m1\<lparr>pkt_bytes := (pkt_bytes m1)[packet_idx m1 := b], packet_idx := packet_idx m1 + 1\<rparr>"
  have h: "mouse_handler b (ms, tr) = (if (b AND 0x08) = 0 then Some (m1, tr)
      else if packet_idx m2 \<ge> 3 then (case packet_done m2 of None \<Rightarrow> None | Some x \<Rightarrow> Some (x, outb 0x20 0x20 tr))
      else Some (m2, outb 0x20 0x20 tr))"
    unfolding mouse_handler_def case_prod_conv ms Let_def m2_def by simp
  show "\<exists>ms'. mouse_handler b (ms, tr) = Some (ms', tr) \<and> holds a ms' \<and> pointer ms' = pointer ms \<and> mouse_head ms' = mouse_head ms"
    if "(b AND 0x08) = 0" using h that m1 by simp
  have idx: "packet_idx m1 = length a" "length (pkt_bytes m1) = 3" "take (length a) (pkt_bytes m1) = a"
    using m1(1) by (simp_all add: holds_def mouse_ok_def)
  have len: "length (mouse_buf ms) = MOUSE_BUF_SIZE" "mouse_head ms < MOUSE_BUF_SIZE" "mouse_tail ms < MOUSE_BUF_SIZE"
    using assms(1) by (simp_all add: holds_def mouse_ok_def)
  have m2: "length (mouse_buf m2) = MOUSE_BUF_SIZE" "mouse_head m2 = mouse_head ms" "mouse_tail m2 = mouse_tail ms"
    "length (pkt_bytes m2) = 3" "on_screen m2" "pointer m2 = pointer ms" "take (Suc (length a)) (pkt_bytes m2) = a @ [b]"
    if "length a < 3"
    using len m1 idx assms(1) that by (simp_all add: m2_def m1_def on_screen_def pointer_def holds_def take_Suc_conv_app_nth)
  show "\<exists>ms'. mouse_handler b (ms, tr) = Some (ms', outb 0x20 0x20 tr) \<and> holds (a @ [b]) ms' \<and> pointer ms' = pointer ms \<and> mouse_head ms' = mouse_head ms"
    if "(b AND 0x08) \<noteq> 0" "length a < 2"
    using h that m2 idx len by (intro exI [of _ m2]) (simp_all add: holds_def mouse_ok_def, simp add: m2_def)
  show "\<exists>ms'. mouse_handler b (ms, tr) = Some (ms', outb 0x20 0x20 tr) \<and> holds [] ms' \<and> pointer ms' = move (x, y, b) (pointer ms)
      \<and> mouse_head ms' \<le> mouse_head ms + 1"
    if b: "(b AND 0x08) \<noteq> 0" and a: "a = [x, y]" and room: "mouse_head ms + 4 \<le> MOUSE_BUF_SIZE"
  proof -
    note m2 = m2 [unfolded a, simplified]
    have p: "pkt_bytes m2 = [x, y, b]" "packet_idx m2 = 3" using m2(4,7) idx(1) a by (simp_all add: m2_def)
    obtain m3 where m3: "packet_done m2 = Some m3" "pointer m3 = move (x, y, b) (pointer m2)" "packet_idx m3 = 0"
      "pkt_bytes m3 = pkt_bytes m2" "mouse_head m3 \<le> mouse_head m2 + 1"
      using packet_done_moves [OF m2(5) _ m2(1) p(1)] room m2(2) by auto
    have "mouse_ok m3 \<and> on_screen m3" by (rule packet_done_ok [OF m3(1)]) (use m2 len in simp_all)
    then show ?thesis using h b p m2 m3 by (simp add: holds_def)
  qed
qed

lemma assemble_step:
  fixes b :: u8
  assumes "length acc < 3"
  defines "a \<equiv> (if b \<in> {0xFA, 0xFE, 0xFF} then [] else acc)"
  obtains (dropped) "(b AND 0x08) = 0" "assemble acc (b # bs) = assemble a bs"
    | (begun) "(b AND 0x08) \<noteq> 0" "length a < 2" "assemble acc (b # bs) = assemble (a @ [b]) bs"
    | (done3) x y where "(b AND 0x08) \<noteq> 0" "a = [x, y]" "assemble acc (b # bs) = (x, y, b) # assemble [] bs"
proof -
  have u: "assemble acc (b # bs) = (if (b AND 0x08) = 0 then assemble a bs
      else case a of [x, y] \<Rightarrow> (x, y, b) # assemble [] bs | _ \<Rightarrow> assemble (a @ [b]) bs)"
    unfolding assemble.simps Let_def a_def by (rule refl)
  have "length a < 3" using assms(1) by (simp add: a_def)
  then consider "length a < 2" | x y where "a = [x, y]" by (auto simp: numeral_3_eq_3 numeral_2_eq_2 less_Suc_eq length_Suc_conv)
  then show thesis
  proof cases
    case 1
    then have "(case a of [x, y] \<Rightarrow> (x, y, b) # assemble [] bs | _ \<Rightarrow> assemble (a @ [b]) bs) = assemble (a @ [b]) bs"
      by (auto split: list.splits)
    then show thesis using dropped begun u 1 by (cases "(b AND 0x08) = 0") simp_all
  next
    case 2
    then show thesis using dropped done3 u by (cases "(b AND 0x08) = 0") simp_all
  qed
qed

lemma mouse_stream:
  "holds acc ms \<Longrightarrow> length acc < 3 \<Longrightarrow> mouse_head ms + length (assemble acc bs) \<le> 125 \<Longrightarrow>
    \<exists>ms'. mouse_feed bs (ms, tr) = Some (ms', tr @ replicate (length (filter (\<lambda>b. (b AND 0x08) \<noteq> 0) bs)) (0x20, 0x20))
      \<and> mouse_ok ms' \<and> on_screen ms' \<and> pointer ms' = fold move (assemble acc bs) (pointer ms)"
proof (induction bs arbitrary: acc ms tr)
  case Nil
  then show ?case by (simp add: holds_def)
next
  case (Cons b bs)
  define a where "a = (if b \<in> {0xFA, 0xFE, 0xFF} then [] else acc)"
  have la: "length a < 3" using Cons.prems(2) by (simp add: a_def)
  note byte = mouse_byte [OF Cons.prems(1), of b, folded a_def]
  have ack: "outb 0x20 0x20 tr @ replicate n (0x20, 0x20) = tr @ replicate (Suc n) (0x20, 0x20)" for n by (simp add: outb_def)
  from Cons.prems(2) show ?case
  proof (cases rule: assemble_step [where acc = acc and b = b and bs = bs, folded a_def, consumes 1, case_names dropped begun done3])
    case dropped
    obtain m1 where "mouse_handler b (ms, tr) = Some (m1, tr)" "holds a m1" "pointer m1 = pointer ms" "mouse_head m1 = mouse_head ms"
      using byte(1) [OF dropped(1), of tr] by blast
    then show ?thesis using Cons.IH [of a m1 tr] la Cons.prems(3) dropped by simp
  next
    case begun
    obtain m1 where "mouse_handler b (ms, tr) = Some (m1, outb 0x20 0x20 tr)" "holds (a @ [b]) m1" "pointer m1 = pointer ms" "mouse_head m1 = mouse_head ms"
      using byte(2) [OF begun(1,2), of tr] by blast
    then show ?thesis using Cons.IH [of "a @ [b]" m1 "outb 0x20 0x20 tr"] Cons.prems(3) begun by (simp add: ack)
  next
    case (done3 x y)
    have room: "mouse_head ms + 4 \<le> MOUSE_BUF_SIZE" using Cons.prems(3) done3(3) by (simp add: MOUSE_BUF_SIZE_def)
    obtain m1 where "mouse_handler b (ms, tr) = Some (m1, outb 0x20 0x20 tr)" "holds [] m1" "pointer m1 = move (x, y, b) (pointer ms)"
      "mouse_head m1 \<le> mouse_head ms + 1"
      using byte(3) [OF done3(1,2) room, of tr] by blast
    then show ?thesis using Cons.IH [of "[]" m1 "outb 0x20 0x20 tr"] Cons.prems(3) done3 by (simp add: ack)
  qed
qed

text \<open>
  C36: the pointer follows the bytes the driver accepts. From a consistent state with the pointer on the screen, at the start of a
  packet, and as long as the head of the packet buffer stays below its last three slots, any stream of bytes is handled: position and
  buttons are those that the packets assembled from the stream give one after the other, the movements of nine bits being added,
  up negative, and cut to 800 by 600; only bytes with bit 3 set take part and are acknowledged, all others are dropped.
\<close>

theorem mouse_tracks:
  assumes "mouse_ok ms" "on_screen ms" "packet_idx ms = 0" "mouse_head ms + length (assemble [] bs) \<le> 125"
  shows "\<exists>ms'. mouse_feed bs (ms, tr) = Some (ms', tr @ replicate (length (filter (\<lambda>b. (b AND 0x08) \<noteq> 0) bs)) (0x20, 0x20))
    \<and> mouse_ok ms' \<and> on_screen ms' \<and> (mouse_get_position ms', mouse_get_buttons ms')
      = (case fold move (assemble [] bs) (mouse_x ms, mouse_y ms, mouse_buttons ms) of (x, y, b) \<Rightarrow> ((x, y), b))"
proof -
  have "holds [] ms" using assms(1-3) by (simp add: holds_def)
  from mouse_stream [OF this _ assms(4), of tr] obtain ms' where
    m: "mouse_feed bs (ms, tr) = Some (ms', tr @ replicate (length (filter (\<lambda>b. (b AND 0x08) \<noteq> 0) bs)) (0x20, 0x20))"
      "mouse_ok ms'" "on_screen ms'" "pointer ms' = fold move (assemble [] bs) (pointer ms)" by auto
  have "fold move (assemble [] bs) (mouse_x ms, mouse_y ms, mouse_buttons ms) = (mouse_x ms', mouse_y ms', mouse_buttons ms')"
    using m(4) by (simp add: pointer_def)
  then show ?thesis using m(1-3) by (simp add: mouse_get_position_def mouse_get_buttons_def)
qed

definition demo_mouse :: mouse where
  "demo_mouse = \<lparr>mouse_buf = replicate 128 0, mouse_head = 0, mouse_tail = 0, mouse_x = 400, mouse_y = 300, mouse_buttons = 0,
     cursor_visible = 1, mouse_initialized = True, pkt_bytes = [0, 0, 0], packet_idx = 0\<rparr>"

text \<open>A byte without bit 3, a packet, and the beginning of another.\<close>

theorem mouse_tracks_witness:
  "\<exists>ms' tr'. mouse_feed [0x01, 0x19, 0xF8, 0x0A, 0x08] (demo_mouse, []) = Some (ms', tr') \<and> mouse_get_position ms' = (392, 290)
    \<and> mouse_get_buttons ms' = 1 \<and> length tr' = 4"
proof -
  have a: "assemble [] [0x01, 0x19, 0xF8, 0x0A, 0x08] = [(0x19, 0xF8, 0x0A)]" by (simp add: assemble.simps(2))
  have "mouse_ok demo_mouse" "on_screen demo_mouse" "packet_idx demo_mouse = 0"
    by (simp_all add: mouse_ok_def on_screen_def demo_mouse_def MOUSE_BUF_SIZE_def)
  from mouse_tracks [OF this, of "[0x01, 0x19, 0xF8, 0x0A, 0x08]" "[]", unfolded a] show ?thesis
    by (auto simp: demo_mouse_def move_def movement_def clamp_def)
qed

text \<open>
  Two packets in the queue overlap: the first one is read back with its last three bytes replaced by those of the
  second. Near the end of the buffer a packet is stored past the array.
\<close>

lemma packets_overlap:
  assumes "store_packet h p buf = Some b1" "store_packet (h + 1) q b1 = Some b2"
  shows "load_packet h b2 = Some \<lparr>movement_x = movement_x p, movement_y = movement_x q, movement_z = movement_y q, pkt_buttons = movement_z q\<rparr>"
  using assms by (auto simp: store_packet_def load_packet_def packet_bytes_def nth_append nth_Cons' split: if_splits)

lemma mouse_overrun:
  assumes "length (mouse_buf ms) = MOUSE_BUF_SIZE" "MOUSE_BUF_SIZE < mouse_head ms + 4" "(mouse_head ms + 1) mod MOUSE_BUF_SIZE \<noteq> mouse_tail ms"
  shows "packet_done ms = None"
  using assms by (simp add: packet_done_def Let_def store_packet_def)

end
