(* ===== verification/Framebuffer.thy ===== *)
theory Framebuffer
  imports Complex_Main Eron_Prelude
begin

unbundle bit_operations_syntax

text \<open>
  The drawing library of \<^verbatim>\<open>src/src/kernel/framebuffer.c\<close>, which is compiled into the kernel and not yet called by it.
  Pixels are words of a byte-addressed memory. Coordinates are integers, and sums and products of them are reduced to 32 bits by
  \<open>c_int\<close>; the counters of loops stay between their bounds and are not. Reading the font behind its end is \<open>None\<close>. Lines are drawn with floating
  point steps. C leaves the precision of \<open>float\<close> expressions to the compiler, so rounding to a representable number is the
  argument \<open>rnd\<close>; that integers of at most 24 bits are representable is the hypothesis \<open>float_exact\<close>.
\<close>

section \<open>State\<close>

definition FB_FORMAT_BGRX8888 :: u32 where "FB_FORMAT_BGRX8888 = 2"

record framebuffer_info =
  fi_width :: u32
  fi_height :: u32
  fi_pitch :: u32
  fi_bpp :: u32
  fi_format :: u32
  fi_buffer :: u32
  fi_size :: u32
  fi_red_mask :: u32
  fi_green_mask :: u32
  fi_blue_mask :: u32
  fi_red_shift :: u32
  fi_green_shift :: u32
  fi_blue_shift :: u32

record framebuffer =
  fb_info :: framebuffer_info
  fb_initialized :: bool
  fb_mem :: memory

definition font_8x8 :: "u8 list" where
  "font_8x8 =
    [0x00, 0x00, 0x00, 0x00, 0x00, 0x00, 0x00, 0x00,
     0x18, 0x3C, 0x3C, 0x18, 0x18, 0x00, 0x18, 0x00,
     0x6E, 0x3B, 0x00, 0x00, 0x00, 0x00, 0x00, 0x00,
     0x00, 0x3E, 0x3C, 0x06, 0x1C, 0x30, 0x7E, 0x00,
     0x00, 0x18, 0x3C, 0x1E, 0x33, 0x33, 0x1E, 0x00,
     0x00, 0x06, 0x1C, 0x3E, 0x30, 0x1C, 0x06, 0x00,
     0x1C, 0x3E, 0x07, 0x00, 0x00, 0x00, 0x00, 0x00,
     0x00, 0x00, 0x00, 0x00, 0x03, 0x06, 0x00, 0x00,
     0x00, 0x18, 0x18, 0x18, 0x18, 0x18, 0x00, 0x00,
     0x00, 0x0C, 0x0C, 0x00, 0x00, 0x18, 0x18, 0x00,
     0x06, 0x1C, 0x30, 0x30, 0x30, 0x1C, 0x06, 0x00,
     0x00, 0x00, 0x33, 0x33, 0x00, 0x00, 0x00, 0x00,
     0x00, 0x00, 0x03, 0x06, 0x0C, 0x18, 0x00, 0x00,
     0x00, 0x3E, 0x3E, 0x3E, 0x3E, 0x3E, 0x00, 0x00,
     0x00, 0x00, 0x00, 0x00, 0x00, 0x03, 0x06, 0x00,
     0x60, 0x30, 0x18, 0x0C, 0x06, 0x03, 0x00, 0x00,
     0x3E, 0x63, 0x73, 0x7B, 0x6F, 0x67, 0x3E, 0x00,
     0x18, 0x38, 0x18, 0x18, 0x18, 0x18, 0x7E, 0x00,
     0x7E, 0x03, 0x1E, 0x03, 0x7E, 0x00, 0x00, 0x00,
     0x7E, 0x1F, 0x03, 0x1E, 0x03, 0x03, 0x1E, 0x00,
     0x06, 0x1E, 0x33, 0x33, 0x3F, 0x30, 0x00, 0x00,
     0x3F, 0x30, 0x06, 0x1C, 0x03, 0x7E, 0x00, 0x00,
     0x1E, 0x33, 0x33, 0x1E, 0x33, 0x33, 0x1E, 0x00,
     0x00, 0x18, 0x18, 0x7E, 0x00, 0x00, 0x00, 0x00,
     0x00, 0x18, 0x18, 0x00, 0x00, 0x18, 0x18, 0x00,
     0x03, 0x06, 0x0C, 0x18, 0x30, 0x30, 0x00, 0x00,
     0x00, 0x00, 0x7E, 0x00, 0x00, 0x00, 0x00, 0x00,
     0x00, 0x00, 0x00, 0x00, 0x18, 0x18, 0x00, 0x00,
     0x07, 0x1C, 0x30, 0x30, 0x30, 0x1C, 0x07, 0x00,
     0x3F, 0x33, 0x33, 0x33, 0x33, 0x33, 0x33, 0x00,
     0x1E, 0x33, 0x33, 0x33, 0x33, 0x33, 0x1E, 0x00,
     0x7E, 0x33, 0x33, 0x33, 0x33, 0x33, 0x33, 0x00,
     0x3E, 0x33, 0x33, 0x3E, 0x33, 0x33, 0x3E, 0x00,
     0x03, 0x1F, 0x33, 0x33, 0x3F, 0x30, 0x00, 0x00,
     0x3E, 0x33, 0x33, 0x1F, 0x03, 0x03, 0x1E, 0x00,
     0x7E, 0x33, 0x33, 0x33, 0x33, 0x33, 0x33, 0x00,
     0x03, 0x03, 0x03, 0x03, 0x03, 0x03, 0x7E, 0x00,
     0x33, 0x33, 0x33, 0x33, 0x33, 0x33, 0x1E, 0x00,
     0x33, 0x33, 0x33, 0x33, 0x1E, 0x0C, 0x06, 0x00,
     0x33, 0x33, 0x33, 0x33, 0x1F, 0x03, 0x00, 0x00,
     0x7E, 0x06, 0x1C, 0x30, 0x30, 0x1C, 0x06, 0x00,
     0x7E, 0x03, 0x03, 0x03, 0x03, 0x03, 0x03, 0x00,
     0x33, 0x33, 0x33, 0x33, 0x33, 0x33, 0x1E, 0x00,
     0x33, 0x33, 0x1E, 0x1E, 0x33, 0x33, 0x33, 0x00,
     0x33, 0x33, 0x1E, 0x0C, 0x0C, 0x18, 0x30, 0x00,
     0x7E, 0x06, 0x1C, 0x30, 0x30, 0x1C, 0x06, 0x00,
     0x7E, 0x03, 0x03, 0x03, 0x03, 0x03, 0x7E, 0x00]"

section \<open>Modes\<close>

definition fb_init :: "framebuffer \<Rightarrow> framebuffer" where
  "fb_init s =
     (let i = (fb_info s)\<lparr>fi_width := 800, fi_height := 600, fi_bpp := 32, fi_format := FB_FORMAT_BGRX8888, fi_buffer := 0\<rparr>;
          i = i\<lparr>fi_pitch := fi_width i * 4\<rparr>;
          i = i\<lparr>fi_size := fi_pitch i * fi_height i\<rparr>
      in s\<lparr>fb_info := i, fb_initialized := True\<rparr>)"

definition fb_set_mode :: "u32 \<Rightarrow> u32 \<Rightarrow> u32 \<Rightarrow> framebuffer \<Rightarrow> framebuffer \<times> int" where
  "fb_set_mode width height bpp s =
     (let s = (if \<not> fb_initialized s then fb_init s else s);
          i = (fb_info s)\<lparr>fi_width := width, fi_height := height, fi_bpp := bpp, fi_format := FB_FORMAT_BGRX8888\<rparr>;
          i = i\<lparr>fi_pitch := width * (bpp div 8)\<rparr>;
          i = i\<lparr>fi_size := fi_pitch i * height\<rparr>
      in (s\<lparr>fb_info := i\<rparr>, 0))"

definition fb_get_info :: "framebuffer \<Rightarrow> framebuffer_info" where
  "fb_get_info s = fb_info s"

section \<open>Pixels\<close>

definition off_screen :: "framebuffer_info \<Rightarrow> int \<Rightarrow> int \<Rightarrow> bool" where
  "off_screen i x y \<longleftrightarrow> x < 0 \<or> x \<ge> sint (fi_width i) \<or> y < 0 \<or> y \<ge> sint (fi_height i)"

definition pixel_addr :: "framebuffer_info \<Rightarrow> int \<Rightarrow> int \<Rightarrow> u32" where
  "pixel_addr i x y = fi_buffer i + word_of_int y * fi_pitch i + word_of_int (x * 4)"

definition fb_putpixel :: "int \<Rightarrow> int \<Rightarrow> u32 \<Rightarrow> framebuffer \<Rightarrow> framebuffer" where
  "fb_putpixel x y color s =
     (if off_screen (fb_info s) x y then s
      else if fi_buffer (fb_info s) = 0 then s
      else s\<lparr>fb_mem := store32 (fb_mem s) (pixel_addr (fb_info s) x y) color\<rparr>)"

definition fb_getpixel :: "int \<Rightarrow> int \<Rightarrow> framebuffer \<Rightarrow> u32" where
  "fb_getpixel x y s =
     (if off_screen (fb_info s) x y then 0
      else if fi_buffer (fb_info s) = 0 then 0
      else load32 (fb_mem s) (pixel_addr (fb_info s) x y))"

definition fb_clear :: "u32 \<Rightarrow> framebuffer \<Rightarrow> framebuffer" where
  "fb_clear color s =
     (if fi_buffer (fb_info s) = 0 then s
      else let p = fi_buffer (fb_info s); count = fi_size (fb_info s) div 4
           in s\<lparr>fb_mem := fold (\<lambda>i m. store32 m (p + 4 * word_of_nat i) color) [0..<unat count] (fb_mem s)\<rparr>)"

section \<open>Shapes\<close>

definition fb_fill_rect :: "int \<Rightarrow> int \<Rightarrow> int \<Rightarrow> int \<Rightarrow> u32 \<Rightarrow> framebuffer \<Rightarrow> framebuffer" where
  "fb_fill_rect x y w h color s = fold (\<lambda>j. fold (\<lambda>i. fb_putpixel i j color) [x..c_int (x + w) - 1]) [y..c_int (y + h) - 1] s"

text \<open>
  The cast of a floating point number to \<open>int\<close>, and the loop of \<open>fb_draw_line\<close> with the number of rounds left. Every
  conversion, quotient and sum is rounded.
\<close>

definition float_to_int :: "rat \<Rightarrow> int" where
  "float_to_int q = (if 0 \<le> q then \<lfloor>q\<rfloor> else \<lceil>q\<rceil>)"

primrec line_loop :: "(rat \<Rightarrow> rat) \<Rightarrow> u32 \<Rightarrow> rat \<Rightarrow> rat \<Rightarrow> nat \<Rightarrow> rat \<Rightarrow> rat \<Rightarrow> framebuffer \<Rightarrow> framebuffer" where
  "line_loop rnd color xinc yinc 0 x y s = s"
| "line_loop rnd color xinc yinc (Suc n) x y s =
     (let s = fb_putpixel (float_to_int x) (float_to_int y) color s
      in line_loop rnd color xinc yinc n (rnd (x + xinc)) (rnd (y + yinc)) s)"

definition fb_draw_line :: "(rat \<Rightarrow> rat) \<Rightarrow> int \<Rightarrow> int \<Rightarrow> int \<Rightarrow> int \<Rightarrow> u32 \<Rightarrow> framebuffer \<Rightarrow> framebuffer" where
  "fb_draw_line rnd x0 y0 x1 y1 color s =
     (let dx = c_int (x1 - x0); dy = c_int (y1 - y0);
          dx = (if dx < 0 then c_int (- dx) else dx);
          dy = (if dy < 0 then c_int (- dy) else dy);
          steps = (if dx > dy then dx else dy)
      in if steps = 0 then fb_putpixel x0 y0 color s
         else let xinc = rnd (rnd (of_int (c_int (x1 - x0))) / rnd (of_int steps));
                  yinc = rnd (rnd (of_int (c_int (y1 - y0))) / rnd (of_int steps))
              in line_loop rnd color xinc yinc (nat steps + 1) (rnd (of_int x0)) (rnd (of_int y0)) s)"

definition fb_draw_rect :: "(rat \<Rightarrow> rat) \<Rightarrow> int \<Rightarrow> int \<Rightarrow> int \<Rightarrow> int \<Rightarrow> u32 \<Rightarrow> framebuffer \<Rightarrow> framebuffer" where
  "fb_draw_rect rnd x y w h color s =
     (let s = fb_draw_line rnd x y (c_int (x + w - 1)) y color s;
          s = fb_draw_line rnd x (c_int (y + h - 1)) (c_int (x + w - 1)) (c_int (y + h - 1)) color s;
          s = fb_draw_line rnd x y x (c_int (y + h - 1)) color s
      in fb_draw_line rnd (c_int (x + w - 1)) y (c_int (x + w - 1)) (c_int (y + h - 1)) color s)"

text \<open>The eight points of a round of \<open>fb_draw_circle\<close>, and its loop.\<close>

definition circle_points :: "int \<Rightarrow> int \<Rightarrow> u32 \<Rightarrow> int \<Rightarrow> int \<Rightarrow> framebuffer \<Rightarrow> framebuffer" where
  "circle_points cx cy color x y s =
     (let s = fb_putpixel (c_int (cx + x)) (c_int (cy + y)) color s;
          s = fb_putpixel (c_int (cx + y)) (c_int (cy + x)) color s;
          s = fb_putpixel (c_int (cx - y)) (c_int (cy + x)) color s;
          s = fb_putpixel (c_int (cx - x)) (c_int (cy + y)) color s;
          s = fb_putpixel (c_int (cx - x)) (c_int (cy - y)) color s;
          s = fb_putpixel (c_int (cx - y)) (c_int (cy - x)) color s;
          s = fb_putpixel (c_int (cx + y)) (c_int (cy - x)) color s
      in fb_putpixel (c_int (cx + x)) (c_int (cy - y)) color s)"

function circle_loop :: "int \<Rightarrow> int \<Rightarrow> u32 \<Rightarrow> int \<Rightarrow> int \<Rightarrow> int \<Rightarrow> framebuffer \<Rightarrow> framebuffer" where
  "circle_loop cx cy color x y err s =
     (if x \<ge> y then
        let s = circle_points cx cy color x y s;
            y = y + 1;
            err = c_int (err + (1 + 2 * y))
        in if c_int (2 * (err - x) + 1) > 0
           then circle_loop cx cy color (x - 1) y (c_int (err + (1 + 2 * (x - 1 - y)))) s
           else circle_loop cx cy color x y err s
      else s)"
  by pat_completeness auto
termination by (relation "measure (\<lambda>(cx, cy, color, x, y, err, s). nat (x - y + 1))") auto

declare circle_loop.simps [simp del]

definition fb_draw_circle :: "int \<Rightarrow> int \<Rightarrow> int \<Rightarrow> u32 \<Rightarrow> framebuffer \<Rightarrow> framebuffer" where
  "fb_draw_circle cx cy r color s = circle_loop cx cy color r 0 0 s"

definition fb_draw_filled_circle :: "int \<Rightarrow> int \<Rightarrow> int \<Rightarrow> u32 \<Rightarrow> framebuffer \<Rightarrow> framebuffer" where
  "fb_draw_filled_circle cx cy r color s =
     fold (\<lambda>yr. fold (\<lambda>xr s. if c_int (xr * xr + yr * yr) \<le> c_int (r * r) then fb_putpixel (c_int (cx + xr)) (c_int (cy + yr)) color s else s)
       [c_int (- r)..r]) [c_int (- r)..r] s"

section \<open>Text\<close>

text \<open>One row of a character.\<close>

definition draw_row :: "int \<Rightarrow> int \<Rightarrow> u8 \<Rightarrow> u32 \<Rightarrow> u32 \<Rightarrow> nat \<Rightarrow> framebuffer \<Rightarrow> framebuffer" where
  "draw_row x y line fg bg row s =
     fold (\<lambda>col s. if (line AND drop_bit col 0x80) \<noteq> 0 then fb_putpixel (c_int (x + int col)) (c_int (y + int row)) fg s
                   else if bg \<noteq> 0 then fb_putpixel (c_int (x + int col)) (c_int (y + int row)) bg s else s) [0..<8] s"

primrec char_rows :: "int \<Rightarrow> int \<Rightarrow> nat \<Rightarrow> u32 \<Rightarrow> u32 \<Rightarrow> nat list \<Rightarrow> framebuffer \<Rightarrow> framebuffer option" where
  "char_rows x y idx fg bg [] s = Some s"
| "char_rows x y idx fg bg (row # rows) s =
     (if idx + row < length font_8x8 then char_rows x y idx fg bg rows (draw_row x y (font_8x8 ! (idx + row)) fg bg row s) else None)"

definition fb_draw_char :: "int \<Rightarrow> int \<Rightarrow> char \<Rightarrow> u32 \<Rightarrow> u32 \<Rightarrow> framebuffer \<Rightarrow> framebuffer option" where
  "fb_draw_char x y c fg bg s =
     (let idx = (if of_char c < (128 :: int) then of_char c else of_char c - 256) * 8 in
      if idx < 0 \<or> idx \<ge> 2048 then Some s else char_rows x y (nat idx) fg bg [0..<8] s)"

fun draw_string_loop :: "int \<Rightarrow> int \<Rightarrow> int \<Rightarrow> string \<Rightarrow> u32 \<Rightarrow> u32 \<Rightarrow> framebuffer \<Rightarrow> framebuffer option" where
  "draw_string_loop x px y [] fg bg s = Some s"
| "draw_string_loop x px y (c # cs) fg bg s =
     (if c = CHR 0x0A then draw_string_loop x x (c_int (y + 10)) cs fg bg s
      else case fb_draw_char px y c fg bg s of None \<Rightarrow> None | Some s \<Rightarrow> draw_string_loop x (c_int (px + 8)) y cs fg bg s)"

definition fb_draw_string :: "int \<Rightarrow> int \<Rightarrow> string \<Rightarrow> u32 \<Rightarrow> u32 \<Rightarrow> framebuffer \<Rightarrow> framebuffer option" where
  "fb_draw_string x y str fg bg s = draw_string_loop x x y str fg bg s"

definition fb_swap :: "framebuffer \<Rightarrow> framebuffer" where
  "fb_swap s = s"

definition fb_make_rgb :: "u8 \<Rightarrow> u8 \<Rightarrow> u8 \<Rightarrow> u32" where
  "fb_make_rgb r g b = push_bit 16 (ucast r) OR push_bit 8 (ucast g) OR ucast b"

definition fb_make_rgba :: "u8 \<Rightarrow> u8 \<Rightarrow> u8 \<Rightarrow> u8 \<Rightarrow> u32" where
  "fb_make_rgba r g b a = push_bit 16 (ucast r) OR push_bit 8 (ucast g) OR push_bit 24 (ucast a) OR ucast b"

section \<open>Pixels in memory\<close>

text \<open>A buffer that holds all rows of the screen and does not wrap around the end of the address space.\<close>

definition fb_fits :: "framebuffer_info \<Rightarrow> bool" where
  "fb_fits i \<longleftrightarrow> fi_buffer i \<noteq> 0 \<and> unat (fi_width i) < 2 ^ 31 \<and> unat (fi_height i) < 2 ^ 31 \<and> 4 * unat (fi_width i) \<le> unat (fi_pitch i)
     \<and> unat (fi_buffer i) + unat (fi_height i) * unat (fi_pitch i) \<le> 2 ^ 32"

lemma sint_small: "unat (w :: u32) < 2 ^ 31 \<Longrightarrow> sint w = int (unat w)"
proof -
  assume w: "unat w < 2 ^ 31"
  have u: "uint w = int (unat w)" by simp
  have "uint w < 2 ^ 31" using w unfolding u by (metis of_nat_less_iff of_nat_numeral of_nat_power)
  then have "signed_take_bit 31 (uint w) = uint w" using uint_ge_0 [of w] by (intro signed_take_bit_int_eq_self) linarith+
  then show ?thesis by (simp add: sint_uint)
qed

lemma on_screen_nat:
  assumes "fb_fits i" "\<not> off_screen i x y"
  obtains a b where "x = int a" "y = int b" "a < unat (fi_width i)" "b < unat (fi_height i)"
proof (rule that [of "nat x" "nat y"])
  have w: "sint (fi_width i) = int (unat (fi_width i))" "sint (fi_height i) = int (unat (fi_height i))"
    using assms(1) by (simp_all add: fb_fits_def sint_small)
  show "x = int (nat x)" "y = int (nat y)" "nat x < unat (fi_width i)" "nat y < unat (fi_height i)"
    using assms(2) nat_less_iff [of x "unat (fi_width i)"] nat_less_iff [of y "unat (fi_height i)"] unfolding off_screen_def w by auto
qed

lemma unat_pixel_addr:
  assumes "fb_fits i" "a < unat (fi_width i)" "b < unat (fi_height i)"
  shows "unat (pixel_addr i (int a) (int b)) = unat (fi_buffer i) + b * unat (fi_pitch i) + 4 * a"
    "unat (pixel_addr i (int a) (int b)) + 4 \<le> 2 ^ 32"
proof -
  let ?p = "unat (fi_pitch i)"
  have "b * ?p + 4 * a + 4 \<le> (b + 1) * ?p" using assms by (simp add: fb_fits_def)
  also have "\<dots> \<le> unat (fi_height i) * ?p" using assms(3) by (intro mult_right_mono) simp_all
  finally have le: "unat (fi_buffer i) + b * ?p + 4 * a + 4 \<le> 2 ^ 32" using assms(1) by (simp add: fb_fits_def)
  have "pixel_addr i (int a) (int b) = word_of_nat (unat (fi_buffer i) + b * ?p + 4 * a)"
    by (simp add: pixel_addr_def)
  then show "unat (pixel_addr i (int a) (int b)) = unat (fi_buffer i) + b * ?p + 4 * a" using le unat_of_nat_u32 [of "unat (fi_buffer i) + b * ?p + 4 * a"] by (simp only:)
  then show "unat (pixel_addr i (int a) (int b)) + 4 \<le> 2 ^ 32" using le by simp
qed

lemma pixel_addr_apart:
  assumes "fb_fits i" "a < unat (fi_width i)" "b < unat (fi_height i)" "c < unat (fi_width i)" "d < unat (fi_height i)" "(a, b) \<noteq> (c, d)"
  shows "unat (pixel_addr i (int a) (int b)) + 4 \<le> unat (pixel_addr i (int c) (int d))
    \<or> unat (pixel_addr i (int c) (int d)) + 4 \<le> unat (pixel_addr i (int a) (int b))"
proof -
  let ?p = "unat (fi_pitch i)"
  have row: "m * ?p + 4 * k + 4 \<le> n * ?p" if "m < n" "k < unat (fi_width i)" for m n k
  proof -
    have "m * ?p + 4 * k + 4 \<le> (m + 1) * ?p" using assms(1) that(2) by (simp add: fb_fits_def)
    also have "\<dots> \<le> n * ?p" using that(1) by (intro mult_right_mono) simp_all
    finally show ?thesis .
  qed
  show ?thesis
    unfolding unat_pixel_addr [OF assms(1-3)] unat_pixel_addr [OF assms(1,4,5)]
    using row [of b d a] row [of d b c] assms(2,4,6) by (cases b d rule: linorder_cases) auto
qed

lemma putpixel_info [simp]: "fb_info (fb_putpixel x y c s) = fb_info s"
  by (simp add: fb_putpixel_def)

text \<open>Setting a pixel changes that pixel and no other.\<close>

lemma getpixel_putpixel:
  assumes f: "fb_fits (fb_info s)"
  shows "fb_getpixel x y (fb_putpixel u v c s) = (if (u, v) = (x, y) \<and> \<not> off_screen (fb_info s) x y then c else fb_getpixel x y s)"
proof (cases "off_screen (fb_info s) x y \<or> off_screen (fb_info s) u v")
  case True
  then show ?thesis by (auto simp: fb_getpixel_def fb_putpixel_def)
next
  case False
  let ?i = "fb_info s"
  obtain a b where ab: "x = int a" "y = int b" "a < unat (fi_width ?i)" "b < unat (fi_height ?i)"
    using on_screen_nat [OF f, of x y] False by blast
  obtain k l where kl: "u = int k" "v = int l" "k < unat (fi_width ?i)" "l < unat (fi_height ?i)"
    using on_screen_nat [OF f, of u v] False by blast
  have nz: "fi_buffer ?i \<noteq> 0" using f by (simp add: fb_fits_def)
  show ?thesis
  proof (cases "(u, v) = (x, y)")
    case True
    then show ?thesis using False nz by (simp add: fb_getpixel_def fb_putpixel_def mem_simps)
  next
    case ne: False
    have "load32 (store32 (fb_mem s) (pixel_addr ?i u v) c) (pixel_addr ?i x y) = load32 (fb_mem s) (pixel_addr ?i x y)"
    proof (rule load32_same_on)
      show "unat (pixel_addr ?i x y) + 4 \<le> 2 ^ 32" using unat_pixel_addr(2) [OF f ab(3,4)] ab(1,2) by simp
      have "(k, l) \<noteq> (a, b)" using ne ab kl by simp
      then show "same_on (fb_mem s) (store32 (fb_mem s) (pixel_addr ?i u v) c) (unat (pixel_addr ?i x y)) (unat (pixel_addr ?i x y) + 4)"
        using pixel_addr_apart [OF f kl(3,4) ab(3,4)] unat_pixel_addr(2) [OF f kl(3,4)] ab(1,2) kl(1,2)
        by (auto simp: same_on_def intro!: store32_outside)
    qed
    then show ?thesis using False nz ne by (auto simp: fb_getpixel_def fb_putpixel_def)
  qed
qed

section \<open>Shapes as sets of pixels\<close>

definition plot :: "(int \<times> int) list \<Rightarrow> u32 \<Rightarrow> framebuffer \<Rightarrow> framebuffer" where
  "plot ps c s = fold (\<lambda>(x, y). fb_putpixel x y c) ps s"

lemma plot_info [simp]: "fb_info (plot ps c s) = fb_info s"
  by (induction ps arbitrary: s) (auto simp: plot_def)

lemma getpixel_plot:
  "fb_fits (fb_info s) \<Longrightarrow> fb_getpixel x y (plot ps c s) = (if (x, y) \<in> set ps \<and> \<not> off_screen (fb_info s) x y then c else fb_getpixel x y s)"
proof (induction ps arbitrary: s)
  case (Cons p ps)
  obtain u v where p: "p = (u, v)" by (cases p)
  have "plot (p # ps) c s = plot ps c (fb_putpixel u v c s)" by (simp add: plot_def p)
  then show ?case using Cons.IH [of "fb_putpixel u v c s"] Cons.prems getpixel_putpixel [OF Cons.prems, of x y u v c] p by auto
qed (simp add: plot_def)

lemma fold_plot: "fold (\<lambda>j s. plot (f j) c s) js s = plot (concat (map f js)) c s"
  by (induction js arbitrary: s) (simp_all add: plot_def)

lemma fill_rect_plot:
  assumes "\<bar>x\<bar> < 2 ^ 30" "\<bar>y\<bar> < 2 ^ 30" "\<bar>w\<bar> < 2 ^ 30" "\<bar>h\<bar> < 2 ^ 30"
  shows "fb_fill_rect x y w h c s = plot (concat (map (\<lambda>j. map (\<lambda>i. (i, j)) [x..x + w - 1]) [y..y + h - 1])) c s"
proof -
  have "c_int (x + w) = x + w" "c_int (y + h) = y + h" using assms by (auto intro!: c_int_small)
  moreover have "fold (\<lambda>i. fb_putpixel i j c) is s = plot (map (\<lambda>i. (i, j)) is) c s" for j "is" s
    by (induction "is" arbitrary: s) (simp_all add: plot_def)
  then have "fold (\<lambda>i. fb_putpixel i j c) is = plot (map (\<lambda>i. (i, j)) is) c" for j "is" by blast
  ultimately show ?thesis by (simp add: fb_fill_rect_def fold_plot [symmetric])
qed

text \<open>The circle's tests do not overflow up to a radius of 32767.\<close>

lemma circle_small:
  assumes "\<bar>xr\<bar> \<le> r" "\<bar>yr\<bar> \<le> r" "r < 2 ^ 15"
  shows "c_int (xr * xr + yr * yr) = xr * xr + yr * yr" "c_int (r * r) = r * r"
proof -
  have sq: "z * z \<le> (2 ^ 15 - 1) * (2 ^ 15 - 1)" if "\<bar>z\<bar> \<le> 2 ^ 15 - 1" for z :: int
  proof -
    have "\<bar>z\<bar> * \<bar>z\<bar> \<le> (2 ^ 15 - 1) * (2 ^ 15 - 1)" using that by (intro mult_mono) simp_all
    then show ?thesis by simp
  qed
  have le: "xr * xr \<le> (2 ^ 15 - 1) * (2 ^ 15 - 1)" "yr * yr \<le> (2 ^ 15 - 1) * (2 ^ 15 - 1)" "r * r \<le> (2 ^ 15 - 1) * (2 ^ 15 - 1)"
    by (rule sq, use assms in simp)+
  have nn: "0 \<le> xr * xr" "0 \<le> yr * yr" "0 \<le> r * r" by simp_all
  have p: "(2 :: int) ^ 31 = 2147483648" "((2 :: int) ^ 15 - 1) * (2 ^ 15 - 1) = 1073676289" by simp_all
  note le = le [unfolded p(2)]
  have "- (2 ^ 31) \<le> xr * xr + yr * yr" "xr * xr + yr * yr < 2 ^ 31" "- (2 ^ 31) \<le> r * r" "r * r < 2 ^ 31" unfolding p(1) using le nn by linarith+
  then show "c_int (xr * xr + yr * yr) = xr * xr + yr * yr" "c_int (r * r) = r * r" by (blast intro: c_int_small)+
qed

lemma fold_plot_filter:
  assumes "\<forall>i\<in>set is. f i = (if P i then fb_putpixel (u i) v c else (\<lambda>s. s))"
  shows "fold f is = plot (map (\<lambda>i. (u i, v)) (filter P is)) c"
proof -
  have "fold f is s = plot (map (\<lambda>i. (u i, v)) (filter P is)) c s" for s
    using assms by (induction "is" arbitrary: s) (simp_all add: plot_def)
  then show ?thesis by blast
qed

lemma filled_circle_plot:
  assumes "\<bar>cx\<bar> < 2 ^ 30" "\<bar>cy\<bar> < 2 ^ 30" "0 \<le> r" "r < 2 ^ 15"
  shows "fb_draw_filled_circle cx cy r c s =
    plot (concat (map (\<lambda>yr. map (\<lambda>xr. (cx + xr, cy + yr)) (filter (\<lambda>xr. xr * xr + yr * yr \<le> r * r) [-r..r])) [-r..r])) c s"
proof -
  have neg: "c_int (- r) = - r" using assms(3,4) by (auto intro!: c_int_small)
  have row: "fold (\<lambda>xr s. if c_int (xr * xr + yr * yr) \<le> c_int (r * r) then fb_putpixel (c_int (cx + xr)) (c_int (cy + yr)) c s else s) [-r..r]
      = plot (map (\<lambda>xr. (cx + xr, cy + yr)) (filter (\<lambda>xr. xr * xr + yr * yr \<le> r * r) [-r..r])) c" if "yr \<in> set [-r..r]" for yr
  proof (rule fold_plot_filter, rule ballI)
    fix xr
    assume "xr \<in> set [-r..r]"
    then have "\<bar>xr\<bar> \<le> r" "\<bar>yr\<bar> \<le> r" using that by auto
    moreover from this have "c_int (cx + xr) = cx + xr" "c_int (cy + yr) = cy + yr" using assms by (auto intro!: c_int_small)
    ultimately show "(\<lambda>s. if c_int (xr * xr + yr * yr) \<le> c_int (r * r) then fb_putpixel (c_int (cx + xr)) (c_int (cy + yr)) c s else s)
        = (if xr * xr + yr * yr \<le> r * r then fb_putpixel (cx + xr) (cy + yr) c else (\<lambda>s. s))"
      using circle_small [of xr r yr] assms(4) by auto
  qed
  show ?thesis unfolding fb_draw_filled_circle_def neg fold_plot [symmetric] by (rule fold_cong) (use row in auto)
qed

lemma square_bound: "a * a + b * b \<le> r * r \<Longrightarrow> 0 \<le> r \<Longrightarrow> - r \<le> a \<and> a \<le> r" for a b r :: int
proof -
  assume a: "a * a + b * b \<le> r * r" "0 \<le> r"
  have "a * a \<le> r * r" using a(1) zero_le_square [of b] by linarith
  then have "\<bar>a\<bar> \<le> r" using a(2) by (metis abs_le_square_iff abs_of_nonneg power2_eq_square)
  then show ?thesis by linarith
qed

text \<open>Clearing stores the colour in every word of the buffer.\<close>

lemma clear_words:
  assumes "unat p + 4 * n \<le> 2 ^ 32" "i < n"
  shows "load32 (fold (\<lambda>i m. store32 m (p + 4 * word_of_nat i) c) [0..<n] m) (p + 4 * word_of_nat i) = c"
  using assms
proof (induction n)
  case (Suc n)
  have a: "unat (p + 4 * word_of_nat k) = unat p + 4 * k" if "k \<le> n" for k
  proof -
    have "p + 4 * word_of_nat k = word_of_nat (unat p + 4 * k)" by simp
    moreover have "unat p + 4 * k < 2 ^ 32" using that Suc.prems(1) by simp
    ultimately show ?thesis using unat_of_nat_u32 by (simp only:)
  qed
  let ?m = "fold (\<lambda>i m. store32 m (p + 4 * word_of_nat i) c) [0..<n] m"
  show ?case
  proof (cases "i = n")
    case True
    then show ?thesis by (simp add: mem_simps)
  next
    case False
    then have i: "i < n" using Suc.prems(2) by simp
    have "load32 (store32 ?m (p + 4 * word_of_nat n) c) (p + 4 * word_of_nat i) = load32 ?m (p + 4 * word_of_nat i)"
    proof (rule load32_same_on)
      have ai: "unat (p + 4 * word_of_nat i) = unat p + 4 * i" using a i by simp
      have an: "unat (p + 4 * word_of_nat n) = unat p + 4 * n" using a by simp
      show "unat (p + 4 * word_of_nat i) + 4 \<le> 2 ^ 32" unfolding ai using i Suc.prems(1) by simp
      show "same_on ?m (store32 ?m (p + 4 * word_of_nat n) c) (unat (p + 4 * word_of_nat i)) (unat (p + 4 * word_of_nat i) + 4)"
        unfolding same_on_def ai using i an Suc.prems(1) by (auto intro!: store32_outside)
    qed
    then show ?thesis using Suc.IH Suc.prems(1) i by simp
  qed
qed simp

lemma clear_pixel:
  assumes f: "fb_fits (fb_info s)" and m: "fi_pitch (fb_info s) = 4 * fi_width (fb_info s)" "unat (fi_pitch (fb_info s)) = 4 * unat (fi_width (fb_info s))"
    "unat (fi_size (fb_info s)) = unat (fi_pitch (fb_info s)) * unat (fi_height (fb_info s))" and o: "\<not> off_screen (fb_info s) x y"
  shows "fb_getpixel x y (fb_clear c s) = c"
proof -
  let ?i = "fb_info s"
  obtain a b where ab: "x = int a" "y = int b" "a < unat (fi_width ?i)" "b < unat (fi_height ?i)" using on_screen_nat [OF f o] by blast
  let ?n = "unat (fi_width ?i) * unat (fi_height ?i)"
  have sz: "unat (fi_size ?i div 4) = ?n" using m(2,3) by (simp add: unat_div)
  have "unat (fi_buffer ?i) + unat (fi_height ?i) * unat (fi_pitch ?i) \<le> 2 ^ 32" using f by (simp add: fb_fits_def)
  then have lim: "unat (fi_buffer ?i) + 4 * ?n \<le> 2 ^ 32" using m(2) by (simp add: algebra_simps)
  have "b * unat (fi_width ?i) + a < (b + 1) * unat (fi_width ?i)" using ab(3) by simp
  also have "\<dots> \<le> unat (fi_height ?i) * unat (fi_width ?i)" using ab(4) by (intro mult_right_mono) simp_all
  finally have k: "b * unat (fi_width ?i) + a < ?n" by (simp add: mult.commute)
  have addr: "pixel_addr ?i x y = fi_buffer ?i + 4 * word_of_nat (b * unat (fi_width ?i) + a)"
    by (simp add: pixel_addr_def ab(1,2) m(1) algebra_simps)
  have nz: "fi_buffer ?i \<noteq> 0" using f by (simp add: fb_fits_def)
  let ?mem = "fold (\<lambda>i m. store32 m (fi_buffer ?i + 4 * word_of_nat i) c) [0..<unat (fi_size ?i div 4)] (fb_mem s)"
  have cl: "fb_clear c s = s\<lparr>fb_mem := ?mem\<rparr>" using nz by (simp add: fb_clear_def Let_def)
  have "load32 ?mem (pixel_addr ?i x y) = c" unfolding addr sz by (rule clear_words [OF lim k])
  then show ?thesis using o nz unfolding cl fb_getpixel_def by simp
qed

text \<open>
  The font has 47 characters: every other ASCII character is read behind its end. The buffer pointer is null after
  \<open>fb_init\<close>, and no function sets it, so drawing then has no effect.
\<close>

lemma fb_draw_char_outside:
  assumes "47 \<le> (of_char c :: int)" "of_char c < (128 :: int)"
  shows "fb_draw_char x y c fg bg s = None"
proof -
  have "376 \<le> nat (of_char c * 8)" using assms(1) by simp
  then show ?thesis using assms by (simp add: fb_draw_char_def Let_def font_8x8_def upt_conv_Cons)
qed

lemma fb_init_draws_nothing: "fb_putpixel x y c (fb_init s) = fb_init s"
  by (simp add: fb_putpixel_def fb_init_def Let_def)

text \<open>
  Drawing shapes, if a buffer is given. On a linear buffer of 32-bit pixels that fits the address space, clearing gives every pixel of the
  screen the colour; filling a rectangle gives it to exactly the pixels of the screen inside the rectangle, and a filled
  circle to exactly those within its radius; every other pixel keeps its value, and reading outside the screen gives 0.
\<close>

lemma fb_shapes:
  assumes "fb_fits (fb_info s)" "fi_pitch (fb_info s) = 4 * fi_width (fb_info s)" "unat (fi_pitch (fb_info s)) = 4 * unat (fi_width (fb_info s))"
    and "unat (fi_size (fb_info s)) = unat (fi_pitch (fb_info s)) * unat (fi_height (fb_info s))"
    and "\<bar>x\<bar> < 2 ^ 30" "\<bar>y\<bar> < 2 ^ 30" "\<bar>w\<bar> < 2 ^ 30" "\<bar>h\<bar> < 2 ^ 30" "0 \<le> r" "r < 2 ^ 15"
  shows "(\<forall>i j. off_screen (fb_info s) i j \<or> fb_getpixel i j (fb_clear c s) = c)
    \<and> (\<forall>i j. fb_getpixel i j (fb_fill_rect x y w h c s) =
        (if \<not> off_screen (fb_info s) i j \<and> x \<le> i \<and> i < x + w \<and> y \<le> j \<and> j < y + h then c else fb_getpixel i j s))
    \<and> (\<forall>i j. fb_getpixel i j (fb_draw_filled_circle x y r c s) =
        (if \<not> off_screen (fb_info s) i j \<and> (i - x) * (i - x) + (j - y) * (j - y) \<le> r * r then c else fb_getpixel i j s))
    \<and> (\<forall>i j. off_screen (fb_info s) i j \<longrightarrow> fb_getpixel i j s = 0)"
proof (intro conjI allI)
  fix i j
  show "off_screen (fb_info s) i j \<or> fb_getpixel i j (fb_clear c s) = c" using clear_pixel [OF assms(1-4)] by blast
  show "fb_getpixel i j (fb_fill_rect x y w h c s) =
      (if \<not> off_screen (fb_info s) i j \<and> x \<le> i \<and> i < x + w \<and> y \<le> j \<and> j < y + h then c else fb_getpixel i j s)"
    unfolding fill_rect_plot [OF assms(5-8)] getpixel_plot [OF assms(1)] by (auto simp: image_iff)
  have "(i, j) \<in> set (concat (map (\<lambda>yr. map (\<lambda>xr. (x + xr, y + yr)) (filter (\<lambda>xr. xr * xr + yr * yr \<le> r * r) [-r..r])) [-r..r]))
      \<longleftrightarrow> (i - x) * (i - x) + (j - y) * (j - y) \<le> r * r" (is "?l \<longleftrightarrow> ?r")
  proof
    assume ?r
    then have "i - x \<in> {-r..r}" "j - y \<in> {-r..r}"
      using square_bound [of "i - x" "j - y" r] square_bound [of "j - y" "i - x" r] assms(9) by (simp_all add: add.commute)
    then show ?l using \<open>?r\<close> by (auto intro!: bexI [of _ "j - y"] image_eqI [of _ _ "i - x"])
  qed auto
  then show "fb_getpixel i j (fb_draw_filled_circle x y r c s) =
      (if \<not> off_screen (fb_info s) i j \<and> (i - x) * (i - x) + (j - y) * (j - y) \<le> r * r then c else fb_getpixel i j s)"
    unfolding filled_circle_plot [OF assms(5,6,9,10)] getpixel_plot [OF assms(1)] by simp
  show "off_screen (fb_info s) i j \<longrightarrow> fb_getpixel i j s = 0" by (simp add: fb_getpixel_def)
qed

section \<open>Lines\<close>

definition float_exact :: "(rat \<Rightarrow> rat) \<Rightarrow> bool" where
  "float_exact rnd \<longleftrightarrow> (\<forall>i. \<bar>i\<bar> \<le> 2 ^ 24 \<longrightarrow> rnd (of_int i) = of_int i)"

lemma float_to_int_of_int [simp]: "float_to_int (of_int i) = i"
  by (simp add: float_to_int_def)

text \<open>With integral increments every position of the loop is an integer.\<close>

lemma line_loop_plot:
  assumes "float_exact rnd" "\<bar>a\<bar> \<le> 1" "\<bar>b\<bar> \<le> 1" "\<bar>x\<bar> + int n \<le> 2 ^ 24" "\<bar>y\<bar> + int n \<le> 2 ^ 24"
  shows "line_loop rnd c (of_int a) (of_int b) n (of_int x) (of_int y) s = plot (map (\<lambda>k. (x + int k * a, y + int k * b)) [0..<n]) c s"
  using assms(4,5)
proof (induction n arbitrary: x y s)
  case (Suc n)
  have r: "rnd (of_int z + of_int d) = of_int (z + d)" "\<bar>z + d\<bar> + int n \<le> 2 ^ 24" if "\<bar>z\<bar> + int (Suc n) \<le> 2 ^ 24" "\<bar>d\<bar> \<le> 1" for z d
  proof -
    show le: "\<bar>z + d\<bar> + int n \<le> 2 ^ 24" using that by auto
    then have "\<bar>z + d\<bar> \<le> 2 ^ 24" by simp
    then show "rnd (of_int z + of_int d) = of_int (z + d)" using assms(1) unfolding float_exact_def of_int_add [symmetric] by blast
  qed
  have u: "map f [0..<Suc n] = f 0 # map (\<lambda>k. f (Suc k)) [0..<n]" for f :: "nat \<Rightarrow> int \<times> int"
    by (simp add: upt_conv_Cons map_Suc_upt [symmetric] comp_def del: upt_Suc)
  have st: "x + a + int k * a = x + int (Suc k) * a" "y + b + int k * b = y + int (Suc k) * b" for k by (simp_all add: algebra_simps)
  show ?case
    unfolding line_loop.simps Let_def float_to_int_of_int r(1) [OF Suc.prems(1) assms(2)] r(1) [OF Suc.prems(2) assms(3)]
      Suc.IH [OF r(2) [OF Suc.prems(1) assms(2)] r(2) [OF Suc.prems(2) assms(3)]] u st
    by (simp add: plot_def)
qed (simp add: plot_def)

text \<open>
  Horizontal, vertical and diagonal lines step by whole pixels: the pixels are the \<open>steps + 1\<close> ones from the first end to the second.
\<close>

definition run :: "int \<Rightarrow> int \<Rightarrow> int \<Rightarrow> int" where
  "run p q k = p + k * sgn (q - p)"

lemma unit_quotient: "0 < n \<Longrightarrow> e = 0 \<or> \<bar>e\<bar> = n \<Longrightarrow> of_int e / of_int n = (of_int (sgn e) :: rat)"
  by (auto simp: abs_if sgn_if split: if_splits)

lemma draw_line_plot:
  assumes f: "float_exact rnd" and d: "x1 = x0 \<or> y1 = y0 \<or> \<bar>x1 - x0\<bar> = \<bar>y1 - y0\<bar>"
    and b: "\<bar>x0\<bar> < 2 ^ 22" "\<bar>y0\<bar> < 2 ^ 22" "\<bar>x1\<bar> < 2 ^ 22" "\<bar>y1\<bar> < 2 ^ 22"
  shows "fb_draw_line rnd x0 y0 x1 y1 c s
    = plot (map (\<lambda>k. (run x0 x1 (int k), run y0 y1 (int k))) [0..<nat (max \<bar>x1 - x0\<bar> \<bar>y1 - y0\<bar>) + 1]) c s"
proof -
  let ?n = "max \<bar>x1 - x0\<bar> \<bar>y1 - y0\<bar>"
  have ci: "c_int (x1 - x0) = x1 - x0" "c_int (y1 - y0) = y1 - y0" "c_int (- (x1 - x0)) = - (x1 - x0)" "c_int (- (y1 - y0)) = - (y1 - y0)"
    using b by (auto intro!: c_int_small)
  have steps: "(if (if x1 - x0 < 0 then - (x1 - x0) else x1 - x0) > (if y1 - y0 < 0 then - (y1 - y0) else y1 - y0)
      then (if x1 - x0 < 0 then - (x1 - x0) else x1 - x0) else (if y1 - y0 < 0 then - (y1 - y0) else y1 - y0)) = ?n" by auto
  show ?thesis
  proof (cases "?n = 0")
    case True
    then have "x1 = x0" "y1 = y0" by auto
    then show ?thesis by (simp add: fb_draw_line_def run_def plot_def)
  next
    case False
    then have n: "0 < ?n" by auto
    have ex: "rnd (of_int z) = of_int z" if "\<bar>z\<bar> < 2 ^ 23" for z using f that unfolding float_exact_def by auto
    have small: "\<bar>x1 - x0\<bar> < 2 ^ 23" "\<bar>y1 - y0\<bar> < 2 ^ 23" "\<bar>?n\<bar> < 2 ^ 23" using b by auto
    have inc: "rnd (rnd (of_int e) / rnd (of_int ?n)) = of_int (sgn e)" if "e = 0 \<or> \<bar>e\<bar> = ?n" for e
    proof -
      have e: "\<bar>e\<bar> < 2 ^ 23" using that small(3) by auto
      have "of_int e / of_int ?n = (of_int (sgn e) :: rat)" by (rule unit_quotient [OF n that])
      then show ?thesis unfolding ex [OF e] ex [OF small(3)] by (simp add: ex sgn_if)
    qed
    have le: "x1 - x0 = 0 \<or> \<bar>x1 - x0\<bar> = ?n" "y1 - y0 = 0 \<or> \<bar>y1 - y0\<bar> = ?n" using d by auto
    have lim: "\<bar>x0\<bar> + int (nat ?n + 1) \<le> 2 ^ 24" "\<bar>y0\<bar> + int (nat ?n + 1) \<le> 2 ^ 24" using b small n by (simp_all add: max_def)
    have ex0: "rnd (of_int x0) = of_int x0" "rnd (of_int y0) = of_int y0" using b by (auto intro!: ex)
    have "fb_draw_line rnd x0 y0 x1 y1 c s
        = line_loop rnd c (of_int (sgn (x1 - x0))) (of_int (sgn (y1 - y0))) (nat ?n + 1) (of_int x0) (of_int y0) s"
      unfolding fb_draw_line_def Let_def ci steps if_not_P [OF False] inc [OF le(1)] inc [OF le(2)] ex0 by (rule refl)
    also have "\<dots> = plot (map (\<lambda>k. (run x0 x1 (int k), run y0 y1 (int k))) [0..<nat ?n + 1]) c s"
      unfolding run_def by (rule line_loop_plot [OF f _ _ lim]) (simp_all add: sgn_if)
    finally show ?thesis .
  qed
qed

lemma run_set: "(\<lambda>k. run p q (int k)) ` {..nat \<bar>q - p\<bar>} = {min p q..max p q}"
proof (rule set_eqI)
  fix i
  show "i \<in> (\<lambda>k. run p q (int k)) ` {..nat \<bar>q - p\<bar>} \<longleftrightarrow> i \<in> {min p q..max p q}"
  proof
    assume "i \<in> {min p q..max p q}"
    then have "i = run p q (int (nat \<bar>i - p\<bar>)) \<and> nat \<bar>i - p\<bar> \<le> nat \<bar>q - p\<bar>" by (auto simp: run_def sgn_if min_def max_def split: if_splits)
    then show "i \<in> (\<lambda>k. run p q (int k)) ` {..nat \<bar>q - p\<bar>}" by blast
  qed (auto simp: run_def sgn_if)
qed

lemma straight_line:
  assumes "float_exact rnd" "\<bar>x0\<bar> < 2 ^ 22" "\<bar>y0\<bar> < 2 ^ 22" "\<bar>x1\<bar> < 2 ^ 22" "\<bar>y1\<bar> < 2 ^ 22"
  shows "fb_info (fb_draw_line rnd x0 y0 x1 y0 c s) = fb_info s" "fb_info (fb_draw_line rnd x0 y0 x0 y1 c s) = fb_info s"
    and "fb_fits (fb_info s) \<Longrightarrow> fb_getpixel i j (fb_draw_line rnd x0 y0 x1 y0 c s) =
        (if \<not> off_screen (fb_info s) i j \<and> j = y0 \<and> min x0 x1 \<le> i \<and> i \<le> max x0 x1 then c else fb_getpixel i j s)"
    and "fb_fits (fb_info s) \<Longrightarrow> fb_getpixel i j (fb_draw_line rnd x0 y0 x0 y1 c s) =
        (if \<not> off_screen (fb_info s) i j \<and> i = x0 \<and> min y0 y1 \<le> j \<and> j \<le> max y0 y1 then c else fb_getpixel i j s)"
proof -
  let ?ps = "\<lambda>p q (f :: int \<Rightarrow> int \<times> int). map (\<lambda>k. f (run p q (int k))) [0..<nat \<bar>q - p\<bar> + 1]"
  have st: "run p p k = p" for p k by (simp add: run_def)
  have h: "fb_draw_line rnd x0 y0 x1 y0 c s = plot (?ps x0 x1 (\<lambda>i. (i, y0))) c s"
    using draw_line_plot [OF assms(1) _ assms(2,3,4,3)] by (simp add: st)
  have v: "fb_draw_line rnd x0 y0 x0 y1 c s = plot (?ps y0 y1 (\<lambda>j. (x0, j))) c s"
    using draw_line_plot [OF assms(1) _ assms(2,3,2,5)] by (simp add: st)
  have mem: "set (?ps p q f) = f ` {min p q..max p q}" for p q f
    unfolding run_set [symmetric] image_image set_map set_upt by (rule arg_cong [where f = "image _"]) auto
  show "fb_info (fb_draw_line rnd x0 y0 x1 y0 c s) = fb_info s" "fb_info (fb_draw_line rnd x0 y0 x0 y1 c s) = fb_info s" by (simp_all add: h v)
  assume f: "fb_fits (fb_info s)"
  show "fb_getpixel i j (fb_draw_line rnd x0 y0 x1 y0 c s) =
        (if \<not> off_screen (fb_info s) i j \<and> j = y0 \<and> min x0 x1 \<le> i \<and> i \<le> max x0 x1 then c else fb_getpixel i j s)"
    unfolding h getpixel_plot [OF f] mem [where f = "\<lambda>i. (i, y0)"] by auto
  show "fb_getpixel i j (fb_draw_line rnd x0 y0 x0 y1 c s) =
        (if \<not> off_screen (fb_info s) i j \<and> i = x0 \<and> min y0 y1 \<le> j \<and> j \<le> max y0 y1 then c else fb_getpixel i j s)"
    unfolding v getpixel_plot [OF f] mem [where f = "\<lambda>j. (x0, j)"] by auto
qed

definition on_outline :: "int \<Rightarrow> int \<Rightarrow> int \<Rightarrow> int \<Rightarrow> int \<Rightarrow> int \<Rightarrow> bool" where
  "on_outline x0 y0 x1 y1 i j \<longleftrightarrow> (j = y0 \<or> j = y1) \<and> min x0 x1 \<le> i \<and> i \<le> max x0 x1
     \<or> (i = x0 \<or> i = x1) \<and> min y0 y1 \<le> j \<and> j \<le> max y0 y1"

text \<open>
  Outlines, if a buffer is given. Whatever the precision of the floating point steps, as long as integers of 24 bits are exact, the outline
  of a rectangle gets the colour on exactly the pixels of the screen on its four sides, and every other pixel keeps its
  value. The sides run between \<open>x\<close> and \<open>x + w - 1\<close>, and \<open>y\<close> and \<open>y + h - 1\<close>, in either direction: an empty rectangle (\<open>w = 0\<close>
  or \<open>h = 0\<close>) is drawn two pixels wide or high.
\<close>

lemma fb_draw_rect_outline:
  assumes "float_exact rnd" "fb_fits (fb_info s)" "\<bar>x\<bar> < 2 ^ 22" "\<bar>y\<bar> < 2 ^ 22" "\<bar>x + w - 1\<bar> < 2 ^ 22" "\<bar>y + h - 1\<bar> < 2 ^ 22"
  shows "fb_getpixel i j (fb_draw_rect rnd x y w h c s) =
    (if \<not> off_screen (fb_info s) i j \<and> on_outline x y (x + w - 1) (y + h - 1) i j then c else fb_getpixel i j s)"
proof -
  let ?x = "x + w - 1" and ?y = "y + h - 1"
  have ci: "c_int ?x = ?x" "c_int ?y = ?y" using assms(5,6) by (auto intro!: c_int_small)
  let ?s1 = "fb_draw_line rnd x y ?x y c s"
  let ?s2 = "fb_draw_line rnd x ?y ?x ?y c ?s1"
  let ?s3 = "fb_draw_line rnd x y x ?y c ?s2"
  note top = straight_line [OF assms(1,3,4,5,6)] and bottom = straight_line [OF assms(1,3,6,5,4)] and right = straight_line [OF assms(1,5,4,3,6)]
  have info: "fb_info ?s1 = fb_info s" "fb_info ?s2 = fb_info s" "fb_info ?s3 = fb_info s"
    unfolding top(1,2) bottom(1) by (rule refl)+
  have fits: "fb_fits (fb_info ?s1)" "fb_fits (fb_info ?s2)" "fb_fits (fb_info ?s3)" unfolding info by (rule assms(2))+
  show ?thesis
    unfolding fb_draw_rect_def Let_def ci right(4) [OF fits(3)] top(4) [OF fits(2)] bottom(3) [OF fits(1)] top(3) [OF assms(2)] info on_outline_def
    by auto
qed

section \<open>No buffer\<close>

text \<open>
  The static state of the library and its calls: the information is zero until \<open>fb_init\<close> or \<open>fb_set_mode\<close>. Reading pixels and
  the information changes nothing and is no step.
\<close>

definition fb_static :: "memory \<Rightarrow> framebuffer" where
  "fb_static m = \<lparr>fb_info = \<lparr>fi_width = 0, fi_height = 0, fi_pitch = 0, fi_bpp = 0, fi_format = 0, fi_buffer = 0, fi_size = 0,
     fi_red_mask = 0, fi_green_mask = 0, fi_blue_mask = 0, fi_red_shift = 0, fi_green_shift = 0, fi_blue_shift = 0\<rparr>,
     fb_initialized = False, fb_mem = m\<rparr>"

inductive fb_step :: "framebuffer \<Rightarrow> framebuffer \<Rightarrow> bool" where
  init: "fb_step s (fb_init s)"
| set_mode: "fb_step s (fst (fb_set_mode w h bpp s))"
| putpixel: "fb_step s (fb_putpixel x y c s)"
| clear: "fb_step s (fb_clear c s)"
| fill_rect: "fb_step s (fb_fill_rect x y w h c s)"
| draw_rect: "fb_step s (fb_draw_rect rnd x y w h c s)"
| draw_line: "fb_step s (fb_draw_line rnd x y x1 y1 c s)"
| draw_circle: "fb_step s (fb_draw_circle x y r c s)"
| draw_filled_circle: "fb_step s (fb_draw_filled_circle x y r c s)"
| draw_char: "fb_draw_char x y ch fg bg s = Some s' \<Longrightarrow> fb_step s s'"
| draw_string: "fb_draw_string x y str fg bg s = Some s' \<Longrightarrow> fb_step s s'"
| swap: "fb_step s (fb_swap s)"

inductive fb_reach :: "memory \<Rightarrow> framebuffer \<Rightarrow> bool" for m where
  static: "fb_reach m (fb_static m)"
| step: "fb_reach m s \<Longrightarrow> fb_step s s' \<Longrightarrow> fb_reach m s'"

definition no_buffer :: "framebuffer \<Rightarrow> bool" where
  "no_buffer s \<longleftrightarrow> fi_buffer (fb_info s) = 0"

lemma putpixel_null [simp]: "no_buffer s \<Longrightarrow> fb_putpixel x y c s = s"
  by (simp add: fb_putpixel_def no_buffer_def)

lemma fold_idle: "\<forall>i\<in>set is. f i s = s \<Longrightarrow> fold f is s = s"
  by (induction "is") simp_all

lemma draw_line_null [simp]: "no_buffer s \<Longrightarrow> fb_draw_line rnd x0 y0 x1 y1 c s = s"
proof -
  assume s: "no_buffer s"
  have "line_loop rnd c a b n x y s = s" for a b n x y by (induction n arbitrary: x y) (simp_all add: s)
  then show ?thesis using s by (simp add: fb_draw_line_def Let_def)
qed

lemma circle_null: "no_buffer s \<Longrightarrow> circle_loop cx cy color x y err s = s"
proof (induction cx cy color x y err s rule: circle_loop.induct)
  case (1 cx cy color x y err s)
  have p: "circle_points cx cy color x y s = s" using 1(3) by (simp add: circle_points_def Let_def)
  show ?case
  proof (cases "y \<le> x")
    case True
    then show ?thesis using 1(1,2) [OF True refl refl refl] 1(3) by (subst circle_loop.simps) (simp add: p Let_def)
  qed (simp add: circle_loop.simps [of cx cy color x y err s])
qed

lemma draw_row_null: "no_buffer s \<Longrightarrow> draw_row x y line fg bg row s = s"
  unfolding draw_row_def by (rule fold_idle) simp

lemma draw_char_null: "no_buffer s \<Longrightarrow> fb_draw_char x y ch fg bg s \<in> {Some s, None}"
proof -
  assume s: "no_buffer s"
  have "char_rows x y idx fg bg rows s \<in> {Some s, None}" for idx rows by (induction rows) (simp_all add: draw_row_null s)
  then show ?thesis by (simp add: fb_draw_char_def Let_def)
qed

lemma draw_string_null: "no_buffer s \<Longrightarrow> draw_string_loop x px y str fg bg s \<in> {Some s, None}"
proof (induction x px y str fg bg s rule: draw_string_loop.induct)
  case (2 x px y c cs fg bg s)
  then show ?case using draw_char_null [OF 2(3), of px y c fg bg] by (auto split: option.splits)
qed simp

lemma fb_step_null:
  assumes "fb_step s s'" "no_buffer s"
  shows "no_buffer s' \<and> fb_mem s' = fb_mem s"
  using assms
proof cases
  case init
  then show ?thesis by (simp add: fb_init_def no_buffer_def Let_def)
next
  case (set_mode w h bpp)
  then show ?thesis using assms(2) by (simp add: fb_set_mode_def fb_init_def no_buffer_def Let_def)
next
  case (clear c)
  then show ?thesis using assms(2) by (simp add: fb_clear_def no_buffer_def)
next
  case (fill_rect x y w h c)
  have "s' = s" unfolding fill_rect fb_fill_rect_def by (intro fold_idle ballI) (simp add: assms(2))
  then show ?thesis using assms(2) by simp
next
  case (draw_filled_circle x y r c)
  have "s' = s" unfolding draw_filled_circle fb_draw_filled_circle_def by (intro fold_idle ballI) (simp add: assms(2))
  then show ?thesis using assms(2) by simp
next
  case (draw_char x y ch fg bg)
  then show ?thesis using draw_char_null [OF assms(2), of x y ch fg bg] assms(2) by auto
next
  case (draw_string x y str fg bg)
  then show ?thesis using draw_string_null [OF assms(2), of x x y str fg bg] assms(2) by (auto simp: fb_draw_string_def)
qed (use assms(2) in \<open>simp_all add: fb_draw_rect_def fb_draw_circle_def circle_null fb_swap_def Let_def\<close>)



end
