(* ===== verification/Spec2Isabelle.thy ===== *)
theory Spec2Isabelle
  imports Machine_Run Stubs User_Progs Keyboard_Race Mouse Framebuffer
begin

text \<open>
  Verification of the Eron kernel, a 32-bit kernel in C for the i386 (\<^verbatim>\<open>src/src\<close>). This theory imports the whole
  development; the definitions, lemmas and properties are in the theory of the component they belong to.

  \<^bold>\<open>The program.\<close> \<^verbatim>\<open>boot.S\<close> enters \<open>kernel_main\<close> (\<^verbatim>\<open>kernel.c\<close>), which initialises the components one after the
  other, runs the script \<^verbatim>\<open>/etc/init.rc\<close> and loops: characters from the keyboard go to the shell, zombies are
  reaped. Interrupts come through \<open>interrupt_dispatch\<close> (\<^verbatim>\<open>interrupt.c\<close>): faults, the timer, the keyboard and system
  calls. The components call each other directly and keep their state in static variables. In the model that state is
  a record per component and the record \<open>kernel\<close> of them all; an operation is a function that returns the updated state.

  \<^bold>\<open>Theories and sources.\<close>
  \<^item> \<open>Eron_Prelude\<close>: word and memory types, loads and stores of words in a byte-addressed memory, shared lemmas and
    collections. \<open>Cstring\<close>: C strings, \<open>strcpy\<close> and \<open>strcmp\<close> as the sources write them, and the contract \<open>name_table\<close> of a
    bounded table searched by name.
  \<^item> \<open>Mm\<close>, \<open>Mm_Chain\<close>, \<open>Mm_Heap\<close>: \<^verbatim>\<open>mm.c\<close>. The heap is bytes of memory; headers are read and written at the addresses the
    code computes. \<open>heap_inv s bs\<close> relates a state to the list of blocks \<open>bs\<close>; \<open>alloc_spec\<close> and \<open>free_spec\<close> are the
    abstract allocator. The contract \<open>allocator\<close> is interpreted on \<open>kmalloc\<close>.
  \<^item> \<open>Virtual_mm\<close>: \<^verbatim>\<open>virtual_mm.c\<close>, directories and tables as words of the same memory.
  \<^item> \<open>Task\<close>: \<^verbatim>\<open>task.c\<close>. \<open>Vfs\<close>, \<open>Vfs_Inv\<close>, \<open>Vfs_View\<close>, \<open>Vfs_Props\<close>: \<^verbatim>\<open>vfs.c\<close> with its invariant, its steps as a relation, and
    the view of it as a map from paths to entries. Both tables interpret \<open>name_table\<close>.
  \<^item> \<open>Descriptors\<close>: \<^verbatim>\<open>gdt.c\<close>, \<^verbatim>\<open>idt.c\<close>, \<^verbatim>\<open>tss.c\<close> and the loads of these tables in \<^verbatim>\<open>boot.S\<close>, with the encodings the processor
    reads.
  \<^item> \<open>Process\<close>, \<open>Sched\<close>, \<open>Sched_Props\<close>: \<^verbatim>\<open>process.c\<close> and \<open>swtch\<close> of \<^verbatim>\<open>boot.S\<close>: the process table, the stack frames of a new
    process, round robin scheduling. \<open>Elf\<close>: \<^verbatim>\<open>elf.c\<close>. \<open>Timer\<close>: \<^verbatim>\<open>timer.c\<close> and port writes as a trace.
  \<^item> \<open>Tty\<close>: \<^verbatim>\<open>tty.c\<close>, \<^verbatim>\<open>vga.h\<close>, \<^verbatim>\<open>display.c\<close>. \<open>Ring\<close>: the contract \<open>bounded_queue\<close> and ring buffer arithmetic; \<open>Teclado\<close>:
    \<^verbatim>\<open>teclado.c\<close>, which interprets it; \<open>Keyboard_Race\<close>: interrupts inside \<open>keyboard_getchar\<close>. \<open>Numfmt\<close>: the number conversions of \<^verbatim>\<open>shell.c\<close> and \<^verbatim>\<open>kernel.c\<close>.
  \<^item> \<open>Kernel_State\<close>: the whole state, the machine it is linked with (addresses of assembly entry points, \<open>cpuid\<close>, the
    real-time clock) and \<open>kernel_inv\<close>, the conjunction of the component invariants.
  \<^item> \<open>Syscall\<close>: \<^verbatim>\<open>syscall.c\<close>. \<open>Interrupt\<close>: \<^verbatim>\<open>interrupt.c\<close>. \<open>Stubs\<close>: the interrupt stubs,
    \<open>trapret\<close>, the multiboot header and \<open>_start\<close> of \<^verbatim>\<open>boot.S\<close>, as instruction lists on a register file and memory. \<open>Procfs\<close>: the \<^verbatim>\<open>/proc\<close> readers of \<^verbatim>\<open>kernel.c\<close>.
  \<^item> \<open>Shell\<close>, \<open>Shell_Cmd\<close>, \<open>Exec\<close>, \<open>Shell_Frame\<close>, \<open>Shell_Props\<close>, \<open>Shell_Script\<close>: \<^verbatim>\<open>shell.c\<close>: all programs, then registration,
    parsing, execution, line editing and scripts. \<open>Exec\<close> holds what \<open>exec\<close> makes of files and embedded programs, \<open>Shell_Frame\<close> what
    every program leaves alone, with \<open>sys_inv\<close>, the invariant of a kernel with its image below heap and user space.
    \<open>User_Progs\<close>: the embedded user programs and their execution.
  \<^item> \<open>Boot\<close>, \<open>Boot_Props\<close>, \<open>Main_Loop\<close>: \<open>kernel_main\<close> with \<open>vfs_populate\<close>, and a round of its main loop. \<open>Machine_Run\<close>: runs of
    the whole machine as a step relation over rounds of the main loop, interrupts and turns of sleeping calls.
  \<^item> \<open>Mouse\<close>: \<^verbatim>\<open>mouse.c\<close>. \<open>Framebuffer\<close>: \<^verbatim>\<open>framebuffer.c\<close>. Both are compiled into the kernel and called by nothing.

  \<^bold>\<open>What the properties and the lemmas beside them show.\<close>
  \<^item> Heap: allocation refines first fit on the list of blocks and freeing refines marking and merging; sequences of
    allocations are disjoint; freeing undoes allocating as long as the tracking table has room; the byte counts are exact.
  \<^item> File system: every reachable state satisfies the invariant; creating, writing, reading, renaming, removing and
    changing permissions act on the map of paths as specified, refusals included; listing returns the first children of a directory
    that fit; no path with a double dot gets through; a path of 128 to 255 characters is lost.
  \<^item> Processes: one running process, distinct process numbers, a ready process waits at most fifteen turns; the frames
    of a new process; the context switch is undone by switching back. Loading a program writes only user space.
  \<^item> Input and output: the screen shows the last 25 lines of an endless paper; typed characters arrive in order;
    numbers are printed as their value.
  \<^item> Entry into the kernel: system calls return and keep all invariants, pointers are checked exactly, sleeping ends if
    the clock runs; a fault in user mode costs that process only, and the machine stops exactly on a fault in the kernel.
    Through the stubs an interrupted program gets every register back, at once or, when the handler switches to another process,
    when it is switched back to; the first switch to a new process takes the processor to its entry point in
    user mode; keyboard interrupts may fall anywhere into \<open>keyboard_getchar\<close>.
  \<^item> Memory of user pages: a page that is allocated translates to its frame until it is freed.
  \<^item> Shell: the words of a line, editing up to the line that Enter executes, and that any line leaves a consistent kernel or stops the machine; a script
    is its lines; \<open>exec\<close> never starts a process, and the embedded programs would print nothing. Boot reaches the main loop
    with all invariants and the effects of the start script, and every round of the loop ends and keeps them.
  \<^item> Unused drivers: the mouse pointer follows the packets that the driver accepts; the framebuffer library, whose buffer stays
    null, draws nothing, and the lemmas of \<open>Framebuffer\<close> say what its shapes would be on a buffer.
  \<^item> The whole machine: every state reached after power-on, with rounds, interrupts and system calls in any order, satisfies
    all invariants, and nothing gets stuck in it.

  \<^bold>\<open>Conventions and bounds.\<close> Integers of fixed width are words and wrap; \<open>int\<close> is a mathematical integer where the code
  keeps it small, and \<open>c_int\<close> wraps it to 32 bits where callers decide the operands (coordinates of the mouse and the framebuffer); \<open>size_t\<close> lengths of C strings are natural numbers. A pointer to a C string is the string, or \<open>None\<close> for
  the null pointer; indices take the place of pointers into static arrays. A loop over a corrupted heap may not end:
  the heap loops are partial functions into \<open>option\<close>, and the properties show that they return a value under \<open>heap_inv\<close>;
  so are draining the keyboard, which is shown to end, reading a string from user memory, the wait of \<open>reboot\<close> for the keyboard controller, and the waits of
  \<open>SYS_SLEEP\<close> and \<open>exec\<close>, in which what other processes do between two looks at the clock is the
  argument \<open>others\<close>. All other loops are recursive functions with termination proofs. No fuel is used. The two waits on
  the mouse controller count to 100000 as the code does. What the compiled interrupt handler writes besides the frame it is given,
  and the address behind its call, are the arguments \<open>work\<close> and \<open>ra\<close> of the stubs. The rounding of \<open>float\<close> expressions, which C leaves to the compiler, is the
  argument \<open>rnd\<close> of the functions that draw lines.

  \<^bold>\<open>Not modelled.\<close> In the runs of the whole machine interrupts arrive between operations, not inside them; only \<open>keyboard_getchar\<close>
  is also taken apart into its accesses. The echo of the keyboard interrupt into the middle of a terminal operation is
  therefore not covered. The addresses the linker gives are arguments with the hypothesis \<open>linked\<close>. The
  caches of the processor, paging as done by the hardware, and the instruction \<open>hlt\<close> have no counterpart; \<open>cli\<close> and \<open>sti\<close>
  neither. The heap's memory, the stacks of the process table and the memory in which the stubs are studied are separate
  memories. Functions that a header declares and no source defines (\<open>fb_copy\<close>, \<open>vfs_open\<close>, \<open>vfs_mount\<close> and its neighbours),
  the unused structure of VESA modes and the build files have no model.
\<close>

end
